(* ===== verification/Prelude.thy ===== *)
theory Prelude
  imports Main
begin

text \<open>
  Shared vocabulary of the development: Go's 64-bit signed integers with their
  wrap-around, truncating division, Go maps read with a zero value, and the
  iteration over a map in an unspecified order.

  A Go map is an Isabelle map \<open>'k \<rightharpoonup> 'v\<close>.  A \<^verbatim>\<open>range\<close> loop over a map visits its
  keys in an order the language leaves open, so every definition that models such a
  loop takes the order as an argument, and its theorems hold for each order that
  enumerates the map (\<open>range_order\<close>).
\<close>

named_theorems go_defs \<open>definitions to unfold when an operation is analysed\<close>
named_theorems wrap_simps \<open>facts that remove wrap-around\<close>

section \<open>Machine integers\<close>

text \<open>Go's \<^verbatim>\<open>int\<close> and \<^verbatim>\<open>int64\<close> on the 64-bit targets the program is built for.\<close>

definition wrap64 :: "int \<Rightarrow> int" where
  "wrap64 x = (x + 2 ^ 63) mod 2 ^ 64 - 2 ^ 63"

definition in64 :: "int \<Rightarrow> bool" where
  "in64 x \<longleftrightarrow> - (2 ^ 63) \<le> x \<and> x < 2 ^ 63"

definition go_quot :: "int \<Rightarrow> int \<Rightarrow> int" where
  "go_quot a b = sgn a * sgn b * (\<bar>a\<bar> div \<bar>b\<bar>)"

lemma wrap64_id [wrap_simps]: "in64 x \<Longrightarrow> wrap64 x = x"
  by (simp add: wrap64_def in64_def)

lemma in64_wrap64 [simp]: "in64 (wrap64 x)"
  by (simp add: wrap64_def in64_def)

lemma wrap64_wrap64 [simp]: "wrap64 (wrap64 x) = wrap64 x"
  by (simp add: wrap64_id)

lemma wrap64_cong_mod: "x mod 2 ^ 64 = y mod 2 ^ 64 \<Longrightarrow> wrap64 x = wrap64 y"
  unfolding wrap64_def by (metis mod_add_left_eq)

lemma wrap64_mod: "wrap64 x mod 2 ^ 64 = x mod 2 ^ 64"
  by (simp add: wrap64_def mod_diff_left_eq)

lemma wrap64_add_left [simp]: "wrap64 (wrap64 x + y) = wrap64 (x + y)"
  by (rule wrap64_cong_mod) (metis wrap64_mod mod_add_left_eq)

lemma wrap64_add_right [simp]: "wrap64 (x + wrap64 y) = wrap64 (x + y)"
  by (metis add.commute wrap64_add_left)

lemma in64_0 [simp]: "in64 0"
  by (simp add: in64_def)

lemma wrap64_0 [simp]: "wrap64 0 = 0"
  by (simp add: wrap64_id)

lemma go_quot_pos: "0 \<le> a \<Longrightarrow> 0 < b \<Longrightarrow> go_quot a b = a div b"
  by (auto simp: go_quot_def sgn_if)

lemma go_quot_sign: "go_quot a 8 \<le> 0 \<longleftrightarrow> a < 8"
proof (cases "0 \<le> a")
  case True
  then show ?thesis by (auto simp: go_quot_pos pos_imp_zdiv_pos_iff not_le [symmetric])
next
  case False
  then have "go_quot a 8 = - (\<bar>a\<bar> div 8)" by (simp add: go_quot_def)
  with False show ?thesis by (simp add: pos_imp_zdiv_nonneg_iff)
qed

section \<open>Maps\<close>

text \<open>Go's \<^verbatim>\<open>m[k]\<close> on a missing key is the zero value of the element type.\<close>

definition map_get :: "'v \<Rightarrow> ('k \<rightharpoonup> 'v) \<Rightarrow> 'k \<Rightarrow> 'v" where
  "map_get z m k = (case m k of None \<Rightarrow> z | Some v \<Rightarrow> v)"

text \<open>\<open>range_order m ks\<close>: \<open>ks\<close> is one of the orders a loop over \<open>m\<close> may take.\<close>

definition range_order :: "('k \<rightharpoonup> 'v) \<Rightarrow> 'k list \<Rightarrow> bool" where
  "range_order m ks \<longleftrightarrow> distinct ks \<and> set ks = dom m"

lemma map_get_None [simp]: "m k = None \<Longrightarrow> map_get z m k = z"
  by (simp add: map_get_def)

lemma map_get_Some [simp]: "m k = Some v \<Longrightarrow> map_get z m k = v"
  by (simp add: map_get_def)

lemma range_order_distinct: "range_order m ks \<Longrightarrow> distinct ks"
  by (simp add: range_order_def)

lemma range_order_set: "range_order m ks \<Longrightarrow> set ks = dom m"
  by (simp add: range_order_def)

lemma range_order_mem: "range_order m ks \<Longrightarrow> k \<in> set ks \<longleftrightarrow> (\<exists>v. m k = Some v)"
  by (auto simp: range_order_def)

lemma range_order_exists: "finite (dom m) \<Longrightarrow> \<exists>ks. range_order m ks"
  using finite_distinct_list [of "dom m"] by (auto simp: range_order_def)

lemma range_order_empty [simp]: "range_order Map.empty ks \<longleftrightarrow> ks = []"
  by (auto simp: range_order_def)

text \<open>Entering a list of entries one by one: the last entry of a key wins.\<close>

lemma fold_upd_notin:
  "k \<notin> f ` set xs \<Longrightarrow> fold (\<lambda>x m. m(f x \<mapsto> g x)) xs m k = m k"
  by (induction xs arbitrary: m) auto

lemma fold_upd_dom:
  "dom (fold (\<lambda>x m. m(f x \<mapsto> g x)) xs m) = f ` set xs \<union> dom m"
  by (induction xs arbitrary: m) auto

lemma fold_upd_mem:
  "fold (\<lambda>x m. m(f x \<mapsto> g x)) xs m k = Some v \<Longrightarrow>
     (\<exists>x\<in>set xs. f x = k \<and> g x = v) \<or> m k = Some v"
proof (induction xs arbitrary: m)
  case Nil
  then show ?case by simp
next
  case (Cons x xs)
  then have "fold (\<lambda>x m. m(f x \<mapsto> g x)) xs (m(f x \<mapsto> g x)) k = Some v"
    by (simp del: fun_upd_apply)
  from Cons.IH [OF this] show ?case by (auto split: if_splits)
qed

lemma fold_upd_distinct:
  "distinct (map f xs) \<Longrightarrow> x \<in> set xs \<Longrightarrow> fold (\<lambda>x m. m(f x \<mapsto> g x)) xs m (f x) = Some (g x)"
proof (induction xs arbitrary: m)
  case Nil
  then show ?case by simp
next
  case (Cons y ys)
  show ?case
  proof (cases "x = y")
    case True
    with Cons.prems have "f x \<notin> f ` set ys" by auto
    then have "fold (\<lambda>x m. m(f x \<mapsto> g x)) ys (m(f x \<mapsto> g x)) (f x) = (m(f x \<mapsto> g x)) (f x)"
      by (rule fold_upd_notin)
    with True show ?thesis by (simp del: fun_upd_apply) simp
  next
    case False
    with Cons show ?thesis by simp
  qed
qed

text \<open>
  A \<^verbatim>\<open>range\<close> loop that looks at one entry at a time and changes or deletes only that entry
  gives the same map in every order: each entry is replaced by what \<open>f\<close> makes of it.
\<close>

definition range_update :: "('k \<Rightarrow> 'v \<Rightarrow> 'v option) \<Rightarrow> ('k \<rightharpoonup> 'v) \<Rightarrow> ('k \<rightharpoonup> 'v)" where
  "range_update f m = (\<lambda>k. case m k of None \<Rightarrow> None | Some v \<Rightarrow> f k v)"

definition visit_entry :: "('k \<Rightarrow> 'v \<Rightarrow> 'v option) \<Rightarrow> 'k \<Rightarrow> ('k \<rightharpoonup> 'v) \<Rightarrow> ('k \<rightharpoonup> 'v)" where
  "visit_entry f k m = m(k := (case m k of None \<Rightarrow> None | Some v \<Rightarrow> f k v))"

lemma fold_visit_entry:
  "distinct ks \<Longrightarrow>
     fold (visit_entry f) ks m = (\<lambda>k. if k \<in> set ks then range_update f m k else m k)"
proof (induction ks arbitrary: m)
  case Nil
  then show ?case by simp
next
  case (Cons k ks)
  then show ?case by (auto simp: fun_eq_iff range_update_def visit_entry_def)
qed

lemma range_loop_eq_update:
  assumes "range_order m ks"
  shows "fold (visit_entry f) ks m = range_update f m"
proof -
  have "m k = None" if "k \<notin> set ks" for k
    using assms that by (auto simp: range_order_def)
  then show ?thesis
    using fold_visit_entry [OF range_order_distinct [OF assms], of f m]
    by (auto simp: fun_eq_iff range_update_def)
qed

lemma range_update_None [simp]: "m k = None \<Longrightarrow> range_update f m k = None"
  by (simp add: range_update_def)

lemma range_update_Some [simp]: "m k = Some v \<Longrightarrow> range_update f m k = f k v"
  by (simp add: range_update_def)

end
