(* ===== verification/Conf.thy ===== *)
theory Conf
  imports Go_Strings
begin

text \<open>
  The configuration file, \<^verbatim>\<open>internal/conf/conf.go\<close>: its data, the defaults, and the
  engine's name.  Opening the file and viper's reading and unmarshalling are arguments of
  \<open>LoadFromPath\<close>: \<open>unmarshal\<close> overwrites the fields the file sets.
\<close>

record LogConfig =
  lc_Level :: string
  lc_Output :: string

record NodeConfig =
  nc_APIHost :: string
  nc_NodeID :: int
  nc_Key :: string
  nc_Timeout :: int
  nc_RetryCount :: "int option"

record RuntimeConfig =
  rc_Engine :: string
  rc_CaddyPath :: string
  rc_WorkingDir :: string
  rc_AdminPortBase :: int

record Conf =
  cf_LogConfig :: LogConfig
  cf_RuntimeConfig :: RuntimeConfig
  cf_NodeConfigs :: "NodeConfig list"

definition DefaultNodeRetryCount :: int where
  "DefaultNodeRetryCount = 1"

definition DefaultNodeTimeout :: int where
  "DefaultNodeTimeout = 15"

definition EngineLegacy :: string where
  "EngineLegacy = ''legacy''"

definition EngineCaddy :: string where
  "EngineCaddy = ''caddy''"

definition default_runtime :: RuntimeConfig where
  "default_runtime =
     \<lparr>rc_Engine = EngineLegacy, rc_CaddyPath = ''/opt/v2naive/caddy'',
      rc_WorkingDir = ''/var/lib/v2naive'', rc_AdminPortBase = 22019\<rparr>"

definition conf_New :: Conf where
  "conf_New =
     \<lparr>cf_LogConfig = \<lparr>lc_Level = ''info'', lc_Output = []\<rparr>, cf_RuntimeConfig = default_runtime,
      cf_NodeConfigs = []\<rparr>"

definition EngineName :: "RuntimeConfig \<Rightarrow> string" where
  "EngineName c =
     (let engine = TrimSpace (ToLower (rc_Engine c)) in if engine = [] then EngineLegacy else engine)"

definition runtime_normalize :: "RuntimeConfig \<Rightarrow> RuntimeConfig" where
  "runtime_normalize c =
     \<lparr>rc_Engine = (if rc_Engine c = [] then EngineLegacy else rc_Engine c),
      rc_CaddyPath = (if rc_CaddyPath c = [] then ''/opt/v2naive/caddy'' else rc_CaddyPath c),
      rc_WorkingDir = (if rc_WorkingDir c = [] then ''/var/lib/v2naive'' else rc_WorkingDir c),
      rc_AdminPortBase = (if rc_AdminPortBase c = 0 then 22019 else rc_AdminPortBase c)\<rparr>"

definition default_retry :: "NodeConfig \<Rightarrow> NodeConfig" where
  "default_retry n =
     (case nc_RetryCount n of
        None \<Rightarrow> n\<lparr>nc_RetryCount := Some DefaultNodeRetryCount\<rparr>
      | Some _ \<Rightarrow> n)"

definition LoadFromPath ::
  "string option \<Rightarrow> string option \<Rightarrow> (Conf \<Rightarrow> string + Conf) \<Rightarrow> Conf \<Rightarrow> string + Conf" where
  "LoadFromPath open_err read_err unmarshal c =
     (case open_err of
        Some err \<Rightarrow> Inl (''open config file error: '' @ err)
      | None \<Rightarrow>
          (case read_err of
             Some err \<Rightarrow> Inl (''read config file error: '' @ err)
           | None \<Rightarrow>
               (case unmarshal c of
                  Inl err \<Rightarrow> Inl (''unmarshal config error: '' @ err)
                | Inr c1 \<Rightarrow>
                    Inr (c1\<lparr>cf_NodeConfigs := map default_retry (cf_NodeConfigs c1),
                            cf_RuntimeConfig := runtime_normalize (cf_RuntimeConfig c1)\<rparr>))))"

lemma runtime_normalize_idem [simp]:
  "runtime_normalize (runtime_normalize c) = runtime_normalize c"
  by (simp add: runtime_normalize_def EngineLegacy_def)

lemma runtime_normalize_default [simp]: "runtime_normalize default_runtime = default_runtime"
  by (simp add: runtime_normalize_def default_runtime_def EngineLegacy_def)

end
