(* ===== verification/Panel.thy ===== *)
theory Panel
  imports Go_Strings Conf
begin

text \<open>
  The panel client, \<^verbatim>\<open>internal/panel/client.go\<close>: the data exchanged with the
  panel, the normalisation of a node's configuration, the conditional requests with
  their ETags and body hash, and the aggregation of traffic reports.

  HTTP itself (the resty client), SHA-256 and the JSON and MessagePack decoders are
  arguments: \<open>get\<close> and \<open>post\<close> give the reply to a request, \<open>sha256hex\<close> and
  \<open>decode\<close> are the library calls made on its body.
\<close>

section \<open>Data\<close>

record UserInfo =
  ui_Id :: int
  ui_Uuid :: string
  ui_SpeedLimit :: int
  ui_DeviceLimit :: int

record UserTraffic =
  ut_UID :: int
  ut_Upload :: int
  ut_Download :: int
  ut_UUID :: string

record OnlineUser =
  ou_UID :: int
  ou_IP :: string

record BaseConfig =
  bc_PushInterval :: int
  bc_PullInterval :: int
  bc_DeviceOnlineMinTraffic :: int
  bc_NodeReportMinTraffic :: int

record TlsSettings =
  tls_ServerName :: string
  tls_ServerNames :: "string list"
  tls_CertMode :: string
  tls_CertFile :: string
  tls_KeyFile :: string
  tls_Provider :: string
  tls_DNSEnv :: string
  tls_RejectUnknownSni :: int
  tls_AllowInsecure :: int

record CertInfo =
  ci_CertMode :: string
  ci_CertFile :: string
  ci_KeyFile :: string
  ci_Email :: string
  ci_CertDomain :: string
  ci_DNSEnv :: "string \<rightharpoonup> string"
  ci_Provider :: string
  ci_RejectUnknownSni :: bool

record NodeInfo =
  ni_Id :: int
  ni_Tag :: string
  ni_Protocol :: string
  ni_Host :: string
  ni_ListenIP :: string
  ni_ServerPort :: int
  ni_TLS :: int
  ni_TLSSettings :: TlsSettings
  ni_BaseConfig :: BaseConfig
  ni_CertInfo :: "CertInfo option"
  ni_PushInterval :: int
  ni_PullInterval :: int

text \<open>
  The two TLS switches may be numbers, booleans or strings in the panel's JSON; what the
  JSON decoder makes of the field is a \<open>json_scalar\<close>.
\<close>

datatype json_scalar =
  JMissing | JNull | JInt int | JBool bool | JString string | JOther

definition parseFlexibleInt :: "json_scalar \<Rightarrow> int" where
  "parseFlexibleInt data =
     (case data of
        JMissing \<Rightarrow> 0
      | JNull \<Rightarrow> 0
      | JInt intValue \<Rightarrow> intValue
      | JBool boolValue \<Rightarrow> if boolValue then 1 else 0
      | JString stringValue \<Rightarrow>
          if ToLower (TrimSpace stringValue) \<in> {''1'', ''true'', ''yes'', ''on''} then 1 else 0
      | JOther \<Rightarrow> 0)"

text \<open>\<^verbatim>\<open>UnmarshalJSON\<close>: the text fields are taken over, the switches converted.\<close>

definition TlsSettings_Unmarshal ::
  "string \<Rightarrow> string list \<Rightarrow> string \<Rightarrow> string \<Rightarrow> string \<Rightarrow> string \<Rightarrow> string \<Rightarrow> json_scalar \<Rightarrow> json_scalar \<Rightarrow>
     TlsSettings" where
  "TlsSettings_Unmarshal serverName serverNames certMode certFile keyFile provider dnsEnv reject insecure =
     \<lparr>tls_ServerName = serverName, tls_ServerNames = serverNames, tls_CertMode = certMode,
      tls_CertFile = certFile, tls_KeyFile = keyFile, tls_Provider = provider, tls_DNSEnv = dnsEnv,
      tls_RejectUnknownSni = parseFlexibleInt reject, tls_AllowInsecure = parseFlexibleInt insecure\<rparr>"

text \<open>The zero value of \<^verbatim>\<open>UserInfo\<close>, read from a map at a missing key.\<close>

definition zero_user :: UserInfo where
  "zero_user = \<lparr>ui_Id = 0, ui_Uuid = [], ui_SpeedLimit = 0, ui_DeviceLimit = 0\<rparr>"

section \<open>Errors\<close>

text \<open>
  The error values the callers tell apart: the two context errors, a status error, and
  any other error by its text.  \<open>Wrapped\<close> is \<^verbatim>\<open>fmt.Errorf\<close> with \<^verbatim>\<open>%w\<close>, through which
  \<^verbatim>\<open>errors.Is\<close> and \<^verbatim>\<open>errors.As\<close> look.
\<close>

datatype panel_error =
    Canceled
  | DeadlineExceeded
  | StatusError int string
  | OtherError string
  | Wrapped string panel_error

fun is_ctx_error :: "panel_error \<Rightarrow> bool" where
  "is_ctx_error Canceled = True"
| "is_ctx_error DeadlineExceeded = True"
| "is_ctx_error (StatusError _ _) = False"
| "is_ctx_error (OtherError _) = False"
| "is_ctx_error (Wrapped _ e) = is_ctx_error e"

fun IsAuthStatusError :: "panel_error \<Rightarrow> bool" where
  "IsAuthStatusError (StatusError code _) = (code = 401 \<or> code = 403)"
| "IsAuthStatusError (Wrapped _ e) = IsAuthStatusError e"
| "IsAuthStatusError Canceled = False"
| "IsAuthStatusError DeadlineExceeded = False"
| "IsAuthStatusError (OtherError _) = False"

definition shortResponseBody :: "string \<Rightarrow> string" where
  "shortResponseBody body =
     (let text = TrimSpace body in if length text > 256 then take 256 text else text)"

section \<open>Normalisation of a node\<close>

definition EffectiveServerNames :: "TlsSettings \<Rightarrow> string list" where
  "EffectiveServerNames t =
     (if length (tls_ServerNames t) > 0 then tls_ServerNames t
      else if tls_ServerName t = [] then []
      else [tls_ServerName t])"

definition PrimaryServerName :: "TlsSettings \<Rightarrow> string" where
  "PrimaryServerName t =
     (case EffectiveServerNames t of [] \<Rightarrow> [] | name # _ \<Rightarrow> name)"

definition DefaultCertFile :: string where
  "DefaultCertFile = ''/etc/v2naive/fullchain.cer''"

definition DefaultKeyFile :: string where
  "DefaultKeyFile = ''/etc/v2naive/cert.key''"

text \<open>One pair \<^verbatim>\<open>key=value\<close> of the comma-separated DNS environment.\<close>

definition dns_pair :: "string \<Rightarrow> (string \<rightharpoonup> string) \<Rightarrow> (string \<rightharpoonup> string)" where
  "dns_pair pair env =
     (case split2 (CHR ''='') pair of None \<Rightarrow> env | Some (k, v) \<Rightarrow> env(k \<mapsto> v))"

definition buildCertInfo :: "NodeInfo \<Rightarrow> CertInfo" where
  "buildCertInfo cfg =
     (let tls = ni_TLSSettings cfg;
          certFile = (if tls_CertFile tls = [] then DefaultCertFile else tls_CertFile tls);
          keyFile = (if tls_KeyFile tls = [] then DefaultKeyFile else tls_KeyFile tls);
          dnsEnv = (if tls_DNSEnv tls \<noteq> []
                    then fold dns_pair (split_char (CHR '','') (tls_DNSEnv tls)) Map.empty
                    else Map.empty);
          certDomain = (if PrimaryServerName tls = [] then ni_Host cfg else PrimaryServerName tls)
      in \<lparr>ci_CertMode = tls_CertMode tls, ci_CertFile = certFile, ci_KeyFile = keyFile,
          ci_Email = ''node@v2board.com'', ci_CertDomain = certDomain, ci_DNSEnv = dnsEnv,
          ci_Provider = tls_Provider tls,
          ci_RejectUnknownSni = (tls_RejectUnknownSni tls = 1)\<rparr>)"

text \<open>Durations are nanoseconds in 64 bits.\<close>

definition seconds :: "int \<Rightarrow> int" where
  "seconds n = wrap64 (n * 1000000000)"

definition minute :: int where
  "minute = 60000000000"

definition normal_interval :: "int \<Rightarrow> int \<Rightarrow> int" where
  "normal_interval configured current =
     (if configured > 0 then seconds configured
      else if current \<le> 0 then minute
      else current)"

definition Normalize :: "int \<Rightarrow> string \<Rightarrow> NodeInfo \<Rightarrow> panel_error + NodeInfo" where
  "Normalize nodeID apiHost cfg =
     (if ni_Protocol cfg \<noteq> ''naive''
      then Inl (OtherError (''unsupported protocol: '' @ ni_Protocol cfg))
      else
        let cfg1 = cfg\<lparr>ni_Id := nodeID,
                       ni_Tag := ''['' @ apiHost @ '']-naive:'' @ Itoa nodeID,
                       ni_PushInterval :=
                         normal_interval (bc_PushInterval (ni_BaseConfig cfg)) (ni_PushInterval cfg),
                       ni_PullInterval :=
                         normal_interval (bc_PullInterval (ni_BaseConfig cfg)) (ni_PullInterval cfg)\<rparr>
        in Inr (cfg1\<lparr>ni_CertInfo := Some (buildCertInfo cfg1)\<rparr>))"

section \<open>Requests\<close>

datatype reply =
    TransportError panel_error
  | NoResponse
  | Reply (reply_status: int) (reply_etag: string) (reply_ctype: string) (reply_body: string)

definition checkResponseStatus :: "int \<Rightarrow> string \<Rightarrow> panel_error option" where
  "checkResponseStatus status body =
     (if status < 400 then None else Some (StatusError status (shortResponseBody body)))"

text \<open>\<^verbatim>\<open>checkResponseStatus\<close> as it ends a POST: the transport error first.\<close>

definition post_result :: "reply \<Rightarrow> panel_error option" where
  "post_result r =
     (case r of
        TransportError e \<Rightarrow> Some e
      | NoResponse \<Rightarrow> Some (OtherError ''received nil response'')
      | Reply status _ _ body \<Rightarrow> checkResponseStatus status body)"

record Client =
  cl_RetryCount :: int
  cl_Timeout :: int
  cl_APIHost :: string
  cl_Token :: string
  cl_NodeID :: int
  cl_nodeEtag :: string
  cl_userEtag :: string
  cl_responseBodyHash :: string

text \<open>\<^verbatim>\<open>panel.New\<close>: what the HTTP client is set up with is part of the record.\<close>

definition panel_New :: "NodeConfig \<Rightarrow> Client" where
  "panel_New c =
     \<lparr>cl_RetryCount = (case nc_RetryCount c of None \<Rightarrow> DefaultNodeRetryCount | Some n \<Rightarrow> n),
      cl_Timeout = (if nc_Timeout c > 0 then seconds (nc_Timeout c) else seconds DefaultNodeTimeout),
      cl_APIHost = nc_APIHost c, cl_Token = nc_Key c, cl_NodeID = nc_NodeID c,
      cl_nodeEtag = [], cl_userEtag = [], cl_responseBodyHash = []\<rparr>"

definition strip_quotes :: "string \<Rightarrow> string" where
  "strip_quotes s =
     rev (dropWhile (\<lambda>c. c = CHR 0x22) (rev (dropWhile (\<lambda>c. c = CHR 0x22) s)))"

definition GetNodeInfo ::
  "(string \<Rightarrow> string) \<Rightarrow> (string \<Rightarrow> string + NodeInfo) \<Rightarrow> (string \<Rightarrow> reply) \<Rightarrow> Client \<Rightarrow>
     (panel_error + NodeInfo option) \<times> Client" where
  "GetNodeInfo sha256hex decode get c =
     (case get (cl_nodeEtag c) of
        TransportError e \<Rightarrow> (Inl e, c)
      | NoResponse \<Rightarrow> (Inl (OtherError ''received nil response''), c)
      | Reply status etag _ body \<Rightarrow>
          if status = 304 then (Inr None, c)
          else (case checkResponseStatus status body of
             Some e \<Rightarrow> (Inl e, c)
           | None \<Rightarrow>
               let newBodyHash = sha256hex body in
               if cl_responseBodyHash c = newBodyHash then (Inr None, c)
               else
                 let c1 = c\<lparr>cl_responseBodyHash := newBodyHash, cl_nodeEtag := strip_quotes etag\<rparr> in
                 (case decode body of
                    Inl msg \<Rightarrow> (Inl (Wrapped ''decode node params error: '' (OtherError msg)), c1)
                  | Inr cfg \<Rightarrow>
                      (case Normalize (cl_NodeID c) (cl_APIHost c) cfg of
                         Inl e \<Rightarrow> (Inl e, c1)
                       | Inr cfg1 \<Rightarrow> (Inr (Some cfg1), c1)))))"

text \<open>
  The user list: \<open>None\<close> is Go's nil slice, which the callers tell from an empty list.
\<close>

definition GetUserList ::
  "(string \<Rightarrow> string + UserInfo list option) \<Rightarrow> (string \<Rightarrow> string + UserInfo list option) \<Rightarrow>
     (string \<Rightarrow> reply) \<Rightarrow> Client \<Rightarrow> (panel_error + UserInfo list option) \<times> Client" where
  "GetUserList decode_msgpack decode_json get c =
     (case get (cl_userEtag c) of
        TransportError e \<Rightarrow> (Inl e, c)
      | NoResponse \<Rightarrow> (Inl (OtherError ''received nil response or raw response''), c)
      | Reply status etag ctype body \<Rightarrow>
          if status = 304 then (Inr None, c)
          else (case checkResponseStatus status [] of
             Some e \<Rightarrow> (Inl e, c)
           | None \<Rightarrow>
               (case (if Contains ctype ''application/x-msgpack'' then decode_msgpack body
                      else decode_json body) of
                  Inl msg \<Rightarrow> (Inl (Wrapped ''decode user list error: '' (OtherError msg)), c)
                | Inr users \<Rightarrow> (Inr users, c\<lparr>cl_userEtag := etag\<rparr>))))"

definition GetUserAlive ::
  "(string \<Rightarrow> string + (int \<rightharpoonup> int) option) \<Rightarrow> reply \<Rightarrow> panel_error + (int \<rightharpoonup> int)" where
  "GetUserAlive decode r =
     (case r of
        TransportError e \<Rightarrow> if is_ctx_error e then Inl e else Inr Map.empty
      | NoResponse \<Rightarrow> Inr Map.empty
      | Reply status _ _ body \<Rightarrow>
          if status \<ge> 399 then Inr Map.empty
          else (case decode body of
             Inl _ \<Rightarrow> Inr Map.empty
           | Inr None \<Rightarrow> Inr Map.empty
           | Inr (Some alive) \<Rightarrow> Inr alive))"

section \<open>Traffic reports\<close>

definition add_traffic :: "UserTraffic \<Rightarrow> (int \<rightharpoonup> int \<times> int) \<Rightarrow> (int \<rightharpoonup> int \<times> int)" where
  "add_traffic t data =
     (let (u, d) = map_get (0, 0) data (ut_UID t) in
      data(ut_UID t \<mapsto> (wrap64 (u + ut_Upload t), wrap64 (d + ut_Download t))))"

text \<open>The body of the push request: upload and download per user id.\<close>

definition report_body :: "UserTraffic list \<Rightarrow> (int \<rightharpoonup> int \<times> int)" where
  "report_body userTraffic = fold add_traffic userTraffic Map.empty"

definition ReportUserTraffic ::
  "((int \<rightharpoonup> int \<times> int) \<Rightarrow> reply) \<Rightarrow> UserTraffic list \<Rightarrow> panel_error option" where
  "ReportUserTraffic post userTraffic = post_result (post (report_body userTraffic))"

definition ReportNodeOnlineUsers ::
  "((int \<rightharpoonup> string list) \<Rightarrow> reply) \<Rightarrow> (int \<rightharpoonup> string list) \<Rightarrow> panel_error option" where
  "ReportNodeOnlineUsers post data = post_result (post data)"

section \<open>Lemmas\<close>

definition upload_of :: "int \<Rightarrow> UserTraffic list \<Rightarrow> int" where
  "upload_of uid ts = sum_list (map ut_Upload (filter (\<lambda>t. ut_UID t = uid) ts))"

definition download_of :: "int \<Rightarrow> UserTraffic list \<Rightarrow> int" where
  "download_of uid ts = sum_list (map ut_Download (filter (\<lambda>t. ut_UID t = uid) ts))"

lemma add_traffic_get:
  "map_get (0, 0) (add_traffic t m) uid =
     (if uid = ut_UID t
      then (wrap64 (fst (map_get (0, 0) m uid) + ut_Upload t),
            wrap64 (snd (map_get (0, 0) m uid) + ut_Download t))
      else map_get (0, 0) m uid)"
  by (simp add: add_traffic_def map_get_def split: prod.split)

lemma fold_add_traffic_dom: "dom (fold add_traffic ts m) = ut_UID ` set ts \<union> dom m"
  by (induction ts arbitrary: m) (auto simp: add_traffic_def split: prod.split)

lemma fold_add_traffic_get:
  assumes "in64 (fst (map_get (0, 0) m uid))" and "in64 (snd (map_get (0, 0) m uid))"
  shows "map_get (0, 0) (fold add_traffic ts m) uid =
     (wrap64 (fst (map_get (0, 0) m uid) + upload_of uid ts),
      wrap64 (snd (map_get (0, 0) m uid) + download_of uid ts))"
  using assms
proof (induction ts arbitrary: m)
  case Nil
  then show ?case by (simp add: upload_of_def download_of_def wrap64_id prod_eq_iff)
next
  case (Cons t ts)
  have "in64 (fst (map_get (0, 0) (add_traffic t m) uid))"
    and "in64 (snd (map_get (0, 0) (add_traffic t m) uid))"
    using Cons.prems by (simp_all add: add_traffic_get)
  from Cons.IH [OF this] show ?case
    by (auto simp: add_traffic_get upload_of_def download_of_def add.assoc)
qed

lemma Normalize_Inr:
  "Normalize nodeID apiHost cfg = Inr cfg1 \<Longrightarrow>
     ni_Protocol cfg1 = ''naive'' \<and> ni_Id cfg1 = nodeID \<and> ni_CertInfo cfg1 \<noteq> None"
  by (auto simp: Normalize_def Let_def split: if_splits)

lemma normal_interval_idem:
  "normal_interval b (normal_interval b c) = normal_interval b c"
  by (simp add: normal_interval_def minute_def)

lemma normal_interval_pos: "b \<le> 9223372036 \<Longrightarrow> 0 < normal_interval b c"
  by (simp add: normal_interval_def minute_def seconds_def wrap64_id in64_def)

lemma buildCertInfo_cong:
  "ni_TLSSettings a = ni_TLSSettings b \<Longrightarrow> ni_Host a = ni_Host b \<Longrightarrow> buildCertInfo a = buildCertInfo b"
  by (simp add: buildCertInfo_def Let_def)

lemma Normalize_eq:
  "Normalize nodeID apiHost cfg = Inr cfg1 \<longleftrightarrow>
     ni_Protocol cfg = ''naive'' \<and>
     cfg1 = cfg\<lparr>ni_Id := nodeID, ni_Tag := ''['' @ apiHost @ '']-naive:'' @ Itoa nodeID,
       ni_PushInterval := normal_interval (bc_PushInterval (ni_BaseConfig cfg)) (ni_PushInterval cfg),
       ni_PullInterval := normal_interval (bc_PullInterval (ni_BaseConfig cfg)) (ni_PullInterval cfg),
       ni_CertInfo := Some (buildCertInfo cfg)\<rparr>"
proof -
  have "buildCertInfo (cfg\<lparr>ni_Id := i, ni_Tag := t, ni_PushInterval := p, ni_PullInterval := q\<rparr>) =
      buildCertInfo cfg" for i t p q
    by (rule buildCertInfo_cong) simp_all
  then show ?thesis by (auto simp: Normalize_def Let_def)
qed

lemma Normalize_idem:
  assumes "Normalize nodeID apiHost cfg = Inr cfg1"
  shows "Normalize nodeID apiHost cfg1 = Inr cfg1"
proof -
  have "buildCertInfo cfg1 = buildCertInfo cfg"
    using assms by (intro buildCertInfo_cong) (auto simp: Normalize_eq)
  with assms show ?thesis by (simp add: Normalize_eq normal_interval_idem)
qed

section \<open>Properties\<close>

definition sample_tls :: TlsSettings where
  "sample_tls =
     \<lparr>tls_ServerName = ''edge.example'', tls_ServerNames = [], tls_CertMode = ''dns'',
      tls_CertFile = [], tls_KeyFile = [], tls_Provider = ''cf'',
      tls_DNSEnv = ''CF_KEY=a=b,bad,CF_MAIL=x'', tls_RejectUnknownSni = 1, tls_AllowInsecure = 0\<rparr>"

definition sample_node :: NodeInfo where
  "sample_node =
     \<lparr>ni_Id = 0, ni_Tag = [], ni_Protocol = ''naive'', ni_Host = ''edge.example'',
      ni_ListenIP = ''0.0.0.0'', ni_ServerPort = 443, ni_TLS = 1, ni_TLSSettings = sample_tls,
      ni_BaseConfig = \<lparr>bc_PushInterval = 15, bc_PullInterval = 0,
        bc_DeviceOnlineMinTraffic = 100, bc_NodeReportMinTraffic = 0\<rparr>,
      ni_CertInfo = None, ni_PushInterval = 0, ni_PullInterval = 0\<rparr>"

text \<open>
  Normalising a node twice changes nothing: the second pass over a configuration, which
  saving and reloading the panel cache performs, keeps every field, so a node restored
  from the cache runs with the intervals and certificate paths it was saved with.
\<close>

theorem normalize_idempotent:
  assumes "Normalize nodeID apiHost cfg = Inr cfg1"
  shows "Normalize nodeID apiHost cfg1 = Inr cfg1"
  using assms by (rule Normalize_idem)

theorem normalize_idempotent_witness:
  "\<exists>cfg1. Normalize 42 ''h'' sample_node = Inr cfg1 \<and> Normalize 42 ''h'' cfg1 = Inr cfg1"
proof -
  obtain cfg1 where n: "Normalize 42 ''h'' sample_node = Inr cfg1"
    by (simp add: Normalize_def Let_def sample_node_def)
  from n normalize_idempotent [OF n] show ?thesis by blast
qed

text \<open>
  A normalised node has positive push and pull intervals as long as the panel's values
  in seconds fit a 64-bit duration, so the periodic tasks never spin.
\<close>

theorem normalize_intervals_positive:
  assumes "Normalize nodeID apiHost cfg = Inr cfg1"
    and "bc_PushInterval (ni_BaseConfig cfg) \<le> 9223372036"
    and "bc_PullInterval (ni_BaseConfig cfg) \<le> 9223372036"
  shows "0 < ni_PushInterval cfg1 \<and> 0 < ni_PullInterval cfg1"
  using assms by (auto simp: Normalize_def Let_def normal_interval_pos split: if_splits)

theorem normalize_intervals_positive_witness:
  "\<exists>cfg1. Normalize 42 ''h'' sample_node = Inr cfg1 \<and> 0 < ni_PushInterval cfg1 \<and> 0 < ni_PullInterval cfg1"
proof -
  obtain cfg1 where n: "Normalize 42 ''h'' sample_node = Inr cfg1"
    by (simp add: Normalize_def Let_def sample_node_def)
  from n normalize_intervals_positive [OF n] show ?thesis by (simp add: sample_node_def)
qed

text \<open>
  The push request bills each user id for exactly the sum of its entries: the body has
  an entry for the ids that occur and no other, and each entry is the (64-bit) sum of the
  uploads and downloads listed under that id.
\<close>

theorem report_body_sums:
  "report_body ts uid =
     (if uid \<in> ut_UID ` set ts then Some (wrap64 (upload_of uid ts), wrap64 (download_of uid ts))
      else None)"
proof (cases "uid \<in> ut_UID ` set ts")
  case True
  then have "uid \<in> dom (report_body ts)"
    by (simp add: report_body_def fold_add_traffic_dom)
  moreover have "map_get (0, 0) (report_body ts) uid =
      (wrap64 (upload_of uid ts), wrap64 (download_of uid ts))"
    unfolding report_body_def by (subst fold_add_traffic_get) simp_all
  ultimately show ?thesis using True by auto
next
  case False
  then have "uid \<notin> dom (report_body ts)"
    by (simp add: report_body_def fold_add_traffic_dom)
  with False show ?thesis by (auto simp: domIff)
qed

text \<open>
  A body the panel has already sent is not acted on again: once GetNodeInfo has seen a
  body (even one it could not decode or that failed the protocol check), a later reply
  with the same body is "no change", whatever its ETag, and leaves the client as it is.
\<close>

theorem get_node_info_same_body:
  assumes "get (cl_nodeEtag c) = Reply st etag ct body" and "st \<noteq> 304" and "st < 400"
    and "get' (cl_nodeEtag c1) = Reply st' etag' ct' body" and "st' < 400"
    and "GetNodeInfo sha256hex decode get c = (r, c1)"
  shows "GetNodeInfo sha256hex decode get' c1 = (Inr None, c1)"
proof -
  have "cl_responseBodyHash c1 = sha256hex body"
    using assms(1-3,6)
    by (auto simp: GetNodeInfo_def checkResponseStatus_def Let_def split: sum.splits if_splits)
  then show ?thesis
    using assms(4,5) by (simp add: GetNodeInfo_def checkResponseStatus_def Let_def)
qed

definition sample_conf :: NodeConfig where
  "sample_conf =
     \<lparr>nc_APIHost = ''h'', nc_NodeID = 1, nc_Key = ''k'', nc_Timeout = 15, nc_RetryCount = None\<rparr>"

theorem get_node_info_same_body_witness:
  "GetNodeInfo id (\<lambda>_. Inl ''bad'') (\<lambda>_. Reply 200 ''e2'' [] ''x'')
     (snd (GetNodeInfo id (\<lambda>_. Inl ''bad'') (\<lambda>_. Reply 200 ''e1'' [] ''x'') (panel_New sample_conf))) =
   (Inr None, snd (GetNodeInfo id (\<lambda>_. Inl ''bad'') (\<lambda>_. Reply 200 ''e1'' [] ''x'') (panel_New sample_conf)))"
  by (rule get_node_info_same_body
        [where get = "\<lambda>_. Reply 200 ''e1'' [] ''x''" and st = 200 and st' = 200 and body = "''x''"
           and c = "panel_New sample_conf"])
     (simp_all add: prod_eq_iff)

end
