(* ===== verification/Limiter.thy ===== *)
theory Limiter
  imports Panel
begin

text \<open>
  The device and speed limiter, \<^verbatim>\<open>internal/limiter/limiter.go\<close>.  Its \<^verbatim>\<open>sync.Map\<close>s
  are maps, its methods functions on the state.  A rate-limiting bucket of the
  \<^verbatim>\<open>juju/ratelimit\<close> package is known only by the call that made it: which allocation
  it was and at which rate (bytes per second), so that sharing a bucket is visible.
\<close>

section \<open>State\<close>

datatype bucket = NewBucketWithQuantum (bucket_no: nat) (bucket_rate: int)

record UserLimitInfo =
  li_UID :: int
  li_SpeedLimit :: int
  li_DeviceLimit :: int
  li_DynamicSpeedLimit :: int
  li_ExpireTime :: int

record Limiter =
  NodeSpeedLimit :: int
  AliveList :: "int \<rightharpoonup> int"
  UserOnlineIP :: "string \<rightharpoonup> (string \<rightharpoonup> int)"
  OldUserOnline :: "string \<rightharpoonup> int"
  LimitInfo :: "string \<rightharpoonup> UserLimitInfo"
  SpeedLimiter :: "string \<rightharpoonup> bucket"
  next_bucket :: nat

section \<open>Operations\<close>

definition new_info :: "UserInfo \<Rightarrow> UserLimitInfo" where
  "new_info user =
     \<lparr>li_UID = ui_Id user, li_SpeedLimit = ui_SpeedLimit user,
      li_DeviceLimit = ui_DeviceLimit user, li_DynamicSpeedLimit = 0, li_ExpireTime = 0\<rparr>"

definition store_info :: "UserInfo \<Rightarrow> Limiter \<Rightarrow> Limiter" where
  "store_info user l = l\<lparr>LimitInfo := (LimitInfo l)(ui_Uuid user \<mapsto> new_info user)\<rparr>"

definition New :: "UserInfo list \<Rightarrow> (int \<rightharpoonup> int) \<Rightarrow> Limiter" where
  "New users aliveList =
     fold store_info users
       \<lparr>NodeSpeedLimit = 0, AliveList = aliveList, UserOnlineIP = Map.empty,
        OldUserOnline = Map.empty, LimitInfo = Map.empty, SpeedLimiter = Map.empty,
        next_bucket = 0\<rparr>"

definition SetAliveList :: "(int \<rightharpoonup> int) \<Rightarrow> Limiter \<Rightarrow> Limiter" where
  "SetAliveList alive l = l\<lparr>AliveList := alive\<rparr>"

definition determineSpeedLimit :: "int \<Rightarrow> int \<Rightarrow> int" where
  "determineSpeedLimit limit1 limit2 =
     (if limit1 = 0 \<or> limit2 = 0 then
        (if limit1 > limit2 then limit1 else if limit1 < limit2 then limit2 else 0)
      else if limit1 > limit2 then limit2
      else if limit1 < limit2 then limit1
      else limit1)"

text \<open>Megabits per second to bytes per second, in 64 bits.\<close>

definition bytes_per_second :: "int \<Rightarrow> int" where
  "bytes_per_second speedLimit = go_quot (wrap64 (speedLimit * 1000000)) 8"

text \<open>\<^verbatim>\<open>NewDynamicBucket\<close> and \<^verbatim>\<open>DynamicBucket.Update\<close>: a fresh bucket under the uuid.\<close>

definition fresh_bucket :: "string \<Rightarrow> int \<Rightarrow> Limiter \<Rightarrow> bucket \<times> Limiter" where
  "fresh_bucket uuid rate l =
     (let b = NewBucketWithQuantum (next_bucket l) rate in
      (b, l\<lparr>SpeedLimiter := (SpeedLimiter l)(uuid \<mapsto> b), next_bucket := Suc (next_bucket l)\<rparr>))"

definition updateBucket :: "string \<Rightarrow> int \<Rightarrow> Limiter \<Rightarrow> Limiter" where
  "updateBucket uuid speedLimit l =
     (let limit = bytes_per_second speedLimit in
      if limit \<le> 0 then l\<lparr>SpeedLimiter := (SpeedLimiter l)(uuid := None)\<rparr>
      else snd (fresh_bucket uuid limit l))"

definition delete_user :: "UserInfo \<Rightarrow> Limiter \<Rightarrow> Limiter" where
  "delete_user user l =
     l\<lparr>LimitInfo := (LimitInfo l)(ui_Uuid user := None),
       UserOnlineIP := (UserOnlineIP l)(ui_Uuid user := None),
       SpeedLimiter := (SpeedLimiter l)(ui_Uuid user := None),
       AliveList := (AliveList l)(ui_Id user := None)\<rparr>"

definition modify_user :: "UserInfo \<Rightarrow> Limiter \<Rightarrow> Limiter" where
  "modify_user user l =
     (case LimitInfo l (ui_Uuid user) of
        None \<Rightarrow> l
      | Some info \<Rightarrow>
          let info1 = info\<lparr>li_SpeedLimit := ui_SpeedLimit user, li_DeviceLimit := ui_DeviceLimit user\<rparr>
          in updateBucket (ui_Uuid user) (determineSpeedLimit (NodeSpeedLimit l) (ui_SpeedLimit user))
               (l\<lparr>LimitInfo := (LimitInfo l)(ui_Uuid user \<mapsto> info1)\<rparr>))"

definition add_user :: "UserInfo \<Rightarrow> Limiter \<Rightarrow> Limiter" where
  "add_user user l =
     updateBucket (ui_Uuid user) (determineSpeedLimit (NodeSpeedLimit l) (ui_SpeedLimit user))
       (store_info user l)"

definition UpdateUsers ::
  "UserInfo list \<Rightarrow> UserInfo list \<Rightarrow> UserInfo list \<Rightarrow> Limiter \<Rightarrow> Limiter" where
  "UpdateUsers added deleted modified l =
     fold add_user added (fold modify_user modified (fold delete_user deleted l))"

definition aliveCount :: "int \<Rightarrow> Limiter \<Rightarrow> int" where
  "aliveCount uid l = map_get 0 (AliveList l) uid"

text \<open>An IPv4 address mapped into IPv6 is recorded in its IPv4 form.\<close>

definition plain_ip :: "string \<Rightarrow> string" where
  "plain_ip ip = TrimPrefix ip ''::ffff:''"

text \<open>
  \<^verbatim>\<open>admit\<close>: \<open>None\<close> is the rejection.  The address is entered for the user first
  and taken out again when the device limit refuses it.
\<close>

definition admit :: "string \<Rightarrow> string \<Rightarrow> Limiter \<Rightarrow> UserLimitInfo option \<times> Limiter" where
  "admit uuid ip0 l =
     (let ip = plain_ip ip0 in
      case LimitInfo l uuid of
        None \<Rightarrow> (None, l)
      | Some info \<Rightarrow>
          let deviceLimit = li_DeviceLimit info;
              aliveIP = aliveCount (li_UID info) l
          in (case UserOnlineIP l uuid of
             Some oldMap \<Rightarrow>
               (case oldMap ip of
                  Some _ \<Rightarrow> (Some info, l)
                | None \<Rightarrow>
                    let newMap = oldMap(ip \<mapsto> li_UID info);
                        l1 = l\<lparr>UserOnlineIP := (UserOnlineIP l)(uuid \<mapsto> newMap)\<rparr>
                    in (case OldUserOnline l1 ip of
                          Some cachedUID \<Rightarrow>
                            (Some info,
                             if cachedUID = li_UID info
                             then l1\<lparr>OldUserOnline := (OldUserOnline l1)(ip := None)\<rparr> else l1)
                        | None \<Rightarrow>
                            if deviceLimit > 0 \<and> deviceLimit \<le> aliveIP
                            then (None, l1\<lparr>UserOnlineIP := (UserOnlineIP l1)(uuid \<mapsto> newMap(ip := None))\<rparr>)
                            else (Some info, l1)))
           | None \<Rightarrow>
               let l1 = l\<lparr>UserOnlineIP := (UserOnlineIP l)(uuid \<mapsto> [ip \<mapsto> li_UID info])\<rparr>
               in (case OldUserOnline l1 ip of
                     Some cachedUID \<Rightarrow>
                       (Some info,
                        if cachedUID = li_UID info
                        then l1\<lparr>OldUserOnline := (OldUserOnline l1)(ip := None)\<rparr> else l1)
                   | None \<Rightarrow>
                       if deviceLimit > 0 \<and> deviceLimit \<le> aliveIP
                       then (None, l1\<lparr>UserOnlineIP := (UserOnlineIP l1)(uuid := None)\<rparr>)
                       else (Some info, l1))))"

text \<open>\<^verbatim>\<open>Authorize\<close>: the speed limit and whether the connection is rejected.\<close>

definition Authorize :: "string \<Rightarrow> string \<Rightarrow> Limiter \<Rightarrow> (int \<times> bool) \<times> Limiter" where
  "Authorize uuid ip l =
     (case admit uuid ip l of
        (None, l1) \<Rightarrow> ((0, True), l1)
      | (Some info, l1) \<Rightarrow> ((determineSpeedLimit (NodeSpeedLimit l1) (li_SpeedLimit info), False), l1))"

definition CheckLimit :: "string \<Rightarrow> string \<Rightarrow> Limiter \<Rightarrow> (bucket option \<times> bool) \<times> Limiter" where
  "CheckLimit uuid ip0 l =
     (let ip = plain_ip ip0 in
      case Authorize uuid ip l of
        ((speedLimit, reject), l1) \<Rightarrow>
          if reject then ((None, True), l1)
          else if speedLimit \<le> 0 then ((None, False), l1)
          else (case SpeedLimiter l1 uuid of
             Some b \<Rightarrow> ((Some b, False), l1)
           | None \<Rightarrow>
               let (b, l2) = fresh_bucket uuid (bytes_per_second speedLimit) l1
               in ((Some b, False), l2)))"

definition UserID :: "string \<Rightarrow> Limiter \<Rightarrow> int" where
  "UserID uuid l = (case LimitInfo l uuid of None \<Rightarrow> 0 | Some info \<Rightarrow> li_UID info)"

text \<open>\<^verbatim>\<open>ReleaseIP\<close>: the address leaves the user's set, and an emptied set goes too.\<close>

definition release_online :: "string \<Rightarrow> string \<Rightarrow> Limiter \<Rightarrow> Limiter" where
  "release_online uuid ip l =
     (case UserOnlineIP l uuid of
        None \<Rightarrow> l
      | Some ipMap \<Rightarrow>
          let ipMap1 = ipMap(ip := None)
          in l\<lparr>UserOnlineIP := (UserOnlineIP l)(uuid := if ipMap1 = Map.empty then None else Some ipMap1)\<rparr>)"

definition release_old :: "string \<Rightarrow> string \<Rightarrow> Limiter \<Rightarrow> Limiter" where
  "release_old uuid ip l =
     (case OldUserOnline l ip of
        None \<Rightarrow> l
      | Some cachedUID \<Rightarrow>
          (case LimitInfo l uuid of
             None \<Rightarrow> l
           | Some info \<Rightarrow>
               if cachedUID = li_UID info
               then l\<lparr>OldUserOnline := (OldUserOnline l)(ip := None)\<rparr> else l))"

definition ReleaseIP :: "string \<Rightarrow> string \<Rightarrow> Limiter \<Rightarrow> Limiter" where
  "ReleaseIP uuid ip0 l = (let ip = plain_ip ip0 in release_old uuid ip (release_online uuid ip l))"

text \<open>
  \<^verbatim>\<open>GetOnlineDevice\<close>: the addresses seen since the last call become the old ones.
  \<open>ks\<close> and \<open>ips\<close> are the orders of the outer and inner \<^verbatim>\<open>Range\<close>.
\<close>

definition online_of_user ::
  "(string \<rightharpoonup> int) \<Rightarrow> string list \<Rightarrow> OnlineUser list" where
  "online_of_user ipMap ipo =
     map (\<lambda>ip. \<lparr>ou_UID = map_get 0 ipMap ip, ou_IP = ip\<rparr>) ipo"

definition store_old :: "OnlineUser \<Rightarrow> (string \<rightharpoonup> int) \<Rightarrow> (string \<rightharpoonup> int)" where
  "store_old u m = m(ou_IP u \<mapsto> ou_UID u)"

definition collect_user ::
  "(string \<Rightarrow> string list) \<Rightarrow> string \<Rightarrow> OnlineUser list \<times> Limiter \<Rightarrow> OnlineUser list \<times> Limiter" where
  "collect_user ips key ul =
     (case ul of (users, l) \<Rightarrow>
        case UserOnlineIP l key of
          None \<Rightarrow> (users, l)
        | Some ipMap \<Rightarrow>
            let found = online_of_user ipMap (ips key)
            in (users @ found,
                l\<lparr>OldUserOnline := fold store_old found (OldUserOnline l),
                  UserOnlineIP := (UserOnlineIP l)(key := None)\<rparr>))"

definition GetOnlineDevice ::
  "string list \<Rightarrow> (string \<Rightarrow> string list) \<Rightarrow> Limiter \<Rightarrow> OnlineUser list \<times> Limiter" where
  "GetOnlineDevice ks ips l = fold (collect_user ips) ks ([], l\<lparr>OldUserOnline := Map.empty\<rparr>)"

section \<open>The admission decision\<close>

definition online :: "Limiter \<Rightarrow> string \<Rightarrow> string \<Rightarrow> int option" where
  "online l uuid ip = Option.bind (UserOnlineIP l uuid) (\<lambda>m. m ip)"

definition over_limit :: "UserLimitInfo \<Rightarrow> Limiter \<Rightarrow> bool" where
  "over_limit info l \<longleftrightarrow> 0 < li_DeviceLimit info \<and> li_DeviceLimit info \<le> aliveCount (li_UID info) l"

lemma online_None: "UserOnlineIP l uuid = None \<Longrightarrow> online l uuid ip = None"
  by (simp add: online_def)

lemma online_Some: "UserOnlineIP l uuid = Some m \<Longrightarrow> online l uuid ip = m ip"
  by (simp add: online_def)

lemma admit_unknown: "LimitInfo l uuid = None \<Longrightarrow> admit uuid ip l = (None, l)"
  by (simp add: admit_def)

lemma admit_seen:
  "LimitInfo l uuid = Some info \<Longrightarrow> online l uuid (plain_ip ip) = Some n \<Longrightarrow>
     admit uuid ip l = (Some info, l)"
  by (auto simp: admit_def online_def Let_def split: Option.bind_splits)

definition enter_ip :: "string \<Rightarrow> string \<Rightarrow> int \<Rightarrow> Limiter \<Rightarrow> Limiter" where
  "enter_ip uuid ip uid l =
     l\<lparr>UserOnlineIP :=
         (UserOnlineIP l)(uuid \<mapsto> (map_get Map.empty (UserOnlineIP l) uuid)(ip \<mapsto> uid))\<rparr>"

lemma admit_old:
  "LimitInfo l uuid = Some info \<Longrightarrow> online l uuid (plain_ip ip) = None \<Longrightarrow>
     OldUserOnline l (plain_ip ip) = Some cached \<Longrightarrow>
     admit uuid ip l =
       (Some info,
        let l1 = enter_ip uuid (plain_ip ip) (li_UID info) l in
        if cached = li_UID info then l1\<lparr>OldUserOnline := (OldUserOnline l)(plain_ip ip := None)\<rparr> else l1)"
  by (cases "UserOnlineIP l uuid") (auto simp: admit_def online_def enter_ip_def Let_def)

lemma admit_new:
  "LimitInfo l uuid = Some info \<Longrightarrow> online l uuid (plain_ip ip) = None \<Longrightarrow>
     OldUserOnline l (plain_ip ip) = None \<Longrightarrow> \<not> over_limit info l \<Longrightarrow>
     admit uuid ip l = (Some info, enter_ip uuid (plain_ip ip) (li_UID info) l)"
  by (cases "UserOnlineIP l uuid")
     (auto simp: admit_def online_def enter_ip_def over_limit_def aliveCount_def Let_def)

lemma admit_over:
  "LimitInfo l uuid = Some info \<Longrightarrow> online l uuid (plain_ip ip) = None \<Longrightarrow>
     OldUserOnline l (plain_ip ip) = None \<Longrightarrow> over_limit info l \<Longrightarrow>
     admit uuid ip l = (None, l)"
  by (cases "UserOnlineIP l uuid")
     (auto simp: admit_def online_def over_limit_def aliveCount_def Let_def
        fun_upd_idem map_upd_triv)

text \<open>The five branches of \<^verbatim>\<open>admit\<close>, for case analysis.\<close>

lemma admit_cases:
  obtains (unknown) "LimitInfo l uuid = None" "admit uuid ip l = (None, l)"
  | (seen) info n where "LimitInfo l uuid = Some info" "online l uuid (plain_ip ip) = Some n"
      "admit uuid ip l = (Some info, l)"
  | (old) info cached where "LimitInfo l uuid = Some info" "online l uuid (plain_ip ip) = None"
      "OldUserOnline l (plain_ip ip) = Some cached"
      "admit uuid ip l =
         (Some info,
          let l1 = enter_ip uuid (plain_ip ip) (li_UID info) l in
          if cached = li_UID info then l1\<lparr>OldUserOnline := (OldUserOnline l)(plain_ip ip := None)\<rparr>
          else l1)"
  | (new) info where "LimitInfo l uuid = Some info" "online l uuid (plain_ip ip) = None"
      "OldUserOnline l (plain_ip ip) = None" "\<not> over_limit info l"
      "admit uuid ip l = (Some info, enter_ip uuid (plain_ip ip) (li_UID info) l)"
  | (over) info where "LimitInfo l uuid = Some info" "online l uuid (plain_ip ip) = None"
      "OldUserOnline l (plain_ip ip) = None" "over_limit info l" "admit uuid ip l = (None, l)"
proof (cases "LimitInfo l uuid")
  case None
  show ?thesis by (rule unknown [OF None admit_unknown [OF None]])
next
  case info: (Some info)
  show ?thesis
  proof (cases "online l uuid (plain_ip ip)")
    case on: None
    show ?thesis
    proof (cases "OldUserOnline l (plain_ip ip)")
      case None
      show ?thesis
        using new [OF info on None _ admit_new [OF info on None]]
          over [OF info on None _ admit_over [OF info on None]]
        by blast
    next
      case (Some cached)
      show ?thesis by (rule old [OF info on Some admit_old [OF info on Some]])
    qed
  next
    case (Some n)
    show ?thesis by (rule seen [OF info Some admit_seen [OF info Some]])
  qed
qed

lemma enter_ip_sel [simp]:
  "LimitInfo (enter_ip uuid ip uid l) = LimitInfo l"
  "NodeSpeedLimit (enter_ip uuid ip uid l) = NodeSpeedLimit l"
  "AliveList (enter_ip uuid ip uid l) = AliveList l"
  "SpeedLimiter (enter_ip uuid ip uid l) = SpeedLimiter l"
  "next_bucket (enter_ip uuid ip uid l) = next_bucket l"
  "OldUserOnline (enter_ip uuid ip uid l) = OldUserOnline l"
  by (simp_all add: enter_ip_def)

lemma online_enter_ip:
  "online (enter_ip uuid ip uid l) u i = (if u = uuid \<and> i = ip then Some uid else online l u i)"
  by (cases "UserOnlineIP l uuid") (auto simp: online_def enter_ip_def)

lemma online_frame [simp]:
  "online (l\<lparr>OldUserOnline := x\<rparr>) u i = online l u i"
  "online (l\<lparr>AliveList := a\<rparr>) u i = online l u i"
  "online (l\<lparr>SpeedLimiter := b\<rparr>) u i = online l u i"
  "online (l\<lparr>next_bucket := n\<rparr>) u i = online l u i"
  "online (l\<lparr>LimitInfo := f\<rparr>) u i = online l u i"
  by (simp_all add: online_def)

lemma admit_LimitInfo [simp]: "LimitInfo (snd (admit uuid ip l)) = LimitInfo l"
  by (rule admit_cases [of l uuid ip]) (auto simp: Let_def)

lemma admit_frame [simp]:
  "NodeSpeedLimit (snd (admit uuid ip l)) = NodeSpeedLimit l"
  "AliveList (snd (admit uuid ip l)) = AliveList l"
  "SpeedLimiter (snd (admit uuid ip l)) = SpeedLimiter l"
  "next_bucket (snd (admit uuid ip l)) = next_bucket l"
  by (rule admit_cases [of l uuid ip]; simp add: Let_def)+

lemma admit_decision:
  "fst (admit uuid ip l) =
     (case LimitInfo l uuid of
        None \<Rightarrow> None
      | Some info \<Rightarrow>
          if online l uuid (plain_ip ip) = None \<and> OldUserOnline l (plain_ip ip) = None \<and> over_limit info l
          then None else Some info)"
  by (rule admit_cases [of l uuid ip]) auto

lemma admit_reject_state: "admit uuid ip l = (None, l1) \<Longrightarrow> l1 = l"
  by (rule admit_cases [of l uuid ip]) auto

lemma admit_registers:
  "admit uuid ip l = (Some info, l1) \<Longrightarrow>
     LimitInfo l uuid = Some info \<and> online l1 uuid (plain_ip ip) \<noteq> None"
  by (rule admit_cases [of l uuid ip]) (auto simp: Let_def online_enter_ip split: if_splits)

lemma Authorize_fst:
  "fst (Authorize uuid ip l) =
     (case fst (admit uuid ip l) of
        None \<Rightarrow> (0, True)
      | Some info \<Rightarrow> (determineSpeedLimit (NodeSpeedLimit l) (li_SpeedLimit info), False))"
  using admit_frame(1) [of uuid ip l]
  by (auto simp: Authorize_def simp del: admit_frame split: prod.splits option.splits)

lemma Authorize_snd [simp]: "snd (Authorize uuid ip l) = snd (admit uuid ip l)"
  by (auto simp: Authorize_def split: prod.splits option.splits)

section \<open>The invariant\<close>

text \<open>
  \<open>online_ok\<close>: addresses are kept for known users only, and no user keeps an empty set.
  \<open>buckets_ok\<close>: a bucket belongs to a known user, runs at the speed configured for that
  user, was allocated before, and is not shared with another user.
\<close>

definition online_ok :: "Limiter \<Rightarrow> bool" where
  "online_ok l \<longleftrightarrow>
     (\<forall>uuid m. UserOnlineIP l uuid = Some m \<longrightarrow> m \<noteq> Map.empty \<and> LimitInfo l uuid \<noteq> None)"

definition user_speed :: "Limiter \<Rightarrow> UserLimitInfo \<Rightarrow> int" where
  "user_speed l info = determineSpeedLimit (NodeSpeedLimit l) (li_SpeedLimit info)"

definition buckets_ok :: "Limiter \<Rightarrow> bool" where
  "buckets_ok l \<longleftrightarrow>
     (\<forall>uuid b. SpeedLimiter l uuid = Some b \<longrightarrow>
        bucket_no b < next_bucket l \<and>
        (\<exists>info. LimitInfo l uuid = Some info \<and> bucket_rate b = bytes_per_second (user_speed l info)) \<and>
        (\<forall>uuid' b'. SpeedLimiter l uuid' = Some b' \<and> bucket_no b' = bucket_no b \<longrightarrow> uuid' = uuid))"

definition limiter_ok :: "Limiter \<Rightarrow> bool" where
  "limiter_ok l \<longleftrightarrow> online_ok l \<and> buckets_ok l"

lemma online_okI:
  "(\<And>uuid m. UserOnlineIP l uuid = Some m \<Longrightarrow> m \<noteq> Map.empty \<and> LimitInfo l uuid \<noteq> None) \<Longrightarrow> online_ok l"
  by (auto simp: online_ok_def)

lemma online_okD:
  "online_ok l \<Longrightarrow> UserOnlineIP l uuid = Some m \<Longrightarrow> m \<noteq> Map.empty \<and> LimitInfo l uuid \<noteq> None"
  by (auto simp: online_ok_def)

lemma buckets_ok_rate:
  assumes "buckets_ok l" and "SpeedLimiter l uuid = Some b" and "LimitInfo l uuid = Some info"
  shows "bucket_rate b = bytes_per_second (user_speed l info)"
proof -
  from assms(1,2) obtain info' where "LimitInfo l uuid = Some info'"
    and "bucket_rate b = bytes_per_second (user_speed l info')"
    unfolding buckets_ok_def by blast
  with assms(3) show ?thesis by simp
qed

lemma fresh_bucket_sel [simp]:
  "fst (fresh_bucket uuid rate l) = NewBucketWithQuantum (next_bucket l) rate"
  "SpeedLimiter (snd (fresh_bucket uuid rate l)) =
     (SpeedLimiter l)(uuid \<mapsto> NewBucketWithQuantum (next_bucket l) rate)"
  "next_bucket (snd (fresh_bucket uuid rate l)) = Suc (next_bucket l)"
  "LimitInfo (snd (fresh_bucket uuid rate l)) = LimitInfo l"
  "UserOnlineIP (snd (fresh_bucket uuid rate l)) = UserOnlineIP l"
  "OldUserOnline (snd (fresh_bucket uuid rate l)) = OldUserOnline l"
  "NodeSpeedLimit (snd (fresh_bucket uuid rate l)) = NodeSpeedLimit l"
  "AliveList (snd (fresh_bucket uuid rate l)) = AliveList l"
  by (simp_all add: fresh_bucket_def Let_def)

lemma updateBucket_sel [simp]:
  "LimitInfo (updateBucket uuid sp l) = LimitInfo l"
  "UserOnlineIP (updateBucket uuid sp l) = UserOnlineIP l"
  "OldUserOnline (updateBucket uuid sp l) = OldUserOnline l"
  "NodeSpeedLimit (updateBucket uuid sp l) = NodeSpeedLimit l"
  "AliveList (updateBucket uuid sp l) = AliveList l"
  by (simp_all add: updateBucket_def Let_def)

lemma buckets_ok_drop: "buckets_ok l \<Longrightarrow> buckets_ok (l\<lparr>SpeedLimiter := (SpeedLimiter l)(uuid := None)\<rparr>)"
  by (auto simp: buckets_ok_def user_speed_def)

lemma buckets_ok_fresh:
  assumes "buckets_ok (l\<lparr>SpeedLimiter := (SpeedLimiter l)(uuid := None)\<rparr>)"
    and "LimitInfo l uuid = Some info" and "rate = bytes_per_second (user_speed l info)"
  shows "buckets_ok (snd (fresh_bucket uuid rate l))"
  using assms by (force simp: buckets_ok_def user_speed_def split: if_splits)

lemma buckets_ok_updateBucket:
  assumes "buckets_ok (l\<lparr>SpeedLimiter := (SpeedLimiter l)(uuid := None)\<rparr>)"
    and "LimitInfo l uuid = Some info" and "sp = user_speed l info"
  shows "buckets_ok (updateBucket uuid sp l)"
  using assms buckets_ok_fresh [OF assms(1,2)] by (auto simp: updateBucket_def Let_def)

text \<open>What the user updates do to each field.\<close>

lemma delete_user_ok: "limiter_ok l \<Longrightarrow> limiter_ok (delete_user user l)"
  by (auto simp: limiter_ok_def online_ok_def buckets_ok_def delete_user_def user_speed_def
      split: if_splits)

text \<open>Storing a user's limits and then setting the bucket, as both callers do.\<close>

lemma set_speed_ok:
  assumes "limiter_ok l" and "sp = user_speed l info"
  shows "limiter_ok (updateBucket uuid sp (l\<lparr>LimitInfo := (LimitInfo l)(uuid \<mapsto> info)\<rparr>))"
proof -
  let ?l = "l\<lparr>LimitInfo := (LimitInfo l)(uuid \<mapsto> info)\<rparr>"
  have "buckets_ok (?l\<lparr>SpeedLimiter := (SpeedLimiter ?l)(uuid := None)\<rparr>)"
    using assms by (auto simp: limiter_ok_def buckets_ok_def user_speed_def)
  then have "buckets_ok (updateBucket uuid sp ?l)"
    by (rule buckets_ok_updateBucket) (simp_all add: assms user_speed_def)
  moreover have "online_ok (updateBucket uuid sp ?l)"
    using assms by (auto simp: limiter_ok_def online_ok_def)
  ultimately show ?thesis by (simp add: limiter_ok_def)
qed

lemma modify_user_ok: "limiter_ok l \<Longrightarrow> limiter_ok (modify_user user l)"
  unfolding modify_user_def
  by (auto simp: Let_def user_speed_def intro!: set_speed_ok split: option.split)

lemma add_user_ok: "limiter_ok l \<Longrightarrow> limiter_ok (add_user user l)"
  unfolding add_user_def store_info_def
  by (rule set_speed_ok) (simp_all add: user_speed_def new_info_def)

lemma fold_invariant: "(\<And>x s. P s \<Longrightarrow> P (f x s)) \<Longrightarrow> P s \<Longrightarrow> P (fold f xs s)"
  by (induction xs arbitrary: s) auto

lemma UpdateUsers_ok: "limiter_ok l \<Longrightarrow> limiter_ok (UpdateUsers added deleted modified l)"
  unfolding UpdateUsers_def
  by (intro fold_invariant [where P = limiter_ok]) (auto intro: delete_user_ok modify_user_ok add_user_ok)

lemma New_ok: "limiter_ok (New users alive)"
  unfolding New_def
proof (rule fold_invariant [where P = "\<lambda>l. UserOnlineIP l = Map.empty \<and> SpeedLimiter l = Map.empty \<and> limiter_ok l",
      THEN conjunct2, THEN conjunct2])
qed (auto simp: store_info_def limiter_ok_def online_ok_def buckets_ok_def)

lemma SetAliveList_ok: "limiter_ok l \<Longrightarrow> limiter_ok (SetAliveList alive l)"
  by (auto simp: SetAliveList_def limiter_ok_def online_ok_def buckets_ok_def user_speed_def)

lemma buckets_ok_cong:
  "buckets_ok l \<Longrightarrow> SpeedLimiter l' = SpeedLimiter l \<Longrightarrow> LimitInfo l' = LimitInfo l \<Longrightarrow>
     NodeSpeedLimit l' = NodeSpeedLimit l \<Longrightarrow> next_bucket l' = next_bucket l \<Longrightarrow> buckets_ok l'"
  by (simp add: buckets_ok_def user_speed_def)

lemma enter_ip_online_ok:
  "online_ok l \<Longrightarrow> LimitInfo l uuid \<noteq> None \<Longrightarrow> online_ok (enter_ip uuid ip uid l)"
  by (auto simp: online_ok_def enter_ip_def)

lemma admit_ok:
  assumes "limiter_ok l"
  shows "limiter_ok (snd (admit uuid ip l))"
proof -
  have "buckets_ok (snd (admit uuid ip l))"
    by (rule buckets_ok_cong [of l]) (use assms in \<open>simp_all add: limiter_ok_def\<close>)
  moreover have "online_ok (snd (admit uuid ip l))"
  proof (rule admit_cases [of l uuid ip])
    fix info cached
    assume "LimitInfo l uuid = Some info"
      and eq: "admit uuid ip l =
         (Some info,
          let l1 = enter_ip uuid (plain_ip ip) (li_UID info) l in
          if cached = li_UID info then l1\<lparr>OldUserOnline := (OldUserOnline l)(plain_ip ip := None)\<rparr>
          else l1)"
    then have "online_ok (enter_ip uuid (plain_ip ip) (li_UID info) l)"
      using assms by (auto simp: limiter_ok_def intro: enter_ip_online_ok)
    then show ?thesis by (simp add: eq Let_def online_ok_def)
  qed (use assms in \<open>auto simp: limiter_ok_def intro!: enter_ip_online_ok\<close>)
  ultimately show ?thesis by (simp add: limiter_ok_def)
qed

lemma CheckLimit_ok:
  assumes "limiter_ok l"
  shows "limiter_ok (snd (CheckLimit uuid ip l))"
proof -
  obtain sp reject l1 where au: "Authorize uuid (plain_ip ip) l = ((sp, reject), l1)"
    by (metis prod.exhaust)
  then have l1: "l1 = snd (admit uuid (plain_ip ip) l)"
    by (metis Authorize_snd snd_conv)
  have ok1: "limiter_ok l1" unfolding l1 by (rule admit_ok [OF assms])
  show ?thesis
  proof (cases "reject \<or> sp \<le> 0 \<or> SpeedLimiter l1 uuid \<noteq> None")
    case True
    with ok1 au show ?thesis by (auto simp: CheckLimit_def Let_def split: option.split)
  next
    case False
    with au obtain info where info: "LimitInfo l uuid = Some info"
      and sp: "sp = user_speed l info"
      using Authorize_fst [of uuid "plain_ip ip" l] admit_registers [of uuid "plain_ip ip" l]
      by (cases "admit uuid (plain_ip ip) l")
         (auto simp: user_speed_def split: option.splits)
    have "buckets_ok (l1\<lparr>SpeedLimiter := (SpeedLimiter l1)(uuid := None)\<rparr>)"
      using ok1 by (simp add: limiter_ok_def buckets_ok_drop)
    then have "buckets_ok (snd (fresh_bucket uuid (bytes_per_second sp) l1))"
      by (rule buckets_ok_fresh) (simp_all add: l1 info sp user_speed_def)
    moreover have "online_ok (snd (fresh_bucket uuid (bytes_per_second sp) l1))"
      using ok1 by (simp add: limiter_ok_def online_ok_def)
    ultimately show ?thesis
      using False au
      by (auto simp: CheckLimit_def Let_def fresh_bucket_def limiter_ok_def)
  qed
qed

lemma release_online_ok: "limiter_ok l \<Longrightarrow> limiter_ok (release_online uuid ip l)"
  by (auto simp: release_online_def Let_def limiter_ok_def online_ok_def
      intro: buckets_ok_cong split: option.split if_splits)

lemma release_old_ok: "limiter_ok l \<Longrightarrow> limiter_ok (release_old uuid ip l)"
  by (auto simp: release_old_def limiter_ok_def online_ok_def
      intro: buckets_ok_cong split: option.split)

lemma ReleaseIP_ok: "limiter_ok l \<Longrightarrow> limiter_ok (ReleaseIP uuid ip l)"
  by (simp add: ReleaseIP_def Let_def release_old_ok release_online_ok)

lemma collect_user_ok: "limiter_ok (snd ul) \<Longrightarrow> limiter_ok (snd (collect_user ips key ul))"
  by (auto simp: collect_user_def Let_def limiter_ok_def online_ok_def
      intro: buckets_ok_cong split: option.split prod.split if_splits)

lemma GetOnlineDevice_ok:
  assumes "limiter_ok l"
  shows "limiter_ok (snd (GetOnlineDevice ks ips l))"
proof -
  have "limiter_ok (l\<lparr>OldUserOnline := Map.empty\<rparr>)"
    using assms by (auto simp: limiter_ok_def online_ok_def intro: buckets_ok_cong)
  then show ?thesis
    unfolding GetOnlineDevice_def
    by (intro fold_invariant [where P = "\<lambda>ul. limiter_ok (snd ul)"]) (auto intro: collect_user_ok)
qed

text \<open>One call of a method of the limiter, as the servers make them.\<close>

inductive limiter_step :: "Limiter \<Rightarrow> Limiter \<Rightarrow> bool" where
  step_alive: "limiter_step l (SetAliveList alive l)"
| step_update: "limiter_step l (UpdateUsers added deleted modified l)"
| step_authorize: "limiter_step l (snd (Authorize uuid ip l))"
| step_check: "limiter_step l (snd (CheckLimit uuid ip l))"
| step_release: "limiter_step l (ReleaseIP uuid ip l)"
| step_collect: "limiter_step l (snd (GetOnlineDevice ks ips l))"

inductive limiter_reachable :: "Limiter \<Rightarrow> bool" where
  reach_new: "limiter_reachable (New users alive)"
| reach_step: "limiter_reachable l \<Longrightarrow> limiter_step l l1 \<Longrightarrow> limiter_reachable l1"

lemma limiter_step_ok: "limiter_step l l1 \<Longrightarrow> limiter_ok l \<Longrightarrow> limiter_ok l1"
  by (induction rule: limiter_step.induct)
     (auto intro: SetAliveList_ok UpdateUsers_ok admit_ok CheckLimit_ok ReleaseIP_ok GetOnlineDevice_ok)

lemma limiter_reachable_ok: "limiter_reachable l \<Longrightarrow> limiter_ok l"
  by (induction rule: limiter_reachable.induct) (auto intro: New_ok limiter_step_ok)

section \<open>Release and collection\<close>

lemma enter_release:
  assumes "online_ok l" and "online l uuid ip = None"
  shows "release_online uuid ip (enter_ip uuid ip uid l) = l"
proof (cases "UserOnlineIP l uuid")
  case None
  then show ?thesis
    by (simp add: release_online_def enter_ip_def Let_def fun_upd_idem)
next
  case (Some m)
  with assms have "m \<noteq> Map.empty" "m ip = None" by (auto simp: online_ok_def online_def)
  with Some show ?thesis
    by (simp add: release_online_def enter_ip_def Let_def fun_upd_idem)
qed

text \<open>The addresses on line, as pairs: what \<^verbatim>\<open>GetOnlineDevice\<close> has to report.\<close>

definition online_pairs :: "Limiter \<Rightarrow> (string \<times> string \<times> int) set" where
  "online_pairs l = {(uuid, ip, uid). online l uuid ip = Some uid}"

text \<open>The orders of the two nested loops.\<close>

definition online_order :: "Limiter \<Rightarrow> string list \<Rightarrow> (string \<Rightarrow> string list) \<Rightarrow> bool" where
  "online_order l ks ips \<longleftrightarrow>
     range_order (UserOnlineIP l) ks \<and>
     list_all (\<lambda>k. range_order (map_get Map.empty (UserOnlineIP l) k) (ips k)) ks"

lemma collect_user_Some:
  "UserOnlineIP l k = Some m \<Longrightarrow>
     collect_user ips k (us, l) =
       (us @ online_of_user m (ips k),
        l\<lparr>OldUserOnline := fold store_old (online_of_user m (ips k)) (OldUserOnline l),
          UserOnlineIP := (UserOnlineIP l)(k := None)\<rparr>)"
  by (simp add: collect_user_def Let_def)

lemma collect_fold:
  assumes "distinct ks" and "\<forall>k\<in>set ks. UserOnlineIP l k \<noteq> None"
  shows "fold (collect_user ips) ks (us, l) =
     (let found = concat (map (\<lambda>k. online_of_user (map_get Map.empty (UserOnlineIP l) k) (ips k)) ks) in
      (us @ found,
       l\<lparr>OldUserOnline := fold store_old found (OldUserOnline l),
         UserOnlineIP := (\<lambda>k. if k \<in> set ks then None else UserOnlineIP l k)\<rparr>))"
  using assms
proof (induction ks arbitrary: us l)
  case Nil
  then show ?case by (simp add: Let_def)
next
  case (Cons k ks)
  then obtain m where m: "UserOnlineIP l k = Some m" by auto
  let ?l1 = "snd (collect_user ips k (us, l))"
  have same: "UserOnlineIP ?l1 k' = UserOnlineIP l k'" if "k' \<in> set ks" for k'
    using that Cons.prems by (auto simp: collect_user_Some [OF m])
  have pre: "distinct ks" "\<forall>k\<in>set ks. UserOnlineIP ?l1 k \<noteq> None"
    using Cons.prems same by auto
  have found: "map (\<lambda>k. online_of_user (map_get Map.empty (UserOnlineIP ?l1) k) (ips k)) ks =
      map (\<lambda>k. online_of_user (map_get Map.empty (UserOnlineIP l) k) (ips k)) ks"
    by (rule map_cong) (simp_all add: map_get_def same)
  have step: "fold (collect_user ips) (k # ks) (us, l) =
      fold (collect_user ips) ks (us @ online_of_user m (ips k), ?l1)"
    by (simp add: collect_user_Some [OF m])
  have rest: "(\<lambda>k'. if k' \<in> set ks then None else UserOnlineIP ?l1 k') =
      (\<lambda>k'. if k' \<in> set (k # ks) then None else UserOnlineIP l k')"
    by (auto simp: collect_user_Some [OF m])
  have got: "map_get Map.empty (UserOnlineIP l) k = m" using m by simp
  show ?case
    unfolding step Cons.IH [OF pre] found rest
    by (simp add: Let_def collect_user_Some [OF m] got)
qed

lemma GetOnlineDevice_eq:
  assumes "online_order l ks ips"
  shows "GetOnlineDevice ks ips l =
     (let found = concat (map (\<lambda>k. online_of_user (map_get Map.empty (UserOnlineIP l) k) (ips k)) ks) in
      (found,
       l\<lparr>OldUserOnline := fold store_old found Map.empty,
         UserOnlineIP := Map.empty\<rparr>))"
proof -
  have pre: "distinct ks" "\<forall>k\<in>set ks. UserOnlineIP (l\<lparr>OldUserOnline := Map.empty\<rparr>) k \<noteq> None"
    and out: "k \<notin> set ks \<Longrightarrow> UserOnlineIP l k = None" for k
    using assms by (auto simp: online_order_def range_order_def)
  have rest: "(\<lambda>k. if k \<in> set ks then None
      else UserOnlineIP (l\<lparr>OldUserOnline := Map.empty\<rparr>) k) = Map.empty"
    using out by auto
  show ?thesis
    unfolding GetOnlineDevice_def collect_fold [OF pre] rest by (simp add: Let_def)
qed

definition found_pairs :: "Limiter \<Rightarrow> string list \<Rightarrow> (string \<Rightarrow> string list) \<Rightarrow> (string \<times> string \<times> int) list" where
  "found_pairs l ks ips =
     concat (map (\<lambda>k. map (\<lambda>ip. (k, ip, map_get 0 (map_get Map.empty (UserOnlineIP l) k) ip)) (ips k)) ks)"

definition report_of :: "string \<times> string \<times> int \<Rightarrow> OnlineUser" where
  "report_of = (\<lambda>(uuid, ip, uid). \<lparr>ou_UID = uid, ou_IP = ip\<rparr>)"

lemma found_pairs_report:
  "concat (map (\<lambda>k. online_of_user (map_get Map.empty (UserOnlineIP l) k) (ips k)) ks) =
     map report_of (found_pairs l ks ips)"
  by (induction ks) (simp_all add: found_pairs_def online_of_user_def report_of_def)

lemma online_orderD:
  assumes "online_order l ks ips"
  shows "distinct ks" and "set ks = dom (UserOnlineIP l)"
    and "UserOnlineIP l k = Some m \<Longrightarrow> distinct (ips k) \<and> set (ips k) = dom m"
proof -
  show "distinct ks" "set ks = dom (UserOnlineIP l)"
    using assms by (auto simp: online_order_def range_order_def)
  assume k: "UserOnlineIP l k = Some m"
  with assms have "k \<in> set ks" by (auto simp: online_order_def range_order_def)
  with assms have "range_order (map_get Map.empty (UserOnlineIP l) k) (ips k)"
    by (simp add: online_order_def list_all_iff)
  with k show "distinct (ips k) \<and> set (ips k) = dom m"
    by (simp add: range_order_def)
qed

lemma found_pairs_set:
  assumes "online_order l ks ips"
  shows "set (found_pairs l ks ips) = online_pairs l"
proof -
  note D = online_orderD [OF assms]
  have "(k, ip, uid) \<in> set (found_pairs l ks ips) \<longleftrightarrow> online l k ip = Some uid" for k ip uid
  proof (cases "UserOnlineIP l k")
    case None
    with D(2) have "k \<notin> set ks" by auto
    with None show ?thesis by (auto simp: found_pairs_def online_def)
  next
    case (Some m)
    with D have "k \<in> set ks" "set (ips k) = dom m" by auto
    then have "(k, ip, uid) \<in> set (found_pairs l ks ips) \<longleftrightarrow> ip \<in> dom m \<and> map_get 0 m ip = uid"
      using Some by (force simp: found_pairs_def)
    also have "\<dots> \<longleftrightarrow> m ip = Some uid" by auto
    finally show ?thesis using Some by (simp add: online_def)
  qed
  then show ?thesis by (auto simp: online_pairs_def)
qed

lemma found_pairs_distinct:
  assumes "online_order l ks ips"
  shows "distinct (found_pairs l ks ips)"
proof -
  note D = online_orderD [OF assms]
  have "distinct (found_pairs l ks' ips)" if "distinct ks'" "set ks' \<subseteq> set ks" for ks'
    using that
  proof (induction ks')
    case Nil
    then show ?case by (simp add: found_pairs_def)
  next
    case (Cons k ks')
    then have "distinct (ips k)" using D by fastforce
    then have "distinct (map (\<lambda>ip. (k, ip, map_get 0 (map_get Map.empty (UserOnlineIP l) k) ip)) (ips k))"
      by (auto simp: distinct_map intro: inj_onI)
    moreover have "k \<notin> fst ` set (found_pairs l ks' ips)"
      using Cons.prems by (auto simp: found_pairs_def)
    ultimately show ?case
      using Cons by (fastforce simp: found_pairs_def)
  qed
  then show ?thesis using D by simp
qed

lemma fold_store_old_dom: "dom (fold store_old us m) = ou_IP ` set us \<union> dom m"
  by (induction us arbitrary: m) (auto simp: store_old_def)

lemma determineSpeedLimit_tightest:
  "0 \<le> a \<Longrightarrow> 0 \<le> b \<Longrightarrow>
     determineSpeedLimit a b = (if a = 0 then b else if b = 0 then a else min a b)"
  by (auto simp: determineSpeedLimit_def)

lemma CheckLimit_accept:
  assumes "CheckLimit uuid ip l = ((r, False), l1)"
  obtains info where "LimitInfo l uuid = Some info"
    and "admit uuid (plain_ip ip) l = (Some info, snd (admit uuid (plain_ip ip) l))"
    and "user_speed l info \<le> 0 \<longrightarrow> r = None"
    and "0 < user_speed l info \<longrightarrow> (\<exists>b. r = Some b \<and> SpeedLimiter l1 uuid = Some b)"
    and "LimitInfo l1 = LimitInfo l" and "NodeSpeedLimit l1 = NodeSpeedLimit l"
proof (cases "admit uuid (plain_ip ip) l")
  case (Pair ri la)
  then show ?thesis
  proof (cases ri)
    case None
    with assms Pair show ?thesis by (simp add: CheckLimit_def Authorize_def Let_def)
  next
    case (Some info)
    have fr: "NodeSpeedLimit la = NodeSpeedLimit l" "LimitInfo la = LimitInfo l"
      using Pair admit_frame(1) [of uuid "plain_ip ip" l] admit_LimitInfo [of uuid "plain_ip ip" l]
      by simp_all
    have "LimitInfo l uuid = Some info"
      using Pair Some admit_registers by blast
    moreover have
      "(user_speed l info \<le> 0 \<longrightarrow> r = None) \<and>
       (0 < user_speed l info \<longrightarrow> (\<exists>b. r = Some b \<and> SpeedLimiter l1 uuid = Some b)) \<and>
       LimitInfo l1 = LimitInfo l \<and> NodeSpeedLimit l1 = NodeSpeedLimit l"
      using assms Pair Some fr
      by (auto simp: CheckLimit_def Authorize_def Let_def user_speed_def fresh_bucket_def
          split: option.splits if_splits dest: sym)
    ultimately show ?thesis
      using that [of info] Pair Some by simp
  qed
qed

section \<open>Properties\<close>

definition sample_user :: UserInfo where
  "sample_user = \<lparr>ui_Id = 7, ui_Uuid = ''u'', ui_SpeedLimit = 8, ui_DeviceLimit = 1\<rparr>"

lemmas limiter_eval =
  sample_user_def New_def store_info_def new_info_def SetAliveList_def Authorize_def admit_def
  plain_ip_def TrimPrefix_def HasPrefix_def aliveCount_def determineSpeedLimit_def ReleaseIP_def
  release_online_def release_old_def online_def

text \<open>
  C1. Authorize rejects exactly an unknown user, or a new address of a user whose device
  limit is reached: an address the user already has on line, or one remembered in
  OldUserOnline from the last collection, is never counted again.
\<close>

theorem authorize_rejects_iff:
  "snd (fst (Authorize uuid ip l)) \<longleftrightarrow>
     (case LimitInfo l uuid of
        None \<Rightarrow> True
      | Some info \<Rightarrow>
          online l uuid (plain_ip ip) = None \<and> OldUserOnline l (plain_ip ip) = None \<and>
          0 < li_DeviceLimit info \<and> li_DeviceLimit info \<le> aliveCount (li_UID info) l)"
  unfolding Authorize_fst admit_decision
  by (simp add: over_limit_def split: option.split)

text \<open>
  A rejected Authorize leaves no trace: the address entered while the request was
  examined is taken out again, and with it the user's set where it was new.
\<close>

theorem authorize_reject_unchanged:
  assumes "snd (fst (Authorize uuid ip l))"
  shows "snd (Authorize uuid ip l) = l"
proof (cases "admit uuid ip l")
  case (Pair r l1)
  with assms have "r = None" by (cases r) (simp_all add: Authorize_fst)
  with Pair show ?thesis using admit_reject_state by simp
qed

theorem authorize_reject_unchanged_witness:
  "snd (Authorize ''u'' ''2'' (SetAliveList [7 \<mapsto> 1] (New [sample_user] Map.empty))) =
     SetAliveList [7 \<mapsto> 1] (New [sample_user] Map.empty)"
  by (rule authorize_reject_unchanged) (simp add: limiter_eval)

text \<open>
  An admitted address stays admitted: asking again for the same user and address, as
  a tunnel does every 15 seconds, is granted with the same speed limit and changes
  nothing, whatever alive counts the panel has sent meanwhile.
\<close>

theorem authorize_admitted_stays:
  assumes "fst (Authorize uuid ip l) = (speed, False)"
  shows "Authorize uuid ip (SetAliveList alive (snd (Authorize uuid ip l))) =
     ((speed, False), SetAliveList alive (snd (Authorize uuid ip l)))"
proof (cases "admit uuid ip l")
  case (Pair r l1)
  with assms obtain info where r: "r = Some info"
    and sp: "speed = determineSpeedLimit (NodeSpeedLimit l) (li_SpeedLimit info)"
    by (cases r) (simp_all add: Authorize_fst)
  with Pair have "LimitInfo l1 uuid = Some info" "online l1 uuid (plain_ip ip) \<noteq> None"
    and "NodeSpeedLimit l1 = NodeSpeedLimit l"
    using admit_registers [of uuid ip l info l1] admit_LimitInfo [of uuid ip l]
      admit_frame(1) [of uuid ip l] by simp_all
  then have "admit uuid ip (SetAliveList alive l1) = (Some info, SetAliveList alive l1)"
    by (auto simp: SetAliveList_def admit_seen)
  with Pair sp \<open>NodeSpeedLimit l1 = NodeSpeedLimit l\<close> show ?thesis
    unfolding Authorize_snd by (simp add: Authorize_def SetAliveList_def)
qed

theorem authorize_admitted_stays_witness:
  "Authorize ''u'' ''1'' (SetAliveList [7 \<mapsto> 5] (snd (Authorize ''u'' ''1'' (New [sample_user] Map.empty)))) =
     ((8, False), SetAliveList [7 \<mapsto> 5] (snd (Authorize ''u'' ''1'' (New [sample_user] Map.empty))))"
  by (rule authorize_admitted_stays) (simp add: limiter_eval)

text \<open>
  Releasing an address undoes its admission exactly: after Authorize admits a new
  address and ReleaseIP gives it back, the limiter is in its former state, the user's set
  included (it disappears again if this address was its only one).
\<close>

theorem authorize_release_roundtrip:
  assumes "limiter_reachable l"
    and "fst (Authorize uuid ip l) = (speed, False)"
    and "online l uuid (plain_ip ip) = None" and "OldUserOnline l (plain_ip ip) = None"
  shows "ReleaseIP uuid ip (snd (Authorize uuid ip l)) = l"
proof (cases rule: admit_cases [of l uuid ip])
  case (new info)
  have "online_ok l" using limiter_reachable_ok [OF assms(1)] by (simp add: limiter_ok_def)
  then show ?thesis
    using new assms(3,4) by (simp add: ReleaseIP_def Let_def enter_release release_old_def)
qed (use assms in \<open>simp_all add: Authorize_fst\<close>)

theorem authorize_release_roundtrip_witness:
  "ReleaseIP ''u'' ''1'' (snd (Authorize ''u'' ''1'' (New [sample_user] Map.empty))) =
     New [sample_user] Map.empty"
  by (rule authorize_release_roundtrip [OF reach_new, where speed = 8]) (simp_all add: limiter_eval)

text \<open>
  C26. Whatever methods the servers call and in whatever order, the limiter keeps its
  invariant: addresses and buckets are held for known users only, no user has an empty
  address set, every bucket runs at its user's configured speed, and no two users share
  a bucket.
\<close>

theorem limiter_invariant:
  assumes "limiter_reachable l"
  shows "(UserOnlineIP l uuid = Some m \<longrightarrow> m \<noteq> Map.empty \<and> LimitInfo l uuid \<noteq> None) \<and>
     (SpeedLimiter l uuid = Some b \<longrightarrow>
        (\<exists>info. LimitInfo l uuid = Some info \<and> bucket_rate b = bytes_per_second (user_speed l info)) \<and>
        (SpeedLimiter l uuid' = Some b \<longrightarrow> uuid' = uuid))"
  using limiter_reachable_ok [OF assms]
  by (auto simp: limiter_ok_def online_ok_def buckets_ok_def)

theorem limiter_invariant_witness:
  "\<exists>l b. limiter_reachable l \<and> SpeedLimiter l ''u'' = Some b \<and>
     (\<exists>info. LimitInfo l ''u'' = Some info \<and> bucket_rate b = bytes_per_second (user_speed l info))"
proof -
  let ?l = "snd (CheckLimit ''u'' ''1'' (New [sample_user] Map.empty))"
  have r: "limiter_reachable ?l"
    by (rule reach_step [OF reach_new step_check])
  have b: "SpeedLimiter ?l ''u'' = Some (NewBucketWithQuantum 0 1000000)"
    by (simp add: CheckLimit_def limiter_eval fresh_bucket_def Let_def bytes_per_second_def
        wrap64_def go_quot_def)
  show ?thesis
    using limiter_invariant [OF r, of "''u''"] r b by blast
qed

text \<open>
  One bucket per user: connections of the same user from any addresses draw from the
  same bucket, which fills at the user's configured speed.
\<close>

theorem check_limit_shares_bucket:
  assumes "limiter_reachable l"
    and "CheckLimit uuid ip l = ((Some b, False), l1)"
    and "CheckLimit uuid ip' l1 = ((r, False), l2)"
  shows "r = Some b \<and>
     (\<exists>info. LimitInfo l uuid = Some info \<and> bucket_rate b = bytes_per_second (user_speed l info))"
proof -
  obtain info where info: "LimitInfo l uuid = Some info" "LimitInfo l1 = LimitInfo l"
      "NodeSpeedLimit l1 = NodeSpeedLimit l" and sp: "0 < user_speed l info"
    and b: "SpeedLimiter l1 uuid = Some b"
    using CheckLimit_accept [OF assms(2)] by (metis not_le option.distinct(1) option.inject)
  have ok: "limiter_ok l1"
    using CheckLimit_ok [OF limiter_reachable_ok [OF assms(1)], of uuid ip] assms(2) by simp
  obtain l3 where adm: "admit uuid (plain_ip ip') l1 = (Some info, l3)"
    by (rule CheckLimit_accept [OF assms(3)]) (use info in auto)
  have "SpeedLimiter l3 uuid = Some b" "NodeSpeedLimit l3 = NodeSpeedLimit l"
    using b info adm admit_frame(1,3) [of uuid "plain_ip ip'" l1] by simp_all
  then have "r = Some b"
    using assms(3) adm sp by (simp add: CheckLimit_def Authorize_def Let_def user_speed_def)
  moreover have "bucket_rate b = bytes_per_second (user_speed l1 info)"
    using ok b info by (auto simp: limiter_ok_def intro: buckets_ok_rate)
  ultimately show ?thesis using info by (simp add: user_speed_def)
qed

theorem check_limit_shares_bucket_witness:
  "\<exists>info. LimitInfo (New [sample_user] Map.empty) ''u'' = Some info \<and>
     1000000 = bytes_per_second (user_speed (New [sample_user] Map.empty) info)"
proof -
  let ?l = "New [sample_user] Map.empty"
  let ?b = "NewBucketWithQuantum 0 1000000"
  note eval = CheckLimit_def limiter_eval fresh_bucket_def Let_def bytes_per_second_def
    wrap64_def go_quot_def
  have 1: "CheckLimit ''u'' ''1'' ?l = ((Some ?b, False), snd (CheckLimit ''u'' ''1'' ?l))"
    by (simp add: eval)
  have 2: "CheckLimit ''u'' ''2'' (snd (CheckLimit ''u'' ''1'' ?l)) =
      ((Some ?b, False), snd (CheckLimit ''u'' ''2'' (snd (CheckLimit ''u'' ''1'' ?l))))"
    by (simp add: eval)
  show ?thesis
    using check_limit_shares_bucket [OF reach_new 1 2] by simp
qed

text \<open>
  GetOnlineDevice reports every user and address on line exactly once, in whatever
  order the maps are walked, empties the table, and remembers exactly those addresses.
\<close>

theorem get_online_device_exact:
  assumes "online_order l ks ips"
  shows "\<exists>ps. distinct ps \<and> set ps = online_pairs l \<and>
     fst (GetOnlineDevice ks ips l) = map report_of ps \<and>
     UserOnlineIP (snd (GetOnlineDevice ks ips l)) = Map.empty \<and>
     dom (OldUserOnline (snd (GetOnlineDevice ks ips l))) = {ip. \<exists>uuid. online l uuid ip \<noteq> None}"
proof (intro exI conjI)
  let ?ps = "found_pairs l ks ips"
  show "distinct ?ps" and ps: "set ?ps = online_pairs l"
    using assms by (simp_all add: found_pairs_distinct found_pairs_set)
  show "fst (GetOnlineDevice ks ips l) = map report_of ?ps"
    and "UserOnlineIP (snd (GetOnlineDevice ks ips l)) = Map.empty"
    by (simp_all add: GetOnlineDevice_eq [OF assms] Let_def found_pairs_report)
  show "dom (OldUserOnline (snd (GetOnlineDevice ks ips l))) = {ip. \<exists>uuid. online l uuid ip \<noteq> None}"
    using ps
    by (force simp: GetOnlineDevice_eq [OF assms] Let_def found_pairs_report fold_store_old_dom
        report_of_def online_pairs_def)
qed

theorem get_online_device_exact_witness:
  "\<exists>ps. distinct ps \<and> set ps = online_pairs (snd (Authorize ''u'' ''1'' (New [sample_user] Map.empty))) \<and>
     fst (GetOnlineDevice [''u''] (\<lambda>_. [''1'']) (snd (Authorize ''u'' ''1'' (New [sample_user] Map.empty)))) =
       map report_of ps"
proof -
  have "online_order (snd (Authorize ''u'' ''1'' (New [sample_user] Map.empty))) [''u''] (\<lambda>_. [''1''])"
    by (simp add: online_order_def range_order_def limiter_eval map_get_def)
  from get_online_device_exact [OF this] show ?thesis by blast
qed

text \<open>
  A collection does not shut anyone out: a user who was on line from an address
  is admitted from it again afterwards, even if the panel now counts the user as being
  at the device limit.
\<close>

theorem collected_address_readmitted:
  assumes "online_order l ks ips" and "online l uuid (plain_ip ip) \<noteq> None" and "LimitInfo l uuid \<noteq> None"
  shows "\<not> snd (fst (Authorize uuid ip (SetAliveList alive (snd (GetOnlineDevice ks ips l)))))"
proof -
  let ?l = "SetAliveList alive (snd (GetOnlineDevice ks ips l))"
  have "plain_ip ip \<in> ou_IP ` set (map report_of (found_pairs l ks ips))"
    using assms(2) found_pairs_set [OF assms(1)] by (force simp: report_of_def online_pairs_def)
  then have "plain_ip ip \<in> dom (fold store_old (map report_of (found_pairs l ks ips)) Map.empty)"
    by (simp add: fold_store_old_dom)
  then have "OldUserOnline ?l (plain_ip ip) \<noteq> None"
    by (auto simp: GetOnlineDevice_eq [OF assms(1)] Let_def found_pairs_report SetAliveList_def)
  moreover have "LimitInfo ?l = LimitInfo l"
    by (simp add: GetOnlineDevice_eq [OF assms(1)] Let_def SetAliveList_def)
  ultimately show ?thesis
    using assms(3) by (auto simp: Authorize_fst admit_decision split: option.split)
qed

theorem collected_address_readmitted_witness:
  "\<not> snd (fst (Authorize ''u'' ''1'' (SetAliveList [7 \<mapsto> 9]
     (snd (GetOnlineDevice [''u''] (\<lambda>_. [''1'']) (snd (Authorize ''u'' ''1'' (New [sample_user] Map.empty))))))))"
  by (rule collected_address_readmitted)
     (simp_all add: online_order_def range_order_def limiter_eval map_get_def)

text \<open>
  The limit is a limit on the panel's count, not on the addresses at hand: as long as the
  count the panel sent last is below the limit, any number of further addresses of the user
  is admitted.
\<close>

lemma authorize_keeps_counts:
  "LimitInfo (snd (Authorize uuid ip l)) = LimitInfo l \<and>
   aliveCount uid (snd (Authorize uuid ip l)) = aliveCount uid l"
  unfolding Authorize_snd using admit_LimitInfo [of uuid ip l] admit_frame [of uuid ip l]
  by (simp add: aliveCount_def)

lemma burst_admitted:
  assumes "LimitInfo l uuid = Some info" and "aliveCount (li_UID info) l < li_DeviceLimit info"
  shows "\<not> snd (fst (Authorize uuid ip (fold (\<lambda>ip l. snd (Authorize uuid ip l)) ips l)))"
proof -
  have "LimitInfo (fold (\<lambda>ip l. snd (Authorize uuid ip l)) ips l) = LimitInfo l \<and>
      aliveCount (li_UID info) (fold (\<lambda>ip l. snd (Authorize uuid ip l)) ips l) = aliveCount (li_UID info) l"
    by (induction ips arbitrary: l) (simp_all add: aliveCount_def)
  with assms show ?thesis
    unfolding Authorize_fst admit_decision by (simp add: over_limit_def)
qed

end
