(* ===== verification/UserDiff.thy ===== *)
theory UserDiff
  imports Limiter "HOL-Library.List_Lexorder" "HOL-Library.Char_ord"
begin

text \<open>
  The difference of two user lists, \<^verbatim>\<open>compareUserList\<close> in \<^verbatim>\<open>main.go\<close>, and what applying
  it to the limiter gives: the settings of exactly the new list.
\<close>

section \<open>The comparison\<close>

definition put_user :: "UserInfo \<Rightarrow> (string \<rightharpoonup> UserInfo) \<Rightarrow> (string \<rightharpoonup> UserInfo)" where
  "put_user user m = m(ui_Uuid user \<mapsto> user)"

definition old_map :: "UserInfo list \<Rightarrow> (string \<rightharpoonup> UserInfo)" where
  "old_map oldUsers = fold put_user oldUsers Map.empty"

definition limits_differ :: "UserInfo \<Rightarrow> UserInfo \<Rightarrow> bool" where
  "limits_differ a b \<longleftrightarrow> ui_SpeedLimit a \<noteq> ui_SpeedLimit b \<or> ui_DeviceLimit a \<noteq> ui_DeviceLimit b"

text \<open>One new user; the state is the old users not seen yet, those added and those modified.\<close>

definition compare_user ::
  "UserInfo \<Rightarrow> (string \<rightharpoonup> UserInfo) \<times> UserInfo list \<times> UserInfo list \<Rightarrow>
     (string \<rightharpoonup> UserInfo) \<times> UserInfo list \<times> UserInfo list" where
  "compare_user user st =
     (case st of (oldMap, added, modified) \<Rightarrow>
        (case oldMap (ui_Uuid user) of
           None \<Rightarrow> (oldMap, added @ [user], modified)
         | Some existing \<Rightarrow>
             (oldMap(ui_Uuid user := None), added,
              if limits_differ existing user then modified @ [user] else modified)))"

text \<open>\<open>order\<close> gives the order of the loop over what is left of the old users.\<close>

definition compareUserList ::
  "((string \<rightharpoonup> UserInfo) \<Rightarrow> string list) \<Rightarrow> UserInfo list \<Rightarrow> UserInfo list \<Rightarrow>
     UserInfo list \<times> UserInfo list \<times> UserInfo list" where
  "compareUserList order oldUsers newUsers =
     (case fold compare_user newUsers (old_map oldUsers, [], []) of
        (oldMap, added, modified) \<Rightarrow>
          (concat (map (\<lambda>uuid. case oldMap uuid of None \<Rightarrow> [] | Some user \<Rightarrow> [user]) (order oldMap)),
           added, modified))"

section \<open>What it computes\<close>

lemma old_map_None: "old_map us uuid = None \<longleftrightarrow> uuid \<notin> ui_Uuid ` set us"
proof -
  have "fold put_user us m uuid = None \<longleftrightarrow> uuid \<notin> ui_Uuid ` set us \<and> m uuid = None" for m
    by (induction us arbitrary: m) (auto simp: put_user_def)
  then show ?thesis by (simp add: old_map_def)
qed

lemma old_map_dom: "dom (old_map us) = ui_Uuid ` set us"
  using old_map_None [of us] by (auto simp: dom_def)

lemma old_map_mem: "old_map us uuid = Some user \<Longrightarrow> user \<in> set us \<and> ui_Uuid user = uuid"
  using fold_upd_mem [of ui_Uuid "\<lambda>u. u" us Map.empty uuid user] by (auto simp: old_map_def put_user_def [abs_def])

lemma old_map_distinct: "distinct (map ui_Uuid us) \<Longrightarrow> user \<in> set us \<Longrightarrow> old_map us (ui_Uuid user) = Some user"
  using fold_upd_distinct [of ui_Uuid us user "\<lambda>u. u" Map.empty]
  by (simp add: old_map_def put_user_def [abs_def])

text \<open>The old user an entry of the new list changes.\<close>

definition changes :: "(string \<rightharpoonup> UserInfo) \<Rightarrow> UserInfo \<Rightarrow> bool" where
  "changes m user \<longleftrightarrow> (\<exists>existing. m (ui_Uuid user) = Some existing \<and> limits_differ existing user)"

lemma fold_compare_user:
  assumes "distinct (map ui_Uuid us)"
  shows "fold compare_user us (m, a, d) =
     ((\<lambda>uuid. if uuid \<in> ui_Uuid ` set us then None else m uuid),
      a @ filter (\<lambda>user. m (ui_Uuid user) = None) us, d @ filter (changes m) us)"
  using assms
proof (induction us arbitrary: m a d)
  case Nil
  then show ?case by simp
next
  case (Cons user us)
  let ?m1 = "m(ui_Uuid user := None)"
  have notin: "ui_Uuid user \<notin> ui_Uuid ` set us" using Cons.prems by simp
  then have ne: "ui_Uuid x \<noteq> ui_Uuid user" if "x \<in> set us" for x
    using that by (metis imageI)
  have "filter (\<lambda>u. ?m1 (ui_Uuid u) = None) us = filter (\<lambda>u. m (ui_Uuid u) = None) us"
    by (rule filter_cong) (simp_all add: ne)
  moreover have "filter (changes ?m1) us = filter (changes m) us"
    by (rule filter_cong) (simp_all add: ne changes_def)
  ultimately have cong: "filter (\<lambda>u. ?m1 (ui_Uuid u) = None) us = filter (\<lambda>u. m (ui_Uuid u) = None) us"
    "filter (changes ?m1) us = filter (changes m) us" by blast+
  have rest: "(\<lambda>uuid. if uuid \<in> ui_Uuid ` set us then None else ?m1 uuid) =
      (\<lambda>uuid. if uuid \<in> ui_Uuid ` set (user # us) then None else m uuid)"
    by (auto simp: fun_eq_iff)
  show ?case
  proof (cases "m (ui_Uuid user)")
    case None
    then have m1: "?m1 = m" by (simp add: fun_upd_idem)
    have step: "compare_user user (m, a, d) = (m, a @ [user], d)"
      by (simp add: compare_user_def None)
    have "\<not> changes m user" by (simp add: changes_def None)
    then show ?thesis
      using Cons.prems Cons.IH [of m] rest [unfolded m1] None by (simp add: step)
  next
    case (Some existing)
    have ch: "changes m user = limits_differ existing user"
      by (simp add: changes_def Some)
    have step: "compare_user user (m, a, d) =
        (?m1, a, if changes m user then d @ [user] else d)"
      by (simp add: compare_user_def Some ch)
    show ?thesis
      using Cons.prems Cons.IH [of ?m1] rest cong Some
      by (simp add: step del: fun_upd_apply)
  qed
qed

lemma compareUserList_eq:
  assumes "distinct (map ui_Uuid newUsers)"
  shows "compareUserList order oldUsers newUsers =
     (let left = (\<lambda>uuid. if uuid \<in> ui_Uuid ` set newUsers then None else old_map oldUsers uuid)
      in (concat (map (\<lambda>uuid. case left uuid of None \<Rightarrow> [] | Some user \<Rightarrow> [user]) (order left)),
          filter (\<lambda>user. old_map oldUsers (ui_Uuid user) = None) newUsers,
          filter (changes (old_map oldUsers)) newUsers))"
  unfolding compareUserList_def fold_compare_user [OF assms] Let_def by simp

text \<open>The loop's order enumerates the map it is given.\<close>

definition order_ok :: "((string \<rightharpoonup> UserInfo) \<Rightarrow> string list) \<Rightarrow> bool" where
  "order_ok order \<longleftrightarrow> (\<forall>m. finite (dom m) \<longrightarrow> range_order m (order m))"

lemma old_map_finite: "finite (dom (old_map us))"
  by (simp add: old_map_dom)

lemma left_enumerated:
  assumes "range_order m ks"
  shows "set (concat (map (\<lambda>uuid. case m uuid of None \<Rightarrow> [] | Some user \<Rightarrow> [user]) ks)) = ran m"
proof -
  have "set (concat (map (\<lambda>uuid. case m uuid of None \<Rightarrow> [] | Some user \<Rightarrow> [user]) ks)) =
      {user. \<exists>uuid\<in>dom m. m uuid = Some user}"
    unfolding range_order_set [OF assms, symmetric] by (auto split: option.splits)
  then show ?thesis by (auto simp: ran_def)
qed

lemma compareUserList_sets:
  assumes "distinct (map ui_Uuid newUsers)" and "order_ok order"
    and "compareUserList order oldUsers newUsers = (deleted, added, modified)"
  shows "ui_Uuid ` set deleted = ui_Uuid ` set oldUsers - ui_Uuid ` set newUsers"
    and "added = filter (\<lambda>user. ui_Uuid user \<notin> ui_Uuid ` set oldUsers) newUsers"
    and "modified = filter (changes (old_map oldUsers)) newUsers"
proof -
  let ?left = "\<lambda>uuid. if uuid \<in> ui_Uuid ` set newUsers then None else old_map oldUsers uuid"
  have "dom ?left \<subseteq> dom (old_map oldUsers)" by (auto split: if_splits)
  then have "range_order ?left (order ?left)"
    using assms(2) old_map_finite [of oldUsers] finite_subset unfolding order_ok_def by blast
  then have "set deleted = ran ?left"
    using assms(3) left_enumerated [of ?left "order ?left"]
    by (simp add: compareUserList_eq [OF assms(1)] Let_def)
  then have "ui_Uuid ` set deleted = dom ?left"
    using old_map_mem [of oldUsers] by (fastforce simp: ran_def dom_def split: if_splits)
  then show "ui_Uuid ` set deleted = ui_Uuid ` set oldUsers - ui_Uuid ` set newUsers"
    using old_map_dom [of oldUsers] by (auto simp: dom_def split: if_splits)
  show "added = filter (\<lambda>user. ui_Uuid user \<notin> ui_Uuid ` set oldUsers) newUsers"
    "modified = filter (changes (old_map oldUsers)) newUsers"
    using assms(3) by (simp_all add: compareUserList_eq [OF assms(1)] Let_def old_map_None)
qed

section \<open>The limiter after an update\<close>

text \<open>Speed and device limit per uuid: of a list (the last entry counts), of a limiter.\<close>

definition settings :: "UserInfo \<Rightarrow> int \<times> int" where
  "settings user = (ui_SpeedLimit user, ui_DeviceLimit user)"

definition settings_of :: "UserInfo list \<Rightarrow> (string \<rightharpoonup> int \<times> int)" where
  "settings_of us = (\<lambda>uuid. map_option settings (old_map us uuid))"

definition limiter_settings :: "Limiter \<Rightarrow> (string \<rightharpoonup> int \<times> int)" where
  "limiter_settings l = (\<lambda>uuid. map_option (\<lambda>i. (li_SpeedLimit i, li_DeviceLimit i)) (LimitInfo l uuid))"

lemma map_upd_add: "m(k \<mapsto> v) = m ++ [k \<mapsto> v]"
  by simp

lemma fold_put_user: "fold put_user us m = m ++ old_map us"
proof (induction us arbitrary: m)
  case Nil
  then show ?case by (simp add: old_map_def)
next
  case (Cons u us)
  have "old_map (u # us) = put_user u Map.empty ++ old_map us"
    using Cons.IH [of "put_user u Map.empty"] by (simp add: old_map_def)
  then show ?case
    by (simp only: fold_simps Cons.IH put_user_def [of u] map_upd_add [of m] map_add_assoc)
qed

lemma old_map_Nil [simp]: "old_map [] = Map.empty"
  by (simp add: old_map_def)

lemma old_map_Cons: "old_map (u # us) = [ui_Uuid u \<mapsto> u] ++ old_map us"
  using fold_put_user [of us "put_user u Map.empty"] by (simp add: old_map_def put_user_def del: fun_upd_apply)

lemma settings_of_Nil [simp]: "settings_of [] = Map.empty"
  by (simp add: settings_of_def)

lemma settings_of_Cons: "settings_of (u # us) = [ui_Uuid u \<mapsto> settings u] ++ settings_of us"
  by (auto simp: settings_of_def old_map_Cons fun_eq_iff map_add_def split: option.split)

lemma settings_of_None: "settings_of us uuid = None \<longleftrightarrow> uuid \<notin> ui_Uuid ` set us"
  by (simp add: settings_of_def old_map_None)

lemma settings_of_filter:
  assumes "distinct (map ui_Uuid us)"
  shows "settings_of (filter P us) uuid =
     (case old_map us uuid of None \<Rightarrow> None | Some user \<Rightarrow> if P user then Some (settings user) else None)"
proof (cases "old_map us uuid")
  case None
  then have "uuid \<notin> ui_Uuid ` set (filter P us)" by (auto simp: old_map_None)
  then have "settings_of (filter P us) uuid = None" unfolding settings_of_None .
  with None show ?thesis by simp
next
  case (Some user)
  then have u: "user \<in> set us" "ui_Uuid user = uuid" using old_map_mem by blast+
  have d: "distinct (map ui_Uuid (filter P us))" using assms by (rule distinct_map_filter)
  show ?thesis
  proof (cases "P user")
    case True
    then have "old_map (filter P us) (ui_Uuid user) = Some user"
      using u by (intro old_map_distinct [OF d]) simp
    with True Some u show ?thesis by (simp add: settings_of_def)
  next
    case False
    have "uuid \<notin> ui_Uuid ` set (filter P us)"
    proof
      assume "uuid \<in> ui_Uuid ` set (filter P us)"
      then obtain v where v: "v \<in> set us" "P v" "ui_Uuid v = uuid" by auto
      then have "v = user" using old_map_distinct [OF assms v(1)] Some by simp
      with v False show False by simp
    qed
    then have "settings_of (filter P us) uuid = None" unfolding settings_of_None .
    with Some False show ?thesis by simp
  qed
qed

lemma updateBucket_LimitInfo [simp]: "LimitInfo (updateBucket uuid sp l) = LimitInfo l"
  by (simp add: updateBucket_def Let_def fresh_bucket_def)

lemma limiter_settings_store: "limiter_settings (store_info u l) = (limiter_settings l)(ui_Uuid u \<mapsto> settings u)"
  by (auto simp: limiter_settings_def store_info_def new_info_def settings_def fun_eq_iff)

lemma limiter_settings_add: "limiter_settings (add_user u l) = (limiter_settings l)(ui_Uuid u \<mapsto> settings u)"
  using limiter_settings_store [of u l] by (simp add: add_user_def limiter_settings_def)

lemma limiter_settings_modify:
  "limiter_settings l (ui_Uuid u) \<noteq> None \<Longrightarrow>
     limiter_settings (modify_user u l) = (limiter_settings l)(ui_Uuid u \<mapsto> settings u)"
  by (auto simp: limiter_settings_def modify_user_def settings_def fun_eq_iff split: option.split)

lemma limiter_settings_delete:
  "limiter_settings (delete_user u l) = (limiter_settings l)(ui_Uuid u := None)"
  by (auto simp: limiter_settings_def delete_user_def fun_eq_iff)

lemma upd_map_add: "m(k \<mapsto> v) ++ n = m ++ ([k \<mapsto> v] ++ n)"
  by (simp only: map_upd_add [of m] map_add_assoc)

lemma fold_add_settings: "limiter_settings (fold add_user us l) = limiter_settings l ++ settings_of us"
proof (induction us arbitrary: l)
  case (Cons u us)
  show ?case
    by (simp only: fold_simps Cons.IH limiter_settings_add settings_of_Cons upd_map_add [of "limiter_settings l"])
qed simp

lemma fold_modify_settings:
  "\<forall>u\<in>set us. limiter_settings l (ui_Uuid u) \<noteq> None \<Longrightarrow>
     limiter_settings (fold modify_user us l) = limiter_settings l ++ settings_of us"
proof (induction us arbitrary: l)
  case (Cons u us)
  have u: "limiter_settings l (ui_Uuid u) \<noteq> None" using Cons.prems by simp
  have "\<forall>v\<in>set us. limiter_settings (modify_user u l) (ui_Uuid v) \<noteq> None"
    using Cons.prems by (simp add: limiter_settings_modify [OF u])
  from Cons.IH [OF this] show ?case
    by (simp only: fold_simps limiter_settings_modify [OF u] settings_of_Cons
        upd_map_add [of "limiter_settings l"])
qed simp

lemma fold_delete_settings:
  "limiter_settings (fold delete_user us l) uuid =
     (if uuid \<in> ui_Uuid ` set us then None else limiter_settings l uuid)"
  by (induction us arbitrary: l) (auto simp: limiter_settings_delete)

lemma New_settings: "limiter_settings (New users alive) = settings_of users"
proof -
  have store: "limiter_settings (fold store_info us l) = limiter_settings l ++ settings_of us" for us l
  proof (induction us arbitrary: l)
    case (Cons u us)
    show ?case
      by (simp only: fold_simps Cons.IH limiter_settings_store settings_of_Cons
          upd_map_add [of "limiter_settings l"])
  qed simp
  show ?thesis unfolding New_def store by (simp add: limiter_settings_def map_add_def)
qed

text \<open>
  Applying the difference of two lists, to a table or to a limiter, takes the settings of
  the one to those of the other.
\<close>

lemma diff_settings:
  assumes "distinct (map ui_Uuid newUsers)" and "order_ok order"
    and "compareUserList order oldUsers newUsers = (deleted, added, modified)"
    and "\<And>v. kept v = (if v \<in> ui_Uuid ` set deleted then None else settings_of oldUsers v)"
  shows "kept ++ settings_of modified ++ settings_of added = settings_of newUsers"
proof
  fix uuid
  note sets = compareUserList_sets [OF assms(1-3)]
  note d = assms(4) [unfolded sets(1)]
  note add = settings_of_filter [OF assms(1), of "\<lambda>user. ui_Uuid user \<notin> ui_Uuid ` set oldUsers" uuid]
    and mod = settings_of_filter [OF assms(1), of "changes (old_map oldUsers)" uuid]
  show "(kept ++ settings_of modified ++ settings_of added) uuid = settings_of newUsers uuid"
  proof (cases "old_map newUsers uuid")
    case None
    then have "uuid \<notin> ui_Uuid ` set newUsers" by (simp add: old_map_None)
    moreover have new: "settings_of newUsers uuid = None" by (simp add: settings_of_def None)
    have "settings_of oldUsers uuid = None" if "uuid \<notin> ui_Uuid ` set oldUsers"
      using that by (simp add: settings_of_def old_map_None)
    ultimately show ?thesis
      unfolding sets(2,3) map_add_def add mod d new by (simp add: None)
  next
    case (Some user)
    then have u: "user \<in> set newUsers" "ui_Uuid user = uuid" using old_map_mem by blast+
    then have mem: "uuid \<in> ui_Uuid ` set newUsers" by auto
    have new: "settings_of newUsers uuid = Some (settings user)" by (simp add: settings_of_def Some)
    show ?thesis
    proof (cases "old_map oldUsers uuid")
      case None
      then have "uuid \<notin> ui_Uuid ` set oldUsers" by (simp add: old_map_None)
      with u show ?thesis
        unfolding sets(2,3) map_add_def add mod new by (simp add: Some)
    next
      case e: (Some existing)
      then have "uuid \<in> ui_Uuid ` set oldUsers" using old_map_None [of oldUsers uuid] by auto
      with u mem show ?thesis
        unfolding sets(2,3) map_add_def add mod d new
        by (auto simp: Some e settings_of_def changes_def limits_differ_def settings_def)
    qed
  qed
qed

text \<open>The order of additions and changes does not matter.\<close>

lemma diff_settings_commute:
  assumes "distinct (map ui_Uuid newUsers)" and "order_ok order"
    and "compareUserList order oldUsers newUsers = (deleted, added, modified)"
    and "\<And>v. kept v = (if v \<in> ui_Uuid ` set deleted then None else settings_of oldUsers v)"
  shows "kept ++ settings_of added ++ settings_of modified = settings_of newUsers"
proof -
  note sets = compareUserList_sets [OF assms(1-3)]
  have dom: "dom (settings_of us) = ui_Uuid ` set us" for us
    unfolding dom_def settings_of_None [of us] by (simp add: set_eq_iff)
  have "ui_Uuid ` set modified \<subseteq> ui_Uuid ` set oldUsers"
  proof
    fix uuid assume "uuid \<in> ui_Uuid ` set modified"
    then obtain u where u: "u \<in> set modified" "uuid = ui_Uuid u" by blast
    then have "changes (old_map oldUsers) u" unfolding sets(3) by simp
    then have "old_map oldUsers uuid \<noteq> None" using u(2) by (cases "old_map oldUsers uuid") (simp_all add: changes_def)
    then show "uuid \<in> ui_Uuid ` set oldUsers" unfolding old_map_None by simp
  qed
  moreover have "ui_Uuid ` set added \<inter> ui_Uuid ` set oldUsers = {}"
    unfolding sets(2) by auto
  ultimately have "dom (settings_of added) \<inter> dom (settings_of modified) = {}"
    unfolding dom by blast
  then have c: "settings_of added ++ settings_of modified = settings_of modified ++ settings_of added"
    by (rule map_add_comm)
  have "kept ++ settings_of added ++ settings_of modified =
      kept ++ (settings_of added ++ settings_of modified)" by (rule map_add_assoc [symmetric])
  also have "\<dots> = kept ++ settings_of modified ++ settings_of added"
    unfolding c by (rule map_add_assoc)
  also have "\<dots> = settings_of newUsers" by (rule diff_settings [OF assms])
  finally show ?thesis .
qed

lemma update_settings:
  assumes "distinct (map ui_Uuid newUsers)" and "order_ok order"
    and "compareUserList order oldUsers newUsers = (deleted, added, modified)"
    and "limiter_settings l = settings_of oldUsers"
  shows "limiter_settings (UpdateUsers added deleted modified l) = settings_of newUsers"
proof -
  note sets = compareUserList_sets [OF assms(1-3)]
  let ?d = "fold delete_user deleted l"
  have d: "limiter_settings ?d v =
      (if v \<in> ui_Uuid ` set deleted then None else settings_of oldUsers v)" for v
    by (simp only: fold_delete_settings assms(4))
  have "\<forall>u\<in>set modified. limiter_settings ?d (ui_Uuid u) \<noteq> None"
    unfolding sets(3) d sets(1) by (auto simp: settings_of_def changes_def split: option.splits)
  then have "limiter_settings (UpdateUsers added deleted modified l) =
      limiter_settings ?d ++ settings_of modified ++ settings_of added"
    by (simp only: UpdateUsers_def fold_add_settings fold_modify_settings)
  then show ?thesis using diff_settings [OF assms(1-3) d] by simp
qed

section \<open>Properties\<close>

text \<open>
  The comparison of two user lists is exact: the users reported as deleted are those
  whose uuid the new list lacks, the added ones those the old list lacked, and the
  modified ones those whose speed or device limit changed, the last two in the order of
  the new list, whatever order the map of the old users is walked in.
\<close>

theorem compare_user_list_exact:
  assumes "distinct (map ui_Uuid newUsers)" and "order_ok order"
    and "compareUserList order oldUsers newUsers = (deleted, added, modified)"
  shows "ui_Uuid ` set deleted = ui_Uuid ` set oldUsers - ui_Uuid ` set newUsers \<and>
     added = filter (\<lambda>user. ui_Uuid user \<notin> ui_Uuid ` set oldUsers) newUsers \<and>
     modified = filter (changes (old_map oldUsers)) newUsers"
  using compareUserList_sets [OF assms] by blast

text \<open>One order a loop may take: the keys sorted.\<close>

definition sorted_order :: "(string \<rightharpoonup> 'v) \<Rightarrow> string list" where
  "sorted_order m = sorted_list_of_set (dom m)"

lemma sorted_order_range: "finite (dom m) \<Longrightarrow> range_order m (sorted_order m)"
  by (simp add: range_order_def sorted_order_def)

lemma sorted_order_ok: "order_ok sorted_order"
  by (simp add: order_ok_def sorted_order_range)

theorem compare_user_list_exact_witness:
  "\<exists>deleted. compareUserList sorted_order [sample_user, sample_user\<lparr>ui_Uuid := ''gone''\<rparr>]
       [sample_user\<lparr>ui_SpeedLimit := 9\<rparr>, sample_user\<lparr>ui_Uuid := ''new''\<rparr>] =
     (deleted, [sample_user\<lparr>ui_Uuid := ''new''\<rparr>], [sample_user\<lparr>ui_SpeedLimit := 9\<rparr>]) \<and>
     ui_Uuid ` set deleted = {''gone''}"
proof -
  let ?old = "[sample_user, sample_user\<lparr>ui_Uuid := ''gone''\<rparr>]"
  let ?new = "[sample_user\<lparr>ui_SpeedLimit := 9\<rparr>, sample_user\<lparr>ui_Uuid := ''new''\<rparr>]"
  obtain d a m where r: "compareUserList sorted_order ?old ?new = (d, a, m)" by (metis prod_cases3)
  have "distinct (map ui_Uuid ?new)" by (simp add: sample_user_def)
  from compare_user_list_exact [OF this sorted_order_ok r] r show ?thesis
    by (simp add: sample_user_def changes_def old_map_Cons limits_differ_def)
qed



end
