(* ===== verification/Go_Net.thy ===== *)
theory Go_Net
  imports Go_Strings "HOL-Library.Word"
begin

text \<open>
  The functions of Go's \<^verbatim>\<open>net\<close>, \<^verbatim>\<open>net/netip\<close>, \<^verbatim>\<open>path/filepath\<close> and
  \<^verbatim>\<open>strconv\<close> packages that the program calls: host and port, numbers, textual IP
  addresses and networks, and paths (on Unix).
\<close>

unbundle bit_operations_syntax

section \<open>Bytes and positions in strings\<close>

fun index_char :: "char \<Rightarrow> string \<Rightarrow> nat option" where
  "index_char c [] = None"
| "index_char c (x # xs) = (if x = c then Some 0 else map_option Suc (index_char c xs))"

fun last_index_char :: "char \<Rightarrow> string \<Rightarrow> nat option" where
  "last_index_char c [] = None"
| "last_index_char c (x # xs) =
     (case last_index_char c xs of
        Some i \<Rightarrow> Some (Suc i)
      | None \<Rightarrow> if x = c then Some 0 else None)"

text \<open>\<^verbatim>\<open>strings.Trim\<close> with an ASCII cutset.\<close>

definition trim_set :: "char list \<Rightarrow> string \<Rightarrow> string" where
  "trim_set cutset s =
     rev (dropWhile (\<lambda>c. c \<in> set cutset) (rev (dropWhile (\<lambda>c. c \<in> set cutset) s)))"

lemma index_char_None: "index_char c s = None \<longleftrightarrow> c \<notin> set s"
  by (induction s) auto

lemma index_char_append: "c \<notin> set a \<Longrightarrow> index_char c (a @ c # b) = Some (length a)"
  by (induction a) auto

lemma last_index_char_None: "last_index_char c s = None \<longleftrightarrow> c \<notin> set s"
  by (induction s) (auto split: option.splits)

lemma last_index_char_append: "c \<notin> set b \<Longrightarrow> last_index_char c (a @ c # b) = Some (length a)"
proof (induction a)
  case Nil
  then have "last_index_char c b = None" by (simp add: last_index_char_None)
  then show ?case by simp
qed simp

lemma last_index_char_Some:
  "last_index_char c s = Some i \<Longrightarrow> i < length s \<and> s ! i = c \<and> c \<notin> set (drop (Suc i) s)"
proof (induction s arbitrary: i)
  case Nil
  then show ?case by simp
next
  case (Cons x xs)
  then show ?case
    by (cases "last_index_char c xs") (auto simp: last_index_char_None split: if_splits)
qed

section \<open>Host and port\<close>

text \<open>\<^verbatim>\<open>net.SplitHostPort\<close>, \<open>None\<close> for any of its errors.\<close>

definition SplitHostPort :: "string \<Rightarrow> (string \<times> string) option" where
  "SplitHostPort hostport =
     (case last_index_char (CHR '':'') hostport of
        None \<Rightarrow> None
      | Some i \<Rightarrow>
          if take 1 hostport = ''['' then
            (case index_char (CHR '']'') hostport of
               None \<Rightarrow> None
             | Some j \<Rightarrow>
                 if Suc j \<noteq> i then None
                 else if CHR ''['' \<in> set (drop 1 hostport) \<or> CHR '']'' \<in> set (drop (Suc j) hostport)
                 then None
                 else Some (take (j - 1) (drop 1 hostport), drop (Suc i) hostport))
          else if CHR '':'' \<in> set (take i hostport) then None
          else if CHR ''['' \<in> set hostport \<or> CHR '']'' \<in> set hostport then None
          else Some (take i hostport, drop (Suc i) hostport))"

definition JoinHostPort :: "string \<Rightarrow> string \<Rightarrow> string" where
  "JoinHostPort host port =
     (if CHR '':'' \<in> set host then ''['' @ host @ '']:'' @ port else host @ '':'' @ port)"

lemma SplitHostPort_plain:
  assumes "CHR '':'' \<notin> set host" "CHR '':'' \<notin> set port"
    and "set (host @ port) \<inter> {CHR ''['', CHR '']''} = {}"
  shows "SplitHostPort (host @ CHR '':'' # port) = Some (host, port)"
proof -
  have "take 1 (host @ CHR '':'' # port) \<noteq> ''[''"
    using assms(3) by (cases host) auto
  then show ?thesis
    using assms by (auto simp: SplitHostPort_def last_index_char_append)
qed

lemma split_join_host_port:
  assumes "set host \<inter> {CHR ''['', CHR '']''} = {}"
    and "set port \<inter> {CHR '':'', CHR ''['', CHR '']''} = {}"
  shows "SplitHostPort (JoinHostPort host port) = Some (host, port)"
proof (cases "CHR '':'' \<in> set host")
  case False
  then show ?thesis
    using SplitHostPort_plain [of host port] assms by (auto simp: JoinHostPort_def)
next
  case True
  let ?s = "''['' @ host @ '']:'' @ port"
  have i: "last_index_char (CHR '':'') ?s = Some (length host + 2)"
    using last_index_char_append [of "CHR '':''" port "''['' @ host @ '']''"] assms(2) by simp
  have j: "index_char (CHR '']'') ?s = Some (Suc (length host))"
    using index_char_append [of "CHR '']''" "''['' @ host" "'':'' @ port"] assms(1) by simp
  show ?thesis
    unfolding JoinHostPort_def SplitHostPort_def using True assms i j by auto
qed

section \<open>Numbers\<close>

definition digit_val :: "char \<Rightarrow> int option" where
  "digit_val c = (let n = of_char c :: nat in if 48 \<le> n \<and> n \<le> 57 then Some (int n - 48) else None)"

fun parse_digits :: "int \<Rightarrow> string \<Rightarrow> int option" where
  "parse_digits acc [] = Some acc"
| "parse_digits acc (c # cs) =
     (case digit_val c of None \<Rightarrow> None | Some d \<Rightarrow> parse_digits (acc * 10 + d) cs)"

text \<open>\<^verbatim>\<open>strconv.Atoi\<close>: an optional sign, at least one digit, the value in 64 bits.\<close>

definition Atoi :: "string \<Rightarrow> int option" where
  "Atoi s =
     (let (neg, ds) = (case s of [] \<Rightarrow> (False, [])
                       | c # cs \<Rightarrow> if c = CHR ''-'' then (True, cs)
                                  else if c = CHR ''+'' then (False, cs) else (False, c # cs))
      in if ds = [] then None
         else (case parse_digits 0 ds of
                 None \<Rightarrow> None
               | Some n \<Rightarrow>
                   let v = (if neg then - n else n) in if in64 v then Some v else None))"

lemma digit_val_char: "n < 10 \<Longrightarrow> digit_val (digit_char n) = Some (int n)"
  by (simp add: digit_val_def digit_char_def Let_def)

lemma parse_digits_append:
  "parse_digits acc (a @ b) = (case parse_digits acc a of None \<Rightarrow> None | Some v \<Rightarrow> parse_digits v b)"
  by (induction a arbitrary: acc) (auto split: option.split)

lemma parse_show_nat: "parse_digits 0 (show_nat n) = Some (int n)"
proof (induction n rule: less_induct)
  case (less n)
  show ?case
  proof (cases "n < 10")
    case True
    then have "show_nat n = [digit_char n]" by (subst show_nat.simps) simp
    then show ?thesis using True by (simp add: digit_val_char)
  next
    case False
    then have s: "show_nat n = show_nat (n div 10) @ [digit_char (n mod 10)]"
      by (subst show_nat.simps) simp
    have "int (n div 10) * 10 + int (n mod 10) = int n"
      by (metis div_mult_mod_eq of_nat_add of_nat_mult of_nat_numeral)
    then show ?thesis
      using False less.IH [of "n div 10"] by (simp add: s parse_digits_append digit_val_char)
  qed
qed

lemma show_nat_hd: "hd (show_nat n) \<in> digit_char ` {..<10}"
proof (induction n rule: show_nat.induct)
  case (1 n)
  show ?case
    by (subst show_nat.simps) (use 1 in auto)
qed

lemma digit_char_neq [simp]:
  "n < 10 \<Longrightarrow> digit_char n \<noteq> CHR ''-''" "n < 10 \<Longrightarrow> digit_char n \<noteq> CHR ''+''"
  "n < 10 \<Longrightarrow> digit_char n \<noteq> CHR '':''" "n < 10 \<Longrightarrow> digit_char n \<noteq> CHR ''[''"
  "n < 10 \<Longrightarrow> digit_char n \<noteq> CHR '']''"
proof -
  have *: "of_char (digit_char n) = (48 + n :: nat)" if "n < 10"
    using that by (simp add: digit_char_def)
  show "n < 10 \<Longrightarrow> digit_char n \<noteq> CHR ''-''" "n < 10 \<Longrightarrow> digit_char n \<noteq> CHR ''+''"
    "n < 10 \<Longrightarrow> digit_char n \<noteq> CHR '':''" "n < 10 \<Longrightarrow> digit_char n \<noteq> CHR ''[''"
    "n < 10 \<Longrightarrow> digit_char n \<noteq> CHR '']''"
    using * by (auto dest!: arg_cong [where f = "of_char :: char \<Rightarrow> nat"])
qed

lemma digit_image [simp]:
  "CHR ''-'' \<notin> digit_char ` {..<10}" "CHR ''+'' \<notin> digit_char ` {..<10}"
  "CHR '':'' \<notin> digit_char ` {..<10}" "CHR ''['' \<notin> digit_char ` {..<10}"
  "CHR '']'' \<notin> digit_char ` {..<10}"
  using digit_char_neq by (force simp: image_iff)+

lemma show_nat_chars: "set (show_nat n) \<subseteq> digit_char ` {..<10}"
proof (induction n rule: show_nat.induct)
  case (1 n)
  show ?case
    by (subst show_nat.simps) (use 1 in auto)
qed

lemma Atoi_Itoa:
  assumes "in64 i"
  shows "Atoi (Itoa i) = Some i"
proof (cases "i < 0")
  case True
  with assms show ?thesis
    by (simp add: Atoi_def Itoa_def parse_show_nat Let_def)
next
  case False
  obtain c cs where s: "show_nat (nat i) = c # cs"
    by (cases "show_nat (nat i)") simp_all
  then have "c \<in> digit_char ` {..<10}" using show_nat_hd [of "nat i"] by simp
  then have "c \<noteq> CHR ''-''" "c \<noteq> CHR ''+''" by auto
  with False assms s show ?thesis
    using parse_show_nat [of "nat i"] by (auto simp: Atoi_def Itoa_def Let_def)
qed

section \<open>Paths\<close>

text \<open>\<^verbatim>\<open>filepath.Clean\<close>: the path's components, kept in reverse, and whether it is rooted.\<close>

definition clean_component :: "bool \<Rightarrow> string \<Rightarrow> string list \<Rightarrow> string list" where
  "clean_component rooted part out =
     (if part = [] \<or> part = ''.'' then out
      else if part = ''..'' then
        (if out \<noteq> [] \<and> hd out \<noteq> ''..'' then tl out
         else if rooted then out else ''..'' # out)
      else part # out)"

definition Clean :: "string \<Rightarrow> string" where
  "Clean path =
     (let rooted = (take 1 path = ''/'');
          out = fold (clean_component rooted) (split_char (CHR ''/'') path) [];
          body = (if rooted then ''/'' else []) @ join ''/'' (rev out)
      in if body = [] then ''.'' else body)"

definition path_Join :: "string list \<Rightarrow> string" where
  "path_Join elem =
     (case dropWhile (\<lambda>e. e = []) elem of [] \<Rightarrow> [] | rest \<Rightarrow> Clean (join ''/'' rest))"

section \<open>IP addresses\<close>

text \<open>
  A \<^verbatim>\<open>net.IP\<close> is a list of 4 or 16 bytes; \<^verbatim>\<open>nil\<close> is \<open>None\<close>.  The parsers are those of
  \<^verbatim>\<open>netip.ParseAddr\<close>; a zone, which the callers here always reject, is not parsed.
\<close>

type_synonym IP = "8 word list"

definition v4InV6Prefix :: IP where
  "v4InV6Prefix = replicate 10 0 @ [0xFF, 0xFF]"

definition To4 :: "IP \<Rightarrow> IP option" where
  "To4 ip =
     (if length ip = 4 then Some ip
      else if length ip = 16 \<and> take 12 ip = v4InV6Prefix then Some (drop 12 ip)
      else None)"

definition octet :: "string \<Rightarrow> (8 word) option" where
  "octet field =
     (if field = [] \<or> (length field > 1 \<and> hd field = CHR ''0'') then None
      else (case parse_digits 0 field of
              None \<Rightarrow> None
            | Some n \<Rightarrow> if n \<le> 255 then Some (word_of_int n) else None))"

definition all_some :: "'a option list \<Rightarrow> 'a list option" where
  "all_some xs = (if None \<in> set xs then None else Some (map the xs))"

definition parseIPv4 :: "string \<Rightarrow> IP option" where
  "parseIPv4 s =
     (let fields = split_char (CHR ''.'') s
      in if length fields = 4 then all_some (map octet fields) else None)"

definition hex_val :: "char \<Rightarrow> nat option" where
  "hex_val c =
     (let n = of_char c :: nat in
      if 48 \<le> n \<and> n \<le> 57 then Some (n - 48)
      else if 97 \<le> n \<and> n \<le> 102 then Some (n - 87)
      else if 65 \<le> n \<and> n \<le> 70 then Some (n - 55)
      else None)"

text \<open>A group: its digits, their value and the rest of the text; more than four digits fail.\<close>

definition hex_digits :: "string \<Rightarrow> string" where
  "hex_digits s = takeWhile (\<lambda>c. hex_val c \<noteq> None) s"

definition hex_value :: "string \<Rightarrow> int" where
  "hex_value ds = fold (\<lambda>c acc. acc * 16 + int (the (hex_val c))) ds 0"

text \<open>
  The loop of \<^verbatim>\<open>parseIPv6\<close>: the text left, the bytes so far and the position of the
  ellipsis; the result is the bytes and the position.  Each round consumes a group.
\<close>

function parse_groups :: "string \<Rightarrow> IP \<Rightarrow> nat option \<Rightarrow> (IP \<times> nat option) option" where
  "parse_groups s ip ellipsis =
     (if length ip \<ge> 16 then (if s = [] then Some (ip, ellipsis) else None)
      else
        let ds = hex_digits s; rest = drop (length ds) s in
        if ds = [] \<or> length ds > 4 then None
        else if take 1 rest = ''.'' then
          (if ellipsis = None \<and> length ip \<noteq> 12 then None
           else if length ip + 4 > 16 then None
           else (case parseIPv4 s of None \<Rightarrow> None | Some v4 \<Rightarrow> Some (ip @ v4, ellipsis)))
        else
          let n = hex_value ds; ip1 = ip @ [word_of_int (n div 256), word_of_int n] in
          (case rest of
             [] \<Rightarrow> Some (ip1, ellipsis)
           | c # rest1 \<Rightarrow>
               if c \<noteq> CHR '':'' then None
               else (case rest1 of
                  [] \<Rightarrow> None
                | c1 # rest2 \<Rightarrow>
                    if c1 \<noteq> CHR '':'' then parse_groups rest1 ip1 ellipsis
                    else if ellipsis \<noteq> None then None
                    else if rest2 = [] then Some (ip1, Some (length ip1))
                    else parse_groups rest2 ip1 (Some (length ip1)))))"
  by pat_completeness auto
termination
  by (relation "measure (\<lambda>(s, ip, e). 16 - length ip)") auto

declare parse_groups.simps [simp del]

definition expand_ellipsis :: "IP \<times> nat option \<Rightarrow> IP option" where
  "expand_ellipsis r =
     (case r of (ip, ellipsis) \<Rightarrow>
        if length ip < 16 then
          (case ellipsis of
             None \<Rightarrow> None
           | Some e \<Rightarrow> Some (take e ip @ replicate (16 - length ip) 0 @ drop e ip))
        else if ellipsis \<noteq> None then None else Some ip)"

definition parseIPv6 :: "string \<Rightarrow> IP option" where
  "parseIPv6 s =
     (if HasPrefix s ''::'' then
        (if length s = 2 then Some (replicate 16 0)
         else Option.bind (parse_groups (drop 2 s) [] (Some 0)) expand_ellipsis)
      else Option.bind (parse_groups s [] None) expand_ellipsis)"

text \<open>\<^verbatim>\<open>netip.ParseAddr\<close>: the first dot or colon tells the family.\<close>

definition ParseAddr :: "string \<Rightarrow> IP option" where
  "ParseAddr s =
     (case filter (\<lambda>c. c \<in> {CHR ''.'', CHR '':'', CHR ''%''}) s of
        [] \<Rightarrow> None
      | c # _ \<Rightarrow> if c = CHR ''.'' then parseIPv4 s else if c = CHR '':'' then parseIPv6 s else None)"

definition As16 :: "IP \<Rightarrow> IP" where
  "As16 ip = (if length ip = 4 then v4InV6Prefix @ ip else ip)"

definition ParseIP :: "string \<Rightarrow> IP option" where
  "ParseIP s = map_option As16 (ParseAddr s)"

section \<open>Networks\<close>

record IPNet =
  net_IP :: IP
  net_Mask :: IP

text \<open>\<^verbatim>\<open>net.CIDRMask\<close>: that many one bits from the left.\<close>

definition mask_byte :: "nat \<Rightarrow> 8 word" where
  "mask_byte n = (if n \<ge> 8 then 0xFF else NOT (drop_bit n 0xFF))"

definition CIDRMask :: "nat \<Rightarrow> nat \<Rightarrow> IP" where
  "CIDRMask ones bits = map (\<lambda>i. mask_byte (ones - 8 * i)) [0..<bits div 8]"

definition ip_Mask :: "IP \<Rightarrow> IP \<Rightarrow> IP" where
  "ip_Mask ip msk =
     (let ip1 = (if length msk = 4 \<and> length ip = 16 \<and> take 12 ip = v4InV6Prefix then drop 12 ip
                 else ip)
      in if length ip1 = length msk then map2 (AND) ip1 msk else [])"

definition ParseCIDR :: "string \<Rightarrow> IPNet option" where
  "ParseCIDR s =
     (case split2 (CHR ''/'') s of
        None \<Rightarrow> None
      | Some (addr, msk) \<Rightarrow>
          (case ParseAddr addr of
             None \<Rightarrow> None
           | Some ip \<Rightarrow>
               if msk = [] then None
               else (case parse_digits 0 msk of
                  None \<Rightarrow> None
                | Some n \<Rightarrow>
                    let bits = 8 * length ip in
                    if n > int bits then None
                    else Some \<lparr>net_IP = ip_Mask (As16 ip) (CIDRMask (nat n) bits),
                               net_Mask = CIDRMask (nat n) bits\<rparr>)))"

text \<open>\<^verbatim>\<open>IPNet.Contains\<close> with \<^verbatim>\<open>networkNumberAndMask\<close>; \<open>[]\<close> is Go's nil number.\<close>

definition net_number :: "IPNet \<Rightarrow> IP \<times> IP" where
  "net_number n =
     (let ip = (case To4 (net_IP n) of
                  Some ip4 \<Rightarrow> ip4
                | None \<Rightarrow> if length (net_IP n) = 16 then net_IP n else [])
      in if ip = [] then ([], [])
         else if length (net_Mask n) = 4 then (if length ip = 4 then (ip, net_Mask n) else ([], []))
         else if length (net_Mask n) = 16 then
           (if length ip = 4 then (ip, drop 12 (net_Mask n)) else (ip, net_Mask n))
         else ([], []))"

definition net_Contains :: "IPNet \<Rightarrow> IP \<Rightarrow> bool" where
  "net_Contains n ip =
     (let (nn, m) = net_number n;
          x = (case To4 ip of Some ip4 \<Rightarrow> ip4 | None \<Rightarrow> ip)
      in length x = length nn \<and> (\<forall>i<length x. nn ! i AND m ! i = x ! i AND m ! i))"

section \<open>Printing addresses\<close>

definition hex_char :: "nat \<Rightarrow> char" where
  "hex_char n = char_of (if n < 10 then 48 + n else 87 + n)"

fun show_hex :: "nat \<Rightarrow> string" where
  "show_hex n = (if n < 16 then [hex_char n] else show_hex (n div 16) @ [hex_char (n mod 16)])"

declare show_hex.simps [simp del]

definition groups16 :: "IP \<Rightarrow> nat list" where
  "groups16 ip = map (\<lambda>i. unat (ip ! (2 * i)) * 256 + unat (ip ! (2 * i + 1))) [0..<8]"

text \<open>The longest run of at least two zero groups, the first of the longest.\<close>

definition zero_run :: "nat list \<Rightarrow> nat \<Rightarrow> nat" where
  "zero_run gs i = length (takeWhile (\<lambda>g. g = 0) (drop i gs))"

definition better_run :: "nat list \<Rightarrow> nat \<Rightarrow> (nat \<times> nat) option \<Rightarrow> (nat \<times> nat) option" where
  "better_run gs i best =
     (let l = zero_run gs i;
          best_len = (case best of None \<Rightarrow> 0 | Some (_, n) \<Rightarrow> n)
      in if l \<ge> 2 \<and> l > best_len then Some (i, l) else best)"

definition show_groups :: "nat list \<Rightarrow> string" where
  "show_groups gs =
     (case fold (better_run gs) [0..<length gs] None of
        None \<Rightarrow> join '':'' (map show_hex gs)
      | Some (i, l) \<Rightarrow>
          join '':'' (map show_hex (take i gs)) @ ''::'' @ join '':'' (map show_hex (drop (i + l) gs)))"

definition IP_String :: "IP \<Rightarrow> string" where
  "IP_String ip =
     (case To4 ip of
        Some ip4 \<Rightarrow> join ''.'' (map (\<lambda>b. show_nat (unat b)) ip4)
      | None \<Rightarrow> show_groups (groups16 ip))"

end
