(* ===== verification/Controller.thy ===== *)
theory Controller
  imports Panel UserDiff Go_Net
begin

text \<open>
  The node controller, \<^verbatim>\<open>main.go\<close>: the panel snapshot with its cache file, the two
  periodic tasks that poll the panel and report to it, and the log formatter.  The
  engine is used through the interface \<^verbatim>\<open>Server\<close> of \<^verbatim>\<open>internal/server/server.go\<close>, a record
  of its methods here.

  The panel's replies, the JSON decoders and the file system's errors are arguments.  The
  texts of errors are shortened where they quote values.
\<close>

section \<open>The engine interface\<close>

record 's Server =
  sv_Start :: "'s \<Rightarrow> string option \<times> 's"
  sv_Close :: "'s \<Rightarrow> 's"
  sv_SetAliveList :: "(int \<rightharpoonup> int) \<Rightarrow> 's \<Rightarrow> 's"
  sv_UpdateUsers ::
    "UserInfo list \<Rightarrow> UserInfo list \<Rightarrow> UserInfo list \<Rightarrow> UserInfo list option \<Rightarrow> 's \<Rightarrow> 's"
  sv_GetUserTrafficSlice :: "int \<Rightarrow> 's \<Rightarrow> UserTraffic list"
  sv_ConfirmUserTraffic :: "UserTraffic list \<Rightarrow> 's \<Rightarrow> 's"
  sv_GetOnlineDevice :: "'s \<Rightarrow> OnlineUser list \<times> 's"

section \<open>State\<close>

record panelSnapshot =
  sn_APIHost :: string
  sn_NodeID :: int
  sn_Node :: "NodeInfo option"
  sn_Users :: "UserInfo list"
  sn_Alive :: "int \<rightharpoonup> int"
  sn_SavedAt :: int

text \<open>The cache file and the temporary file it is written to first.\<close>

record cache_files =
  fs_cache :: "string option"
  fs_tmp :: "string option"

text \<open>\<open>ct_reload\<close>: the reload channel, of capacity one, holds a request.\<close>

record 's Controller =
  ct_client :: Client
  ct_conf :: NodeConfig
  ct_runtime :: RuntimeConfig
  ct_info :: "NodeInfo option"
  ct_server :: 's
  ct_tag :: string
  ct_userList :: "UserInfo list"
  ct_aliveList :: "int \<rightharpoonup> int"
  ct_reload :: bool
  ct_files :: cache_files

definition cloneUserList :: "UserInfo list option \<Rightarrow> UserInfo list" where
  "cloneUserList us = (case us of None \<Rightarrow> [] | Some users \<Rightarrow> users)"

definition cloneAliveList :: "(int \<rightharpoonup> int) \<Rightarrow> (int \<rightharpoonup> int)" where
  "cloneAliveList alive = range_update (\<lambda>uid count. Some count) alive"

text \<open>What the panel answers to the three requests, and the decoders.\<close>

record panel_env =
  pe_sha256hex :: "string \<Rightarrow> string"
  pe_decode_node :: "string \<Rightarrow> string + NodeInfo"
  pe_get_node :: "string \<Rightarrow> reply"
  pe_decode_msgpack :: "string \<Rightarrow> string + UserInfo list option"
  pe_decode_users :: "string \<Rightarrow> string + UserInfo list option"
  pe_get_users :: "string \<Rightarrow> reply"
  pe_decode_alive :: "string \<Rightarrow> string + (int \<rightharpoonup> int) option"
  pe_get_alive :: reply

definition ask_node :: "panel_env \<Rightarrow> Client \<Rightarrow> (panel_error + NodeInfo option) \<times> Client" where
  "ask_node env c = GetNodeInfo (pe_sha256hex env) (pe_decode_node env) (pe_get_node env) c"

definition ask_users :: "panel_env \<Rightarrow> Client \<Rightarrow> (panel_error + UserInfo list option) \<times> Client" where
  "ask_users env c = GetUserList (pe_decode_msgpack env) (pe_decode_users env) (pe_get_users env) c"

definition ask_alive :: "panel_env \<Rightarrow> panel_error + (int \<rightharpoonup> int)" where
  "ask_alive env = GetUserAlive (pe_decode_alive env) (pe_get_alive env)"

section \<open>The snapshot\<close>

definition panelSnapshotPath :: "RuntimeConfig \<Rightarrow> NodeConfig \<Rightarrow> string" where
  "panelSnapshotPath runtime conf =
     path_Join [rc_WorkingDir runtime, ''node-'' @ Itoa (nc_NodeID conf), ''panel-cache.json'']"

definition fetchPanelSnapshot :: "panel_env \<Rightarrow> Client \<Rightarrow> (panel_error + panelSnapshot) \<times> Client" where
  "fetchPanelSnapshot env c =
     (case ask_node env c of
        (Inl err, c1) \<Rightarrow> (Inl (Wrapped ''get node info error: '' err), c1)
      | (Inr None, c1) \<Rightarrow> (Inl (OtherError ''empty node info''), c1)
      | (Inr (Some node), c1) \<Rightarrow>
          if ni_Protocol node \<noteq> ''naive''
          then (Inl (OtherError (''node '' @ Itoa (ni_Id node) @ '' protocol is '' @ ni_Protocol node
                 @ '', not naive'')), c1)
          else (case ask_users env c1 of
             (Inl err, c2) \<Rightarrow> (Inl (Wrapped ''get user list error: '' err), c2)
           | (Inr None, c2) \<Rightarrow> (Inl (OtherError ''empty user list''), c2)
           | (Inr (Some users), c2) \<Rightarrow>
               (case ask_alive env of
                  Inl err \<Rightarrow> (Inl (Wrapped ''get user alive error: '' err), c2)
                | Inr alive \<Rightarrow>
                    (Inr \<lparr>sn_APIHost = [], sn_NodeID = 0, sn_Node = Some node,
                          sn_Users = cloneUserList (Some users), sn_Alive = cloneAliveList alive,
                          sn_SavedAt = 0\<rparr>, c2))))"

text \<open>
  How saving may go: the encoder, the errors of making the directory, of writing the
  temporary file (with what it left there) and of renaming it, and the time.
\<close>

record save_env =
  se_marshal :: "panelSnapshot \<Rightarrow> string + string"
  se_mkdir :: "string option"
  se_write :: "(string \<times> string) option"
  se_rename :: "string option"
  se_now :: int

text \<open>The result is the error, the snapshot (its node is normalised in place) and the files.\<close>

definition savePanelSnapshot ::
  "save_env \<Rightarrow> Client \<Rightarrow> NodeConfig \<Rightarrow> panelSnapshot option \<Rightarrow> cache_files \<Rightarrow>
     panel_error option \<times> panelSnapshot option \<times> cache_files" where
  "savePanelSnapshot env client conf snapshot fs =
     (case snapshot of
        None \<Rightarrow> (Some (OtherError ''empty panel snapshot''), None, fs)
      | Some sn \<Rightarrow>
          (case sn_Node sn of
             None \<Rightarrow> (Some (OtherError ''empty panel snapshot''), Some sn, fs)
           | Some node \<Rightarrow>
               (case Normalize (nc_NodeID conf) (cl_APIHost client) node of
                  Inl err \<Rightarrow> (Some err, Some sn, fs)
                | Inr node1 \<Rightarrow>
                    let sn1 = sn\<lparr>sn_Node := Some node1\<rparr>;
                        toSave = \<lparr>sn_APIHost = cl_APIHost client, sn_NodeID = nc_NodeID conf,
                                  sn_Node = Some node1, sn_Users = cloneUserList (Some (sn_Users sn)),
                                  sn_Alive = cloneAliveList (sn_Alive sn), sn_SavedAt = se_now env\<rparr>
                    in (case se_marshal env toSave of
                          Inl err \<Rightarrow> (Some (OtherError err), Some sn1, fs)
                        | Inr body \<Rightarrow>
                            (case se_mkdir env of
                               Some err \<Rightarrow> (Some (OtherError err), Some sn1, fs)
                             | None \<Rightarrow>
                                 (case se_write env of
                                    Some (err, partial) \<Rightarrow>
                                      (Some (OtherError err), Some sn1, fs\<lparr>fs_tmp := Some partial\<rparr>)
                                  | None \<Rightarrow>
                                      (case se_rename env of
                                         Some err \<Rightarrow>
                                           (Some (OtherError err), Some sn1, fs\<lparr>fs_tmp := Some body\<rparr>)
                                       | None \<Rightarrow>
                                           (None, Some sn1,
                                            fs\<lparr>fs_cache := Some body, fs_tmp := None\<rparr>))))))))"

definition readPanelSnapshot ::
  "(string \<Rightarrow> string + panelSnapshot) \<Rightarrow> Client \<Rightarrow> NodeConfig \<Rightarrow> cache_files \<Rightarrow>
     panel_error + panelSnapshot" where
  "readPanelSnapshot unmarshal client conf fs =
     (case fs_cache fs of
        None \<Rightarrow> Inl (OtherError ''no such file'')
      | Some body \<Rightarrow>
          (case unmarshal body of
             Inl err \<Rightarrow> Inl (OtherError err)
           | Inr sn \<Rightarrow>
               (case sn_Node sn of
                  None \<Rightarrow> Inl (OtherError ''cached node info is empty'')
                | Some node \<Rightarrow>
                    if sn_APIHost sn \<noteq> [] \<and> sn_APIHost sn \<noteq> cl_APIHost client
                    then Inl (OtherError ''cached api host does not match'')
                    else if sn_NodeID sn \<noteq> 0 \<and> sn_NodeID sn \<noteq> nc_NodeID conf
                    then Inl (OtherError ''cached node id does not match'')
                    else (case Normalize (nc_NodeID conf) (cl_APIHost client) node of
                       Inl err \<Rightarrow> Inl err
                     | Inr node1 \<Rightarrow>
                         Inr (sn\<lparr>sn_Node := Some node1, sn_Users := cloneUserList (Some (sn_Users sn)),
                                 sn_Alive := cloneAliveList (sn_Alive sn)\<rparr>)))))"

text \<open>At start: the panel's snapshot, or the cached one unless the panel refused the token.\<close>

definition startupPanelSnapshot ::
  "panel_env \<Rightarrow> save_env \<Rightarrow> (string \<Rightarrow> string + panelSnapshot) \<Rightarrow> NodeConfig \<Rightarrow> Client \<Rightarrow> cache_files \<Rightarrow>
     (panel_error + panelSnapshot) \<times> Client \<times> cache_files" where
  "startupPanelSnapshot env senv unmarshal conf client fs =
     (case fetchPanelSnapshot env client of
        (Inr snapshot, c1) \<Rightarrow>
          (case savePanelSnapshot senv c1 conf (Some snapshot) fs of
             (err, snapshot1, fs1) \<Rightarrow> (Inr (the snapshot1), c1, fs1))
      | (Inl err, c1) \<Rightarrow>
          if IsAuthStatusError err then (Inl err, c1, fs)
          else (case readPanelSnapshot unmarshal c1 conf fs of
             Inl cacheErr \<Rightarrow> (Inl (Wrapped ''fetch panel snapshot failed: '' err), c1, fs)
           | Inr cached \<Rightarrow> (Inr cached, c1, fs)))"

section \<open>Starting\<close>

text \<open>
  \<^verbatim>\<open>Start\<close>: \<open>request_cert\<close> is the certificate request's error, \<open>new_server\<close> is server.New.  The
  engine's own result of starting decides; on an error the half-made controller is dropped.
\<close>

definition controller_Start ::
  "panel_env \<Rightarrow> save_env \<Rightarrow> (string \<Rightarrow> string + panelSnapshot) \<Rightarrow> (CertInfo \<Rightarrow> string option) \<Rightarrow>
     's Server \<Rightarrow> (NodeInfo \<Rightarrow> UserInfo list \<Rightarrow> (int \<rightharpoonup> int) \<Rightarrow> RuntimeConfig \<Rightarrow> string + 's) \<Rightarrow>
     NodeConfig \<Rightarrow> RuntimeConfig \<Rightarrow> Client \<Rightarrow> cache_files \<Rightarrow> panel_error + 's Controller" where
  "controller_Start env senv unmarshal request_cert srv new_server conf runtime client fs =
     (case startupPanelSnapshot env senv unmarshal conf client fs of
        (Inl err, _, _) \<Rightarrow> Inl err
      | (Inr snapshot, c1, fs1) \<Rightarrow>
          let node = the (sn_Node snapshot);
              users = cloneUserList (Some (sn_Users snapshot));
              aliveMap = cloneAliveList (sn_Alive snapshot) in
          (case ni_CertInfo node of
             None \<Rightarrow> Inl (OtherError ''cert info is nil'')
           | Some cert \<Rightarrow>
               (case request_cert cert of
                  Some err \<Rightarrow> Inl (Wrapped ''request cert error: '' (OtherError err))
                | None \<Rightarrow>
                    (case new_server node users aliveMap runtime of
                       Inl err \<Rightarrow> Inl (Wrapped ''create runtime server error: '' (OtherError err))
                     | Inr server \<Rightarrow>
                         (case sv_Start srv server of
                            (Some err, _) \<Rightarrow> Inl (Wrapped ''start v2naive server error: '' (OtherError err))
                          | (None, server1) \<Rightarrow>
                              Inr \<lparr>ct_client = c1, ct_conf = conf, ct_runtime = runtime,
                                   ct_info = Some node, ct_server = server1, ct_tag = ni_Tag node,
                                   ct_userList = users, ct_aliveList = cloneAliveList aliveMap,
                                   ct_reload = False, ct_files = fs1\<rparr>)))))"

section \<open>Polling the panel\<close>

definition triggerReload :: "'s Controller \<Rightarrow> 's Controller" where
  "triggerReload c = c\<lparr>ct_reload := True\<rparr>"

definition saveCurrentPanelSnapshot :: "save_env \<Rightarrow> 's Controller \<Rightarrow> 's Controller" where
  "saveCurrentPanelSnapshot senv c =
     (case ct_info c of
        None \<Rightarrow> c
      | Some info \<Rightarrow>
          (case savePanelSnapshot senv (ct_client c) (ct_conf c)
                  (Some \<lparr>sn_APIHost = [], sn_NodeID = 0, sn_Node = Some info,
                         sn_Users = ct_userList c, sn_Alive = ct_aliveList c, sn_SavedAt = 0\<rparr>)
                  (ct_files c) of
             (err, sn1, fs1) \<Rightarrow> c\<lparr>ct_info := sn_Node (the sn1), ct_files := fs1\<rparr>))"

text \<open>An error the task returns; any other is only logged.\<close>

definition ctx_result :: "panel_error \<Rightarrow> panel_error option" where
  "ctx_result err = (if is_ctx_error err then Some err else None)"

definition nodeInfoMonitor ::
  "'s Server \<Rightarrow> ((string \<rightharpoonup> UserInfo) \<Rightarrow> string list) \<Rightarrow> panel_env \<Rightarrow> save_env \<Rightarrow> 's Controller \<Rightarrow>
     panel_error option \<times> 's Controller" where
  "nodeInfoMonitor srv order env senv c0 =
     (case ask_node env (ct_client c0) of
        (Inl err, cl1) \<Rightarrow> (ctx_result err, c0\<lparr>ct_client := cl1\<rparr>)
      | (Inr (Some newInfo), cl1) \<Rightarrow>
          let c1 = c0\<lparr>ct_client := cl1\<rparr> in
          (case savePanelSnapshot senv cl1 (ct_conf c1)
                  (Some \<lparr>sn_APIHost = [], sn_NodeID = 0, sn_Node = Some newInfo,
                         sn_Users = ct_userList c1, sn_Alive = ct_aliveList c1, sn_SavedAt = 0\<rparr>)
                  (ct_files c1) of
             (err, sn1, fs1) \<Rightarrow> (None, triggerReload (c1\<lparr>ct_files := fs1\<rparr>)))
      | (Inr None, cl1) \<Rightarrow>
          (case ask_users env cl1 of
             (Inl err, cl2) \<Rightarrow> (ctx_result err, c0\<lparr>ct_client := cl2\<rparr>)
           | (Inr newUsers, cl2) \<Rightarrow>
               let c2 = c0\<lparr>ct_client := cl2\<rparr> in
               (case ask_alive env of
                  Inl err \<Rightarrow> (ctx_result err, c2)
                | Inr newAlive \<Rightarrow>
                    let c3 = c2\<lparr>ct_aliveList := cloneAliveList newAlive,
                                ct_server := sv_SetAliveList srv newAlive (ct_server c2)\<rparr> in
                    (case newUsers of
                       None \<Rightarrow> (None, saveCurrentPanelSnapshot senv c3)
                     | Some users \<Rightarrow>
                         (case compareUserList order (ct_userList c3) users of
                            (deleted, added, modified) \<Rightarrow>
                              let c4 = (if length added > 0 \<or> length deleted > 0 \<or> length modified > 0
                                        then c3\<lparr>ct_server := sv_UpdateUsers srv added deleted modified
                                                   (Some users) (ct_server c3),
                                                ct_userList := cloneUserList (Some users)\<rparr>
                                        else c3)
                              in (None, saveCurrentPanelSnapshot senv c4))))))"

section \<open>Reporting\<close>

text \<open>The user ids whose traffic is too low to count their devices.\<close>

definition noCountUID :: "int \<Rightarrow> UserTraffic list \<Rightarrow> int set" where
  "noCountUID deviceMin userTraffic =
     ut_UID ` set (filter (\<lambda>t. wrap64 (ut_Upload t + ut_Download t) < wrap64 (deviceMin * 1000)) userTraffic)"

definition count_device :: "int set \<Rightarrow> OnlineUser \<Rightarrow> (int \<rightharpoonup> string list) \<Rightarrow> (int \<rightharpoonup> string list)" where
  "count_device skip device data =
     (if ou_UID device \<in> skip then data
      else data(ou_UID device \<mapsto> map_get [] data (ou_UID device) @ [ou_IP device]))"

definition reportData :: "int set \<Rightarrow> OnlineUser list \<Rightarrow> (int \<rightharpoonup> string list)" where
  "reportData skip devices = fold (count_device skip) devices Map.empty"

definition reportUserTrafficTask ::
  "'s Server \<Rightarrow> ((int \<rightharpoonup> int \<times> int) \<Rightarrow> reply) \<Rightarrow> ((int \<rightharpoonup> string list) \<Rightarrow> reply) \<Rightarrow> 's Controller \<Rightarrow>
     panel_error option \<times> 's Controller" where
  "reportUserTrafficTask srv post_traffic post_online c =
     (let reportMin = (case ct_info c of None \<Rightarrow> 0 | Some info \<Rightarrow> bc_NodeReportMinTraffic (ni_BaseConfig info));
          deviceMin = (case ct_info c of None \<Rightarrow> 0 | Some info \<Rightarrow> bc_DeviceOnlineMinTraffic (ni_BaseConfig info));
          userTraffic = sv_GetUserTrafficSlice srv reportMin (ct_server c);
          (failed, c1) =
            (if length userTraffic > 0 then
               (case ReportUserTraffic post_traffic userTraffic of
                  Some err \<Rightarrow> (ctx_result err, c)
                | None \<Rightarrow> (None, c\<lparr>ct_server := sv_ConfirmUserTraffic srv userTraffic (ct_server c)\<rparr>))
             else (None, c))
      in case failed of
           Some err \<Rightarrow> (Some err, c1)
         | None \<Rightarrow>
             let (onlineDevice, server2) = sv_GetOnlineDevice srv (ct_server c1);
                 c2 = c1\<lparr>ct_server := server2\<rparr>
             in if length onlineDevice = 0 then (None, c2)
                else
                  let data = reportData (noCountUID deviceMin userTraffic) onlineDevice
                  in if data = Map.empty then (None, c2)
                     else (case ReportNodeOnlineUsers post_online data of
                             Some err \<Rightarrow> (ctx_result err, c2)
                           | None \<Rightarrow> (None, c2)))"

section \<open>The log\<close>

definition upper_ascii :: "string \<Rightarrow> string" where
  "upper_ascii s = map (\<lambda>c. let n = of_char c :: nat in if 97 \<le> n \<and> n \<le> 122 then char_of (n - 32) else c) s"

text \<open>\<open>quote\<close> is \<^verbatim>\<open>strconv.Quote\<close>; the value comes as its printed text.\<close>

definition compactLogValue :: "(string \<Rightarrow> string) \<Rightarrow> string \<Rightarrow> string" where
  "compactLogValue quote txt =
     (if txt = [] then quote txt
      else if \<exists>c\<in>set txt. c \<in> {CHR '' '', CHR 0x09, CHR 0x0D, CHR 0x0A, CHR 0x22} then quote txt
      else txt)"

text \<open>\<open>time\<close> is the formatted time, \<open>level\<close> the level's name, \<open>data\<close> the fields sorted by key.\<close>

definition compactFormat ::
  "(string \<Rightarrow> string) \<Rightarrow> string \<Rightarrow> string \<Rightarrow> string \<Rightarrow> (string \<times> string) list \<Rightarrow> string" where
  "compactFormat quote time level message data =
     time @ '' '' @
     (if HasPrefix message ''| '' then message @ [CHR 0x0A]
      else ''['' @ upper_ascii level @ ''] '' @ message
           @ concat (map (\<lambda>(key, value). '' '' @ key @ ''='' @ compactLogValue quote value) data)
           @ [CHR 0x0A])"

end
