(* ===== verification/Traffic.thy ===== *)
theory Traffic
  imports Panel
begin

text \<open>
  The per-user traffic counter of the Caddy engine (\<^verbatim>\<open>trafficCounter\<close> in
  \<^verbatim>\<open>internal/caddyproc/server.go\<close>): adding, taking a snapshot for a report, and
  confirming what the panel has accepted.
\<close>

section \<open>Operations\<close>

record trafficCounter =
  tc_uid :: int
  tc_up :: int
  tc_down :: int

definition tc_add :: "int \<Rightarrow> int \<Rightarrow> trafficCounter \<Rightarrow> trafficCounter" where
  "tc_add upload download t =
     (if upload \<le> 0 \<and> download \<le> 0 then t
      else t\<lparr>tc_up := wrap64 (tc_up t + upload), tc_down := wrap64 (tc_down t + download)\<rparr>)"

definition setUID :: "int \<Rightarrow> trafficCounter \<Rightarrow> trafficCounter" where
  "setUID uid t = (if uid \<le> 0 then t else t\<lparr>tc_uid := uid\<rparr>)"

definition snapshotIfAbove :: "int \<Rightarrow> trafficCounter \<Rightarrow> UserTraffic option" where
  "snapshotIfAbove minTraffic t =
     (let threshold = wrap64 (minTraffic * 1000) in
      if wrap64 (tc_up t + tc_down t) \<le> threshold then None
      else Some \<lparr>ut_UID = tc_uid t, ut_Upload = tc_up t, ut_Download = tc_down t, ut_UUID = []\<rparr>)"

definition subtractReported :: "int \<Rightarrow> int \<Rightarrow> int" where
  "subtractReported current reported =
     (if reported \<le> 0 then current
      else if current \<le> reported then 0
      else wrap64 (current - reported))"

definition tc_confirm :: "UserTraffic \<Rightarrow> trafficCounter \<Rightarrow> trafficCounter" where
  "tc_confirm reported t =
     t\<lparr>tc_up := subtractReported (tc_up t) (ut_Upload reported),
       tc_down := subtractReported (tc_down t) (ut_Download reported)\<rparr>"

definition hasPending :: "trafficCounter \<Rightarrow> bool" where
  "hasPending t \<longleftrightarrow> tc_up t > 0 \<or> tc_down t > 0"

definition currentUID :: "trafficCounter \<Rightarrow> int" where
  "currentUID t = tc_uid t"

text \<open>The accepted report, indexed by uuid, and by user id where it carries no uuid.\<close>

definition zero_traffic :: UserTraffic where
  "zero_traffic = \<lparr>ut_UID = 0, ut_Upload = 0, ut_Download = 0, ut_UUID = []\<rparr>"

definition index_traffic ::
  "UserTraffic \<Rightarrow> (string \<rightharpoonup> UserTraffic) \<times> (int \<rightharpoonup> UserTraffic) \<Rightarrow>
     (string \<rightharpoonup> UserTraffic) \<times> (int \<rightharpoonup> UserTraffic)" where
  "index_traffic traffic idx =
     (case idx of (byUUID, byUID) \<Rightarrow>
        if ut_UUID traffic \<noteq> [] then
          let merged = map_get zero_traffic byUUID (ut_UUID traffic)
          in (byUUID(ut_UUID traffic \<mapsto>
                merged\<lparr>ut_UID := ut_UID traffic, ut_UUID := ut_UUID traffic,
                       ut_Upload := wrap64 (ut_Upload merged + ut_Upload traffic),
                       ut_Download := wrap64 (ut_Download merged + ut_Download traffic)\<rparr>), byUID)
        else
          let merged = map_get zero_traffic byUID (ut_UID traffic)
          in (byUUID, byUID(ut_UID traffic \<mapsto>
                merged\<lparr>ut_UID := ut_UID traffic,
                       ut_Upload := wrap64 (ut_Upload merged + ut_Upload traffic),
                       ut_Download := wrap64 (ut_Download merged + ut_Download traffic)\<rparr>)))"

definition indexReportedTraffic ::
  "UserTraffic list \<Rightarrow> (string \<rightharpoonup> UserTraffic) \<times> (int \<rightharpoonup> UserTraffic)" where
  "indexReportedTraffic reported = fold index_traffic reported (Map.empty, Map.empty)"

section \<open>Counters in range\<close>

text \<open>Counters hold byte counts: never negative, within 64 bits.\<close>

definition counter_ok :: "trafficCounter \<Rightarrow> bool" where
  "counter_ok t \<longleftrightarrow> 0 \<le> tc_up t \<and> tc_up t < 2 ^ 63 \<and> 0 \<le> tc_down t \<and> tc_down t < 2 ^ 63"

lemma hasPending_iff: "counter_ok t \<Longrightarrow> hasPending t \<longleftrightarrow> \<not> (tc_up t = 0 \<and> tc_down t = 0)"
  by (auto simp: counter_ok_def hasPending_def)

lemma setUID_sel [simp]: "tc_up (setUID uid t) = tc_up t" "tc_down (setUID uid t) = tc_down t"
  by (simp_all add: setUID_def)

lemma setUID_ok [simp]: "counter_ok (setUID uid t) = counter_ok t"
  by (simp add: counter_ok_def)

lemma setUID_pending [simp]: "hasPending (setUID uid t) = hasPending t"
  by (simp add: hasPending_def)

lemma tc_add_uid [simp]: "tc_uid (tc_add u d t) = tc_uid t"
  by (simp add: tc_add_def)

lemma tc_add_exact:
  assumes "counter_ok t" and "0 \<le> u" and "0 \<le> d" and "tc_up t + u < 2 ^ 63" and "tc_down t + d < 2 ^ 63"
  shows "tc_up (tc_add u d t) = tc_up t + u" and "tc_down (tc_add u d t) = tc_down t + d"
    and "counter_ok (tc_add u d t)"
  using assms by (auto simp: tc_add_def counter_ok_def wrap64_id in64_def)

lemma subtractReported_exact:
  assumes "0 \<le> r" and "r \<le> c" and "c < 2 ^ 63"
  shows "subtractReported c r = c - r"
  using assms by (auto simp: subtractReported_def wrap64_id in64_def)

lemma subtractReported_bounds:
  assumes "0 \<le> c" and "c < 2 ^ 63"
  shows "0 \<le> subtractReported c r \<and> subtractReported c r \<le> c"
  using assms by (auto simp: subtractReported_def wrap64_id in64_def)

lemma tc_confirm_ok: "counter_ok t \<Longrightarrow> counter_ok (tc_confirm r t)"
  using subtractReported_bounds [of "tc_up t" "ut_Upload r"]
    subtractReported_bounds [of "tc_down t" "ut_Download r"]
  by (auto simp: counter_ok_def tc_confirm_def)

lemma snapshot_Some:
  "snapshotIfAbove m t = Some r \<Longrightarrow>
     ut_Upload r = tc_up t \<and> ut_Download r = tc_down t \<and> ut_UID r = tc_uid t \<and> ut_UUID r = []"
  by (auto simp: snapshotIfAbove_def Let_def split: if_splits)

section \<open>The index of a report\<close>

lemma fold_index_uuid:
  assumes "distinct (map ut_UUID ts)" and "\<forall>t\<in>set ts. ut_UUID t \<noteq> []"
    and "\<forall>t\<in>set ts. in64 (ut_Upload t) \<and> in64 (ut_Download t)"
    and "\<forall>t\<in>set ts. fst idx (ut_UUID t) = None"
  shows "fold index_traffic ts idx =
     (\<lambda>uuid. (case find (\<lambda>t. ut_UUID t = uuid) ts of None \<Rightarrow> fst idx uuid | Some t \<Rightarrow> Some t), snd idx)"
  using assms
proof (induction ts arbitrary: idx)
  case Nil
  then show ?case by simp
next
  case (Cons t ts)
  obtain byUUID byUID where idx: "idx = (byUUID, byUID)" by (cases idx)
  have one: "index_traffic t idx = (byUUID(ut_UUID t \<mapsto> t), byUID)"
    using Cons.prems
    by (cases t) (simp add: index_traffic_def idx Let_def map_get_def zero_traffic_def wrap64_id)
  have pre: "distinct (map ut_UUID ts)" "\<forall>t\<in>set ts. ut_UUID t \<noteq> []"
    "\<forall>t\<in>set ts. in64 (ut_Upload t) \<and> in64 (ut_Download t)"
    "\<forall>t'\<in>set ts. fst (byUUID(ut_UUID t \<mapsto> t), byUID) (ut_UUID t') = None"
    using Cons.prems by (auto simp: idx image_iff)
  have "find (\<lambda>t'. ut_UUID t' = ut_UUID t) ts = None"
    using Cons.prems(1) by (force simp: find_None_iff image_iff)
  moreover have "fold index_traffic (t # ts) idx = fold index_traffic ts (byUUID(ut_UUID t \<mapsto> t), byUID)"
    by (simp add: one)
  ultimately show ?case
    unfolding Cons.IH [OF pre] by (auto simp: idx fun_eq_iff split: option.split)
qed

lemma find_distinct:
  "distinct (map f xs) \<Longrightarrow> x \<in> set xs \<Longrightarrow> find (\<lambda>y. f y = f x) xs = Some x"
  by (induction xs) (auto simp: image_iff)

lemma find_Some_mem: "find P xs = Some x \<Longrightarrow> x \<in> set xs \<and> P x"
  by (auto simp: find_Some_iff)

end
