(* ===== verification/CaddyProc.thy ===== *)
theory CaddyProc
  imports Limiter Traffic Conf Go_Net
begin

text \<open>
  The Caddy engine's bookkeeping, \<^verbatim>\<open>internal/caddyproc/server.go\<close>: the user table, the
  traffic counters, the open tunnels per user and address, the events the Caddy process
  prints, and the two local HTTP endpoints (authorize, release) it calls back.

  Decoding a JSON text is an argument (\<open>decode\<close>); the log entries a handler writes are part
  of its result.  The process itself (start, stop, waiting for readiness) is not here.
\<close>

section \<open>State\<close>

record CaddyServer =
  cs_node :: NodeInfo
  cs_runtime :: RuntimeConfig
  cs_adminAddr :: string
  cs_configPath :: string
  cs_workDir :: string
  cs_users :: "string \<rightharpoonup> UserInfo"
  cs_userIDs :: "string \<rightharpoonup> int"
  cs_stats :: "string \<rightharpoonup> trafficCounter"
  cs_online :: "string \<rightharpoonup> (string \<rightharpoonup> int)"
  cs_limiter :: Limiter

section \<open>Users\<close>

definition userByUUID :: "string \<Rightarrow> CaddyServer \<Rightarrow> UserInfo" where
  "userByUUID uuid s = map_get zero_user (cs_users s) uuid"

definition userIDByUUID :: "string \<Rightarrow> CaddyServer \<Rightarrow> int" where
  "userIDByUUID uuid s =
     (if ui_Id (map_get zero_user (cs_users s) uuid) > 0
      then ui_Id (map_get zero_user (cs_users s) uuid)
      else map_get 0 (cs_userIDs s) uuid)"

definition hasActiveUser :: "string \<Rightarrow> CaddyServer \<Rightarrow> bool" where
  "hasActiveUser uuid s \<longleftrightarrow> cs_users s uuid \<noteq> None"

text \<open>The user table and the id cache, entered from a list.\<close>

definition enter_user :: "UserInfo \<Rightarrow> (string \<rightharpoonup> UserInfo) \<Rightarrow> (string \<rightharpoonup> UserInfo)" where
  "enter_user user users = users(ui_Uuid user \<mapsto> user)"

definition cache_id :: "UserInfo \<Rightarrow> (string \<rightharpoonup> int) \<Rightarrow> (string \<rightharpoonup> int)" where
  "cache_id user ids = (if ui_Id user > 0 then ids(ui_Uuid user \<mapsto> ui_Id user) else ids)"

text \<open>A user of the full list gets a counter, or an existing counter gets the user's id.\<close>

definition ensure_counter :: "UserInfo \<Rightarrow> (string \<rightharpoonup> trafficCounter) \<Rightarrow> (string \<rightharpoonup> trafficCounter)" where
  "ensure_counter user stats =
     (case stats (ui_Uuid user) of
        None \<Rightarrow> stats(ui_Uuid user \<mapsto> \<lparr>tc_uid = ui_Id user, tc_up = 0, tc_down = 0\<rparr>)
      | Some c \<Rightarrow> stats(ui_Uuid user \<mapsto> setUID (ui_Id user) c))"

definition replaceUsers :: "UserInfo list \<Rightarrow> CaddyServer \<Rightarrow> CaddyServer" where
  "replaceUsers users s =
     (let nextUsers = fold enter_user users Map.empty;
          ids = fold cache_id users (cs_userIDs s);
          kept = range_update
                   (\<lambda>uuid c. if nextUsers uuid = None \<and> \<not> hasPending c then None else Some c)
                   (cs_stats s);
          online1 = range_update
                   (\<lambda>uuid ips. if nextUsers uuid = None then None else Some ips) (cs_online s)
      in s\<lparr>cs_users := nextUsers, cs_userIDs := ids,
           cs_stats := fold ensure_counter users kept, cs_online := online1\<rparr>)"

definition caddy_New ::
  "NodeInfo \<Rightarrow> UserInfo list \<Rightarrow> (int \<rightharpoonup> int) \<Rightarrow> RuntimeConfig \<Rightarrow> CaddyServer" where
  "caddy_New node users alive runtime =
     (let adminPort = wrap64 (rc_AdminPortBase runtime + ni_Id node);
          workDir = path_Join [rc_WorkingDir runtime, ''node-'' @ Itoa (ni_Id node)]
      in replaceUsers users
           \<lparr>cs_node = node, cs_runtime = runtime, cs_adminAddr = ''127.0.0.1:'' @ Itoa adminPort,
            cs_configPath = path_Join [workDir, ''Caddyfile''], cs_workDir = workDir,
            cs_users = Map.empty, cs_userIDs = Map.empty, cs_stats = Map.empty,
            cs_online = Map.empty, cs_limiter = Limiter.New users alive\<rparr>)"

definition delta_delete :: "UserInfo \<Rightarrow> CaddyServer \<Rightarrow> CaddyServer" where
  "delta_delete user s =
     s\<lparr>cs_users := (cs_users s)(ui_Uuid user := None),
       cs_stats := (cs_stats s)(ui_Uuid user :=
         (case cs_stats s (ui_Uuid user) of
            None \<Rightarrow> None
          | Some stat \<Rightarrow>
              let stat1 = setUID (ui_Id user) stat
              in if \<not> hasPending stat1 then None else Some stat1)),
       cs_online := (cs_online s)(ui_Uuid user := None)\<rparr>"

definition delta_add :: "UserInfo \<Rightarrow> CaddyServer \<Rightarrow> CaddyServer" where
  "delta_add user s =
     s\<lparr>cs_users := enter_user user (cs_users s),
       cs_userIDs := cache_id user (cs_userIDs s),
       cs_stats := (case cs_stats s (ui_Uuid user) of
          None \<Rightarrow> (cs_stats s)(ui_Uuid user \<mapsto> \<lparr>tc_uid = ui_Id user, tc_up = 0, tc_down = 0\<rparr>)
        | Some _ \<Rightarrow> cs_stats s)\<rparr>"

definition delta_modify :: "UserInfo \<Rightarrow> CaddyServer \<Rightarrow> CaddyServer" where
  "delta_modify user s =
     s\<lparr>cs_users := enter_user user (cs_users s),
       cs_userIDs := cache_id user (cs_userIDs s),
       cs_stats := ensure_counter user (cs_stats s)\<rparr>"

definition applyUserDelta ::
  "UserInfo list \<Rightarrow> UserInfo list \<Rightarrow> UserInfo list \<Rightarrow> CaddyServer \<Rightarrow> CaddyServer" where
  "applyUserDelta added deleted modified s =
     fold delta_modify modified (fold delta_add added (fold delta_delete deleted s))"

text \<open>\<open>full\<close> is \<open>None\<close> for Go's nil slice.\<close>

definition caddy_UpdateUsers ::
  "UserInfo list \<Rightarrow> UserInfo list \<Rightarrow> UserInfo list \<Rightarrow> UserInfo list option \<Rightarrow> CaddyServer \<Rightarrow> CaddyServer" where
  "caddy_UpdateUsers added deleted modified full s =
     (let s1 = (case full of Some users \<Rightarrow> replaceUsers users s
                | None \<Rightarrow> applyUserDelta added deleted modified s)
      in s1\<lparr>cs_limiter := Limiter.UpdateUsers added deleted modified (cs_limiter s1)\<rparr>)"

definition caddy_SetAliveList :: "(int \<rightharpoonup> int) \<Rightarrow> CaddyServer \<Rightarrow> CaddyServer" where
  "caddy_SetAliveList alive s = s\<lparr>cs_limiter := SetAliveList alive (cs_limiter s)\<rparr>"

section \<open>Reports\<close>

text \<open>\<open>ks\<close> is the order in which the loop walks the counters.\<close>

definition slice_entry :: "int \<Rightarrow> (string \<rightharpoonup> trafficCounter) \<Rightarrow> string \<Rightarrow> UserTraffic list" where
  "slice_entry minTraffic stats uuid =
     (case stats uuid of
        None \<Rightarrow> []
      | Some counter \<Rightarrow>
          (case snapshotIfAbove minTraffic counter of
             None \<Rightarrow> []
           | Some snapshot \<Rightarrow> [snapshot\<lparr>ut_UUID := uuid\<rparr>]))"

definition caddy_GetUserTrafficSlice :: "string list \<Rightarrow> int \<Rightarrow> CaddyServer \<Rightarrow> UserTraffic list" where
  "caddy_GetUserTrafficSlice ks minTraffic s =
     concat (map (slice_entry minTraffic (cs_stats s)) ks)"

text \<open>What the loop of ConfirmUserTraffic does with one counter.\<close>

definition confirm_entry ::
  "(string \<rightharpoonup> UserTraffic) \<Rightarrow> (int \<rightharpoonup> UserTraffic) \<Rightarrow> (string \<rightharpoonup> UserInfo) \<Rightarrow> string \<Rightarrow>
     trafficCounter \<Rightarrow> trafficCounter option" where
  "confirm_entry byUUID byUID users uuid counter =
     (let counter1 =
            (case byUUID uuid of
               Some traffic \<Rightarrow> tc_confirm traffic counter
             | None \<Rightarrow>
                 (case byUID (currentUID counter) of
                    Some traffic \<Rightarrow> tc_confirm traffic counter
                  | None \<Rightarrow> counter))
      in if users uuid = None \<and> \<not> hasPending counter1 then None else Some counter1)"

definition caddy_ConfirmUserTraffic :: "UserTraffic list \<Rightarrow> CaddyServer \<Rightarrow> CaddyServer" where
  "caddy_ConfirmUserTraffic reported s =
     (if reported = [] then s
      else
        let (byUUID, byUID) = indexReportedTraffic reported
        in s\<lparr>cs_stats := range_update (confirm_entry byUUID byUID (cs_users s)) (cs_stats s)\<rparr>)"

text \<open>The addresses with open tunnels; \<open>ks\<close> and \<open>ips\<close> are the orders of the two loops.\<close>

definition online_entry :: "CaddyServer \<Rightarrow> (string \<Rightarrow> string list) \<Rightarrow> string \<Rightarrow> OnlineUser list" where
  "online_entry s ips uuid =
     (let user = userByUUID uuid s in
      if ui_Id user = 0 then []
      else concat (map (\<lambda>ip. if map_get 0 (map_get Map.empty (cs_online s) uuid) ip > 0
                            then [\<lparr>ou_UID = ui_Id user, ou_IP = ip\<rparr>] else []) (ips uuid)))"

definition caddy_GetOnlineDevice ::
  "string list \<Rightarrow> (string \<Rightarrow> string list) \<Rightarrow> CaddyServer \<Rightarrow> OnlineUser list" where
  "caddy_GetOnlineDevice ks ips s = concat (map (online_entry s ips) ks)"

section \<open>Events\<close>

record tunnelEvent =
  ev_Type :: string
  ev_User :: string
  ev_UserID :: int
  ev_IP :: string
  ev_Host :: string
  ev_Target :: string
  ev_Upload :: int
  ev_Download :: int
  ev_Duration :: int

definition getCounterWithUID :: "string \<Rightarrow> int \<Rightarrow> CaddyServer \<Rightarrow> trafficCounter \<times> CaddyServer" where
  "getCounterWithUID uuid uid s =
     (let counter = (case cs_stats s uuid of
             Some c \<Rightarrow> setUID uid c
           | None \<Rightarrow> \<lparr>tc_uid = uid, tc_up = 0, tc_down = 0\<rparr>)
      in (counter, s\<lparr>cs_stats := (cs_stats s)(uuid \<mapsto> counter)\<rparr>))"

definition getCounterForEvent :: "tunnelEvent \<Rightarrow> CaddyServer \<Rightarrow> trafficCounter \<times> CaddyServer" where
  "getCounterForEvent event s =
     (let uid = (if ev_UserID event = 0 then userIDByUUID (ev_User event) s else ev_UserID event)
      in getCounterWithUID (ev_User event) uid s)"

text \<open>\<^verbatim>\<open>s.getCounterForEvent(event).add(event.Upload, event.Download)\<close>\<close>

definition count_event :: "tunnelEvent \<Rightarrow> CaddyServer \<Rightarrow> CaddyServer" where
  "count_event event s =
     (let (counter, s1) = getCounterForEvent event s
      in s1\<lparr>cs_stats := (cs_stats s1)(ev_User event \<mapsto>
              tc_add (ev_Upload event) (ev_Download event) counter)\<rparr>)"

definition open_tunnel :: "string \<Rightarrow> string \<Rightarrow> CaddyServer \<Rightarrow> CaddyServer" where
  "open_tunnel user ip s =
     (let ips = map_get Map.empty (cs_online s) user
      in s\<lparr>cs_online := (cs_online s)(user \<mapsto> ips(ip \<mapsto> wrap64 (map_get 0 ips ip + 1)))\<rparr>)"

definition close_tunnel :: "string \<Rightarrow> string \<Rightarrow> CaddyServer \<Rightarrow> CaddyServer" where
  "close_tunnel user ip s =
     (case cs_online s user of
        None \<Rightarrow> s
      | Some ipMap \<Rightarrow>
          let ipMap1 = (if map_get 0 ipMap ip \<le> 1 then ipMap(ip := None)
                        else ipMap(ip \<mapsto> map_get 0 ipMap ip - 1))
          in s\<lparr>cs_online := (cs_online s)(user := if ipMap1 = Map.empty then None else Some ipMap1)\<rparr>)"

text \<open>The access log: empty fields are shown as a dash or by the other field.\<close>

definition log_source :: "string \<Rightarrow> string" where
  "log_source ip = (if ip = [] then ''-'' else ip)"

definition log_host :: "string \<Rightarrow> string \<Rightarrow> string" where
  "log_host host target =
     (let h = (if host = [] then target else host) in if h = [] then ''-'' else h)"

definition log_target :: "string \<Rightarrow> string \<Rightarrow> string" where
  "log_target host target = (if target = [] then log_host host target else target)"

definition formatAccessLog :: "tunnelEvent \<Rightarrow> UserInfo \<Rightarrow> CaddyServer \<Rightarrow> string" where
  "formatAccessLog event user s =
     (let host = log_host (ev_Host event) (ev_Target event);
          target = log_target (ev_Host event) (ev_Target event);
          userID = (if ev_UserID event > 0 then Itoa (ev_UserID event)
                    else if ui_Id user > 0 then Itoa (ui_Id user) else ''0'')
      in ''| node:'' @ Itoa (ni_Id (cs_node s)) @ '' | from '' @ log_source (ev_IP event)
         @ '' |accepted| tcp:'' @ host @ '' | target:'' @ target @ '' | user_id:'' @ userID)"

text \<open>What a handler writes to the log: level, fields, message.\<close>

record log_entry =
  le_level :: string
  le_fields :: "(string \<times> string) list"
  le_msg :: string

definition info_log :: "string \<Rightarrow> log_entry" where
  "info_log msg = \<lparr>le_level = ''info'', le_fields = [], le_msg = msg\<rparr>"

definition handleEvent :: "tunnelEvent \<Rightarrow> CaddyServer \<Rightarrow> log_entry list \<times> CaddyServer" where
  "handleEvent event s =
     (if ev_Type event = ''open'' then
        ([info_log (formatAccessLog event (userByUUID (ev_User event) s) s)],
         open_tunnel (ev_User event) (ev_IP event) s)
      else if ev_Type event = ''traffic'' then ([], count_event event s)
      else if ev_Type event = ''close'' then
        (let s1 = count_event event s;
             s2 = s1\<lparr>cs_limiter := ReleaseIP (ev_User event) (ev_IP event) (cs_limiter s1)\<rparr>
         in ([], close_tunnel (ev_User event) (ev_IP event) s2))
      else ([], s))"

definition node_id_field :: "CaddyServer \<Rightarrow> string \<times> string" where
  "node_id_field s = (''node_id'', Itoa (ni_Id (cs_node s)))"

definition handleEventLine ::
  "(string \<Rightarrow> string + tunnelEvent) \<Rightarrow> string \<Rightarrow> CaddyServer \<Rightarrow> log_entry list \<times> CaddyServer" where
  "handleEventLine decode raw s =
     (case decode raw of
        Inl err \<Rightarrow>
          ([\<lparr>le_level = ''warn'', le_fields = [node_id_field s, (''err'', err), (''raw'', raw)],
             le_msg = ''parse caddy tunnel event failed''\<rparr>], s)
      | Inr event \<Rightarrow> handleEvent event s)"

section \<open>Finding events in the process output\<close>

definition eventPrefix :: string where
  "eventPrefix = ''V2NAIVE_EVENT ''"

definition trimEventPrefix :: "string \<Rightarrow> string option" where
  "trimEventPrefix txt =
     (case Index txt eventPrefix of
        None \<Rightarrow> None
      | Some idx \<Rightarrow> Some (TrimSpace (drop (idx + length eventPrefix) txt)))"

text \<open>A structured log line of Caddy, as \<open>decode_log\<close> reads it from JSON.\<close>

record caddyLogLine =
  cl_Level :: string
  cl_Logger :: string
  cl_Message :: string
  cl_Error :: string
  cl_ClientIP :: string
  cl_RemoteIP :: string
  cl_Host :: string
  cl_URI :: string
  cl_Method :: string
  cl_Proto :: string

definition extractEventPayload :: "(string \<Rightarrow> caddyLogLine option) \<Rightarrow> string \<Rightarrow> string option" where
  "extractEventPayload decode_log line =
     (case Option.bind (decode_log line) (\<lambda>c. trimEventPrefix (cl_Message c)) of
        Some raw \<Rightarrow> Some raw
      | None \<Rightarrow> trimEventPrefix line)"

definition isNoisyCaddyError :: "string \<Rightarrow> bool" where
  "isNoisyCaddyError txt0 =
     (let txt = ToLower txt0 in
      Contains txt ''broken pipe'' \<or> Contains txt ''stream closed'' \<or>
      Contains txt ''h3_request_cancelled'' \<or> Contains txt ''request cancelled'' \<or>
      Contains txt ''request canceled'' \<or> Contains txt ''client disconnected'' \<or>
      Contains txt ''connection reset by peer'' \<or>
      Contains txt ''use of closed network connection'')"

definition field_if :: "string \<Rightarrow> string \<Rightarrow> (string \<times> string) list" where
  "field_if key value = (if value \<noteq> [] then [(key, value)] else [])"

definition logStructuredCaddyLine :: "caddyLogLine \<Rightarrow> CaddyServer \<Rightarrow> log_entry list" where
  "logStructuredCaddyLine c s =
     (if isNoisyCaddyError (cl_Error c) \<or> isNoisyCaddyError (cl_Message c) then []
      else
        let fields = node_id_field s
              # field_if ''logger'' (cl_Logger c)
              @ (if cl_ClientIP c \<noteq> [] then [(''source_ip'', cl_ClientIP c)]
                 else field_if ''source_ip'' (cl_RemoteIP c))
              @ (if cl_Host c \<noteq> [] then [(''target'', cl_Host c)]
                 else field_if ''target'' (cl_URI c))
              @ field_if ''method'' (cl_Method c) @ field_if ''proto'' (cl_Proto c)
              @ field_if ''err'' (cl_Error c);
            msg = (if cl_Message c = [] then ''caddy event'' else cl_Message c);
            level = ToLower (cl_Level c)
        in [\<lparr>le_level = if level = ''error'' \<or> level = ''warn'' \<or> level = ''warning''
                        then ''warn'' else ''debug'',
             le_fields = fields, le_msg = msg\<rparr>])"

definition streamName :: "bool \<Rightarrow> string" where
  "streamName stderr = (if stderr then ''stderr'' else ''stdout'')"

definition logCaddyLine ::
  "(string \<Rightarrow> caddyLogLine option) \<Rightarrow> bool \<Rightarrow> string \<Rightarrow> CaddyServer \<Rightarrow> log_entry list" where
  "logCaddyLine decode_log stderr line s =
     (case decode_log line of
        Some c \<Rightarrow> logStructuredCaddyLine c s
      | None \<Rightarrow>
          if TrimSpace line = [] then []
          else [\<lparr>le_level = ''debug'',
                 le_fields = [node_id_field s, (''stream'', streamName stderr)],
                 le_msg = ''[caddy] '' @ line\<rparr>])"

text \<open>One line of output: an event is handled, any other line only logged.\<close>

definition consume_line ::
  "(string \<Rightarrow> caddyLogLine option) \<Rightarrow> (string \<Rightarrow> string + tunnelEvent) \<Rightarrow> bool \<Rightarrow> string \<Rightarrow>
     CaddyServer \<Rightarrow> log_entry list \<times> CaddyServer" where
  "consume_line decode_log decode stderr line s =
     (case extractEventPayload decode_log line of
        Some raw \<Rightarrow> handleEventLine decode raw s
      | None \<Rightarrow> (logCaddyLine decode_log stderr line s, s))"

text \<open>
  The scanner splits the stream into lines, drops a carriage return at the end of a line,
  and gives up at the first line that does not fit its buffer of 1 MiB.
\<close>

definition dropCR :: "string \<Rightarrow> string" where
  "dropCR line = (if line \<noteq> [] \<and> last line = char_of (13::nat) then butlast line else line)"

fun consumeOutput ::
  "(string \<Rightarrow> caddyLogLine option) \<Rightarrow> (string \<Rightarrow> string + tunnelEvent) \<Rightarrow> bool \<Rightarrow> string list \<Rightarrow>
     CaddyServer \<Rightarrow> log_entry list \<times> CaddyServer" where
  "consumeOutput decode_log decode stderr [] s = ([], s)"
| "consumeOutput decode_log decode stderr (line # ls) s =
     (if length line \<ge> 1048576 then
        ([\<lparr>le_level = ''error'',
           le_fields = [node_id_field s, (''err'', ''bufio.Scanner: token too long'')],
           le_msg = ''read caddy output failed''\<rparr>], s)
      else
        let (logs, s1) = consume_line decode_log decode stderr (dropCR line) s;
            (logs', s2) = consumeOutput decode_log decode stderr ls s1
        in (logs @ logs', s2))"

section \<open>The local endpoints\<close>

record authRequest =
  ar_User :: string
  ar_IP :: string
  ar_Host :: string
  ar_Target :: string

datatype authReply =
    MethodNotAllowed
  | BadRequest
  | Forbidden (rejected_id: int) (reject_reason: string)
  | Granted (granted_speed: int) (granted_id: int)

definition formatRejectedLog :: "authRequest \<Rightarrow> int \<Rightarrow> string \<Rightarrow> CaddyServer \<Rightarrow> string" where
  "formatRejectedLog req userID reason s =
     ''| node:'' @ Itoa (ni_Id (cs_node s)) @ '' | from '' @ log_source (ar_IP req)
       @ '' |rejected| tcp:'' @ log_host (ar_Host req) (ar_Target req)
       @ '' | target:'' @ log_target (ar_Host req) (ar_Target req)
       @ '' | user_id:'' @ Itoa userID @ '' | reason:'' @ reason"

definition handleAuthorize ::
  "(string \<Rightarrow> authRequest option) \<Rightarrow> string \<Rightarrow> string \<Rightarrow> CaddyServer \<Rightarrow>
     authReply \<times> log_entry list \<times> CaddyServer" where
  "handleAuthorize decode httpMethod body s =
     (if httpMethod \<noteq> ''POST'' then (MethodNotAllowed, [], s)
      else (case decode body of
         None \<Rightarrow> (BadRequest, [], s)
       | Some req \<Rightarrow>
           let userID = userIDByUUID (ar_User req) s in
           (case Authorize (ar_User req) (ar_IP req) (cs_limiter s) of
              ((speedLimit, reject), l1) \<Rightarrow>
                let s1 = s\<lparr>cs_limiter := l1\<rparr> in
                if reject then
                  (let reason = (if userID = 0 then ''unauthorized''
                                 else if hasActiveUser (ar_User req) s1 then ''device_limit''
                                 else ''traffic_exhausted'')
                   in (Forbidden userID reason, [info_log (formatRejectedLog req userID reason s1)], s1))
                else (Granted speedLimit userID, [], s1))))"

datatype releaseReply = ReleaseMethodNotAllowed | ReleaseBadRequest | NoContent

definition handleRelease ::
  "(string \<Rightarrow> authRequest option) \<Rightarrow> string \<Rightarrow> string \<Rightarrow> CaddyServer \<Rightarrow> releaseReply \<times> CaddyServer" where
  "handleRelease decode httpMethod body s =
     (if httpMethod \<noteq> ''POST'' then (ReleaseMethodNotAllowed, s)
      else (case decode body of
         None \<Rightarrow> (ReleaseBadRequest, s)
       | Some req \<Rightarrow>
           (NoContent, s\<lparr>cs_limiter := ReleaseIP (ar_User req) (ar_IP req) (cs_limiter s)\<rparr>)))"

end
