(* ===== verification/CaddyConfig.thy ===== *)
theory CaddyConfig
  imports CaddyProc
begin

text \<open>
  What the Caddy engine writes and starts: the generated Caddyfile with its site
  addresses, the cover site, and the life cycle of the Caddy process with the local
  authorisation server beside it (\<^verbatim>\<open>internal/caddyproc/server.go\<close>).
\<close>

section \<open>Site addresses\<close>

definition withSitePort :: "string \<Rightarrow> int \<Rightarrow> string" where
  "withSitePort host port =
     (if port \<le> 0 \<or> port = 443 \<or> HasPrefix host '':'' then host
      else if Contains host ''://'' then host
      else if SplitHostPort host \<noteq> None then host
      else if CHR '':'' \<in> set host then
        ''['' @ trim_set [CHR ''['', CHR '']''] host @ '']:'' @ Itoa port
      else host @ '':'' @ Itoa port)"

definition appendHost :: "int \<Rightarrow> string \<Rightarrow> string list \<Rightarrow> string list" where
  "appendHost port host0 out =
     (let host = TrimSpace host0 in
      if host = [] then out
      else
        let site = withSitePort host port
        in if site \<in> set out then out else out @ [site])"

definition collectHosts :: "NodeInfo \<Rightarrow> string list" where
  "collectHosts node =
     fold (appendHost (ni_ServerPort node))
       (ni_Host node # EffectiveServerNames (ni_TLSSettings node)) []"

section \<open>The Caddyfile\<close>

definition quote_char :: "char \<Rightarrow> string" where
  "quote_char c =
     (if c = CHR 0x5C then [CHR 0x5C, CHR 0x5C]
      else if c = CHR 0x22 then [CHR 0x5C, CHR 0x22] else [c])"

definition quote :: "string \<Rightarrow> string" where
  "quote v = CHR 0x22 # concat (map quote_char v) @ [CHR 0x22]"

definition coverDir :: "CaddyServer \<Rightarrow> string" where
  "coverDir s = path_Join [cs_workDir s, ''cover'']"

definition line :: "string \<Rightarrow> string" where
  "line txt = txt @ [CHR 0x0A]"

text \<open>\<open>None\<close>: the certificate is nil, on which the code panics.\<close>

definition renderConfig :: "CaddyServer \<Rightarrow> string option" where
  "renderConfig s =
     (case ni_CertInfo (cs_node s) of
        None \<Rightarrow> None
      | Some cert \<Rightarrow>
          (let node = cs_node s;
               addresses = ('':'' @ Itoa (ni_ServerPort node)) # collectHosts node
           in Some (concat (map line (
                [''{'',
                 ''  admin '' @ cs_adminAddr s,
                 ''  auto_https off'',
                 ''  order forward_proxy first'',
                 ''  servers {'',
                 ''    protocols h1 h2'',
                 ''  }'',
                 ''}'',
                 [],
                 join '', '' addresses @ '' {'']
                @ (if ni_ListenIP node \<noteq> [] then [''  bind '' @ ni_ListenIP node] else [])
                @ [''  tls '' @ quote (ci_CertFile cert) @ '' '' @ quote (ci_KeyFile cert),
                   ''  forward_proxy {'',
                   ''    v2naive_auth'',
                   ''    probe_resistance'',
                   ''    hide_ip'',
                   ''    hide_via'',
                   ''    dial_timeout 10s'',
                   ''    max_idle_conns 1024'',
                   ''    max_idle_conns_per_host 64'',
                   ''    acl {'',
                   ''      allow all'',
                   ''    }'',
                   ''  }'',
                   ''  root * '' @ quote (coverDir s),
                   ''  file_server'',
                   ''}''])))))"

section \<open>The process\<close>

text \<open>
  \<open>cp_cmd\<close>: a command is recorded; \<open>cp_auth\<close>: the address the authorisation server
  listens on.  The outcome of each system call Start makes is part of \<open>start_env\<close>.
\<close>

record CaddyProcess =
  cp_cmd :: bool
  cp_auth :: "string option"

record start_env =
  env_stat :: "string option"
  env_mkdir :: "string option"
  env_cover :: "string option"
  env_writeConfig :: "string option"
  env_listen :: "string + string"
  env_stdoutPipe :: "string option"
  env_stderrPipe :: "string option"
  env_cmdStart :: "string option"

text \<open>What one round of waiting sees.\<close>

datatype poll = ProcessExited "string option" | AdminUnreachable | AdminStatus int

text \<open>\<open>polls\<close>: the rounds until the deadline; \<open>None\<close>: ready.\<close>

fun waitReady :: "string \<Rightarrow> poll list \<Rightarrow> string option" where
  "waitReady adminAddr [] = Some (''caddy admin endpoint did not become ready: '' @ adminAddr)"
| "waitReady adminAddr (p # ps) =
     (case p of
        ProcessExited None \<Rightarrow> Some ''caddy exited before becoming ready''
      | ProcessExited (Some err) \<Rightarrow> Some (''caddy exited early: '' @ err)
      | AdminUnreachable \<Rightarrow> waitReady adminAddr ps
      | AdminStatus status \<Rightarrow>
          if status \<ge> 200 \<and> status < 500 then None else waitReady adminAddr ps)"

definition startAuthServerLocked ::
  "string + string \<Rightarrow> CaddyProcess \<Rightarrow> string option \<times> CaddyProcess" where
  "startAuthServerLocked listen p =
     (if cp_auth p \<noteq> None then (None, p)
      else (case listen of
              Inl err \<Rightarrow> (Some err, p)
            | Inr addr \<Rightarrow> (None, p\<lparr>cp_auth := Some addr\<rparr>)))"

definition stopAuthServerLocked :: "CaddyProcess \<Rightarrow> CaddyProcess" where
  "stopAuthServerLocked p = p\<lparr>cp_auth := None\<rparr>"

definition stopLocked :: "CaddyProcess \<Rightarrow> CaddyProcess" where
  "stopLocked p = (if \<not> cp_cmd p then p else stopAuthServerLocked (p\<lparr>cp_cmd := False\<rparr>))"

definition caddy_Start ::
  "RuntimeConfig \<Rightarrow> string \<Rightarrow> start_env \<Rightarrow> poll list \<Rightarrow> CaddyProcess \<Rightarrow> string option \<times> CaddyProcess" where
  "caddy_Start runtime adminAddr env polls p =
     (if cp_cmd p then (None, p)
      else if TrimSpace (rc_CaddyPath runtime) = [] then (Some ''caddy path is empty'', p)
      else (case env_stat env of
        Some err \<Rightarrow> (Some (''stat caddy binary failed: '' @ err), p)
      | None \<Rightarrow>
      (case env_mkdir env of
        Some err \<Rightarrow> (Some (''create work dir failed: '' @ err), p)
      | None \<Rightarrow>
      (case env_cover env of
        Some err \<Rightarrow> (Some (''write cover site failed: '' @ err), p)
      | None \<Rightarrow>
      (case env_writeConfig env of
        Some err \<Rightarrow> (Some (''write caddyfile failed: '' @ err), p)
      | None \<Rightarrow>
      (case startAuthServerLocked (env_listen env) p of
        (Some err, p1) \<Rightarrow> (Some (''start auth server failed: '' @ err), p1)
      | (None, p1) \<Rightarrow>
      (case env_stdoutPipe env of
        Some err \<Rightarrow> (Some (''get caddy stdout pipe failed: '' @ err), stopAuthServerLocked p1)
      | None \<Rightarrow>
      (case env_stderrPipe env of
        Some err \<Rightarrow> (Some (''get caddy stderr pipe failed: '' @ err), stopAuthServerLocked p1)
      | None \<Rightarrow>
      (case env_cmdStart env of
        Some err \<Rightarrow> (Some (''start caddy failed: '' @ err), stopAuthServerLocked p1)
      | None \<Rightarrow>
          let p2 = p1\<lparr>cp_cmd := True\<rparr> in
          (case waitReady adminAddr polls of
             Some err \<Rightarrow> (Some err, stopLocked p2)
           | None \<Rightarrow> (None, p2)))))))))))"

section \<open>Lemmas\<close>

lemma appendHost_distinct: "distinct out \<Longrightarrow> distinct (appendHost port host out)"
  by (simp add: appendHost_def Let_def)

lemma appendHost_set:
  "set (appendHost port host out) =
     (if TrimSpace host = [] then set out else insert (withSitePort (TrimSpace host) port) (set out))"
  by (auto simp: appendHost_def Let_def)

lemma fold_appendHost:
  "set (fold (appendHost port) hosts out) =
     {withSitePort (TrimSpace h) port | h. h \<in> set hosts \<and> TrimSpace h \<noteq> []} \<union> set out"
  by (induction hosts arbitrary: out) (auto simp: appendHost_set)

lemma fold_appendHost_distinct: "distinct out \<Longrightarrow> distinct (fold (appendHost port) hosts out)"
  by (induction hosts arbitrary: out) (auto intro: appendHost_distinct)

text \<open>Reading a quoted text back: a backslash keeps the next character as it is.\<close>

fun unquote_tail :: "string \<Rightarrow> (string \<times> string) option" where
  "unquote_tail [] = None"
| "unquote_tail (c # cs) =
     (if c = CHR 0x22 then Some ([], cs)
      else if c = CHR 0x5C then
        (case cs of [] \<Rightarrow> None | d # ds \<Rightarrow> map_option (apfst ((#) d)) (unquote_tail ds))
      else map_option (apfst ((#) c)) (unquote_tail cs))"

definition unquote :: "string \<Rightarrow> (string \<times> string) option" where
  "unquote s = (case s of [] \<Rightarrow> None | c # cs \<Rightarrow> if c = CHR 0x22 then unquote_tail cs else None)"

lemma unquote_tail_quote:
  "unquote_tail (concat (map quote_char v) @ CHR 0x22 # rest) = Some (v, rest)"
  by (induction v) (auto simp: quote_char_def)

text \<open>A trimmed host without brackets is unchanged by trimming brackets.\<close>

lemma trim_set_none: "set s \<inter> set cs = {} \<Longrightarrow> trim_set cs s = s"
proof -
  assume *: "set s \<inter> set cs = {}"
  have 1: "dropWhile (\<lambda>c. c \<in> set cs) s = s"
    using * by (cases s) auto
  have "dropWhile (\<lambda>c. c \<in> set cs) (rev s) = rev s"
    using * by (cases "rev s") (auto dest!: arg_cong [where f = set])
  with 1 show ?thesis by (simp add: trim_set_def)
qed

lemma Itoa_chars:
  assumes "0 \<le> i"
  shows "set (Itoa i) \<subseteq> digit_char ` {..<10}"
  using assms show_nat_chars by (simp add: Itoa_def)

lemma Itoa_inj: "in64 i \<Longrightarrow> in64 j \<Longrightarrow> Itoa i = Itoa j \<Longrightarrow> i = j"
  by (metis Atoi_Itoa option.inject)

lemma withSitePort_split:
  assumes "SplitHostPort host = None" and "\<not> Contains host ''://''" and "\<not> HasPrefix host '':''"
    and "set host \<inter> {CHR ''['', CHR '']''} = {}" and "0 < port" and "port \<noteq> 443"
  shows "SplitHostPort (withSitePort host port) = Some (host, Itoa port)"
proof -
  have "trim_set [CHR ''['', CHR '']''] host = host"
    using assms(4) by (intro trim_set_none) simp
  then have "withSitePort host port = JoinHostPort host (Itoa port)"
    using assms by (simp add: withSitePort_def JoinHostPort_def)
  moreover have "set (Itoa port) \<inter> {CHR '':'', CHR ''['', CHR '']''} = {}"
  proof -
    have "c \<notin> digit_char ` {..<10} \<Longrightarrow> c \<notin> set (Itoa port)" for c
      using Itoa_chars [OF less_imp_le [OF assms(5)]] by blast
    from this [of "CHR '':''"] this [of "CHR ''[''"] this [of "CHR '']''"] show ?thesis
      by (simp only: digit_image) simp
  qed
  ultimately show ?thesis
    using split_join_host_port [OF assms(4), of "Itoa port"] by simp
qed

text \<open>Start and Close in any order.\<close>

inductive process_reachable :: "CaddyProcess \<Rightarrow> bool" where
  process_new: "process_reachable \<lparr>cp_cmd = False, cp_auth = None\<rparr>"
| process_start: "process_reachable p \<Longrightarrow>
     process_reachable (snd (caddy_Start runtime adminAddr env polls p))"
| process_close: "process_reachable p \<Longrightarrow> process_reachable (stopLocked p)"

definition process_ok :: "CaddyProcess \<Rightarrow> bool" where
  "process_ok p \<longleftrightarrow> (cp_auth p \<noteq> None \<longleftrightarrow> cp_cmd p)"

lemma stopLocked_ok: "process_ok p \<Longrightarrow> process_ok (stopLocked p)"
  by (simp add: process_ok_def stopLocked_def stopAuthServerLocked_def)

lemma caddy_Start_ok:
  assumes "process_ok p"
  shows "process_ok (snd (caddy_Start runtime adminAddr env polls p))"
    and "fst (caddy_Start runtime adminAddr env polls p) = None \<longleftrightarrow>
      cp_cmd (snd (caddy_Start runtime adminAddr env polls p))"
  using assms
  by (auto simp: caddy_Start_def startAuthServerLocked_def stopAuthServerLocked_def stopLocked_def
      process_ok_def Let_def split: option.split sum.split)

lemma process_reachable_ok: "process_reachable p \<Longrightarrow> process_ok p"
proof (induction rule: process_reachable.induct)
  case process_new
  then show ?case by (simp add: process_ok_def)
qed (simp_all add: caddy_Start_ok stopLocked_ok)

section \<open>Properties\<close>

text \<open>
  The site addresses of a node are exactly its host and the names of its certificate,
  trimmed, each with the node's port where it needs one, blank names left out and none
  listed twice.
\<close>

theorem collect_hosts_exact:
  "distinct (collectHosts node) \<and>
   set (collectHosts node) =
     {withSitePort (TrimSpace h) (ni_ServerPort node) | h.
        h \<in> set (ni_Host node # EffectiveServerNames (ni_TLSSettings node)) \<and> TrimSpace h \<noteq> []}"
  unfolding collectHosts_def
  by (simp only: fold_appendHost fold_appendHost_distinct distinct.simps list.set(1) Un_empty_right simp_thms)

text \<open>
  The port put on a site address is read back as the host's port: for a name or an IP
  literal (IPv6 too, which gets its brackets) that had no port, splitting the address
  gives the host and the decimal port.
\<close>

theorem site_port_roundtrip:
  assumes "SplitHostPort host = None" and "\<not> Contains host ''://''" and "\<not> HasPrefix host '':''"
    and "set host \<inter> {CHR ''['', CHR '']''} = {}" and "0 < port" and "port \<noteq> 443" and "port < 65536"
  shows "\<exists>txt. SplitHostPort (withSitePort host port) = Some (host, txt) \<and> Atoi txt = Some port"
  using withSitePort_split [OF assms(1-6)] Atoi_Itoa [of port] assms(5,7)
  by (simp add: in64_def)

theorem site_port_roundtrip_witness:
  "\<exists>txt. SplitHostPort (withSitePort ''fd00::1'' 4443) = Some (''fd00::1'', txt) \<and> Atoi txt = Some 4443"
  by (rule site_port_roundtrip) code_simp+

text \<open>
  A quoted path is read back whole: whatever quotes and backslashes a certificate path
  or directory contains, the text between the quotes denotes it and the quoting ends
  where the path ends.
\<close>

theorem quote_roundtrip: "unquote (quote v @ rest) = Some (v, rest)"
  by (simp add: unquote_def quote_def unquote_tail_quote)

text \<open>
  The authorisation server runs exactly as long as a Caddy command is recorded, on
  every path of Start (each step may fail) and Close, in any order of calls: no failed
  start leaves it behind, and Start reports success exactly if the command is running.
\<close>

theorem caddy_lifecycle:
  assumes "process_reachable p"
  shows "(cp_auth p \<noteq> None \<longleftrightarrow> cp_cmd p) \<and>
     (fst (caddy_Start runtime adminAddr env polls p) = None \<longleftrightarrow>
        cp_cmd (snd (caddy_Start runtime adminAddr env polls p))) \<and>
     \<not> cp_cmd (stopLocked p) \<and> cp_auth (stopLocked p) = None"
  using process_reachable_ok [OF assms] caddy_Start_ok(2) [OF process_reachable_ok [OF assms]]
  by (auto simp: process_ok_def stopLocked_def stopAuthServerLocked_def)

theorem caddy_lifecycle_witness:
  "\<exists>p. process_reachable p \<and> cp_auth p = Some ''127.0.0.1:1'' \<and> cp_cmd p \<and> \<not> cp_cmd (stopLocked p)"
proof -
  let ?env = "\<lparr>env_stat = None, env_mkdir = None, env_cover = None, env_writeConfig = None,
    env_listen = Inr ''127.0.0.1:1'', env_stdoutPipe = None, env_stderrPipe = None, env_cmdStart = None\<rparr>"
  let ?p = "snd (caddy_Start default_runtime ''a'' ?env [AdminUnreachable, AdminStatus 200]
    \<lparr>cp_cmd = False, cp_auth = None\<rparr>)"
  have r: "process_reachable ?p"
    by (intro process_reachable.intros)
  have t: "TrimSpace ''/opt/v2naive/caddy'' = ''/opt/v2naive/caddy''" by code_simp
  have "cp_auth ?p = Some ''127.0.0.1:1''"
    by (simp add: caddy_Start_def default_runtime_def t startAuthServerLocked_def)
  then show ?thesis
    using r caddy_lifecycle [OF r] by (intro exI [of _ ?p]) simp
qed

text \<open>
  Two nodes served by one process never share an admin endpoint: engines made with
  the same runtime configuration for different node ids listen on different addresses.
\<close>

theorem admin_address_unique:
  assumes "in64 (ni_Id node)" and "in64 (ni_Id node')" and "ni_Id node \<noteq> ni_Id node'"
  shows "cs_adminAddr (caddy_New node users alive runtime) \<noteq> cs_adminAddr (caddy_New node' users' alive' runtime)"
proof
  have addr: "cs_adminAddr (caddy_New n us al runtime) =
      ''127.0.0.1:'' @ Itoa (wrap64 (rc_AdminPortBase runtime + ni_Id n))" for n us al
    by (simp add: caddy_New_def replaceUsers_def Let_def)
  let ?b = "rc_AdminPortBase runtime"
  assume "cs_adminAddr (caddy_New node users alive runtime) = cs_adminAddr (caddy_New node' users' alive' runtime)"
  then have "wrap64 (?b + ni_Id node) = wrap64 (?b + ni_Id node')"
    by (simp add: addr Itoa_inj)
  then have "wrap64 (wrap64 (?b + ni_Id node) - ?b) = wrap64 (wrap64 (?b + ni_Id node') - ?b)"
    by simp
  then have "wrap64 (ni_Id node) = wrap64 (ni_Id node')"
    using wrap64_add_left [of _ "- ?b"] by simp
  with assms show False by (simp add: wrap64_id)
qed

theorem admin_address_unique_witness:
  "cs_adminAddr (caddy_New sample_node [] Map.empty default_runtime) \<noteq>
     cs_adminAddr (caddy_New (sample_node\<lparr>ni_Id := 1\<rparr>) [] Map.empty default_runtime)"
  by (rule admin_address_unique) (simp_all add: sample_node_def in64_def)

end
