(* ===== verification/Go_Encoding.thy ===== *)
theory Go_Encoding
  imports Go_Strings
begin

text \<open>
  Go's \<^verbatim>\<open>encoding/base64\<close> (the standard encoding with padding) and
  \<^verbatim>\<open>unicode/utf8\<close>, as far as the credential checks use them.
\<close>

section \<open>Base64\<close>

definition b64_char :: "nat \<Rightarrow> char" where
  "b64_char n =
     char_of (if n < 26 then n + 65 else if n < 52 then n + 71 else if n < 62 then n - 4
              else if n = 62 then 43 else 47)"

definition b64_val :: "char \<Rightarrow> nat option" where
  "b64_val c =
     (let n = of_char c :: nat in
      if 65 \<le> n \<and> n \<le> 90 then Some (n - 65)
      else if 97 \<le> n \<and> n \<le> 122 then Some (n - 71)
      else if 48 \<le> n \<and> n \<le> 57 then Some (n + 4)
      else if n = 43 then Some 62
      else if n = 47 then Some 63
      else None)"

definition byte_val :: "char \<Rightarrow> nat" where
  "byte_val c = of_char c"

fun b64_encode :: "string \<Rightarrow> string" where
  "b64_encode [] = []"
| "b64_encode [x] =
     (let n = byte_val x in [b64_char (n div 4), b64_char (n mod 4 * 16), CHR ''='', CHR ''=''])"
| "b64_encode [x, y] =
     (let n = byte_val x; m = byte_val y in
      [b64_char (n div 4), b64_char (n mod 4 * 16 + m div 16), b64_char (m mod 16 * 4), CHR ''=''])"
| "b64_encode (x # y # z # rest) =
     (let n = byte_val x; m = byte_val y; k = byte_val z in
      [b64_char (n div 4), b64_char (n mod 4 * 16 + m div 16),
       b64_char (m mod 16 * 4 + k div 64), b64_char (k mod 64)] @ b64_encode rest)"

text \<open>
  The decoder skips line breaks anywhere, wants whole groups of four, accepts padding
  only at the end, and ignores the spare bits before it.
\<close>

fun b64_groups :: "string \<Rightarrow> string option" where
  "b64_groups [] = Some []"
| "b64_groups (a # b # c # d # rest) =
     (case (b64_val a, b64_val b) of
        (Some p, Some q) \<Rightarrow>
          if c = CHR ''='' \<and> d = CHR ''='' then
            (if rest = [] then Some [char_of (p * 4 + q div 16)] else None)
          else (case b64_val c of
             None \<Rightarrow> None
           | Some r \<Rightarrow>
               if d = CHR ''='' then
                 (if rest = []
                  then Some [char_of (p * 4 + q div 16), char_of (q mod 16 * 16 + r div 4)] else None)
               else (case (b64_val d, b64_groups rest) of
                  (Some t, Some out) \<Rightarrow>
                    Some (char_of (p * 4 + q div 16) # char_of (q mod 16 * 16 + r div 4)
                          # char_of (r mod 4 * 64 + t) # out)
                | _ \<Rightarrow> None))
      | _ \<Rightarrow> None)"
| "b64_groups [a] = None"
| "b64_groups [a, b] = None"
| "b64_groups [a, b, c] = None"

definition b64_decode :: "string \<Rightarrow> string option" where
  "b64_decode s = b64_groups (filter (\<lambda>c. c \<noteq> CHR 0x0A \<and> c \<noteq> CHR 0x0D) s)"

lemma of_char_small: "n < 256 \<Longrightarrow> of_char (char_of n) = (n :: nat)"
  by simp

lemma b64_val_char: "n < 64 \<Longrightarrow> b64_val (b64_char n) = Some n"
  by (auto simp: b64_val_def b64_char_def Let_def of_char_small)

lemma b64_char_code: "n < 64 \<Longrightarrow> of_char (b64_char n) \<notin> {61, 10, 13, 32 :: nat}"
  by (auto simp: b64_char_def of_char_small)

lemma b64_char_plain [simp]:
  assumes "n < 64"
  shows "b64_char n \<noteq> CHR ''=''" "b64_char n \<noteq> CHR 0x0A" "b64_char n \<noteq> CHR 0x0D"
    "b64_char n \<noteq> CHR '' ''"
  using b64_char_code [OF assms] by (auto dest!: arg_cong [where f = "of_char :: char \<Rightarrow> nat"])

lemma byte_val_less [simp]: "byte_val c < 256"
  by (simp add: byte_val_def of_char_def)

lemma char_of_byte [simp]: "char_of (byte_val c) = c"
  by (simp add: byte_val_def)

lemma digit_join: "b < c \<Longrightarrow> (a * c + b) div c = (a :: nat) \<and> (a * c + b) mod c = b"
  by simp

text \<open>The sextets of three bytes, and the bytes back.\<close>

lemma sextets:
  fixes n m k :: nat
  assumes "n < 256" "m < 256" "k < 256"
  shows "n div 4 < 64" "n mod 4 * 16 + m div 16 < 64" "m mod 16 * 4 + k div 64 < 64" "k mod 64 < 64"
    "n mod 4 * 16 < 64" "m mod 16 * 4 < 64"
proof -
  have "n mod 4 < 4" "m mod 16 < 16" by simp_all
  moreover have "m div 16 < 16" "k div 64 < 4" "n div 4 < 64"
    using assms by (simp_all add: div_less_iff_less_mult)
  ultimately show "n div 4 < 64" "n mod 4 * 16 + m div 16 < 64" "m mod 16 * 4 + k div 64 < 64"
    "k mod 64 < 64" "n mod 4 * 16 < 64" "m mod 16 * 4 < 64" by simp_all
qed

lemma regroup:
  fixes n m k :: nat
  assumes "n < 256" "m < 256" "k < 256"
  shows "n div 4 * 4 + (n mod 4 * 16 + m div 16) div 16 = n"
    "(n mod 4 * 16 + m div 16) mod 16 * 16 + (m mod 16 * 4 + k div 64) div 4 = m"
    "(m mod 16 * 4 + k div 64) mod 4 * 64 + k mod 64 = k"
    "n div 4 * 4 + n mod 4 * 16 div 16 = n"
    "(n mod 4 * 16 + m div 16) mod 16 * 16 + m mod 16 * 4 div 4 = m"
proof -
  have "m div 16 < 16" "k div 64 < 4" using assms by (simp_all add: div_less_iff_less_mult)
  then have a: "(n mod 4 * 16 + m div 16) div 16 = n mod 4" "(n mod 4 * 16 + m div 16) mod 16 = m div 16"
    and b: "(m mod 16 * 4 + k div 64) div 4 = m mod 16" "(m mod 16 * 4 + k div 64) mod 4 = k div 64"
    by (simp_all only: digit_join)
  show "n div 4 * 4 + (n mod 4 * 16 + m div 16) div 16 = n"
    "(n mod 4 * 16 + m div 16) mod 16 * 16 + (m mod 16 * 4 + k div 64) div 4 = m"
    "(m mod 16 * 4 + k div 64) mod 4 * 64 + k mod 64 = k"
    "n div 4 * 4 + n mod 4 * 16 div 16 = n"
    "(n mod 4 * 16 + m div 16) mod 16 * 16 + m mod 16 * 4 div 4 = m"
    unfolding a b by simp_all
qed

lemma b64_groups_encode: "b64_groups (b64_encode s) = Some s"
proof (induction s rule: b64_encode.induct)
  case 1
  then show ?case by simp
next
  case (2 x)
  then show ?case
    using sextets [of "byte_val x" 0 0] regroup [of "byte_val x" 0 0]
    by (simp add: Let_def b64_val_char)
next
  case (3 x y)
  then show ?case
    using sextets [of "byte_val x" "byte_val y" 0] regroup [of "byte_val x" "byte_val y" 0]
    by (simp add: Let_def b64_val_char)
next
  case (4 x y z rest)
  then show ?case
    using sextets [of "byte_val x" "byte_val y" "byte_val z"]
      regroup [of "byte_val x" "byte_val y" "byte_val z"]
    by (simp add: Let_def b64_val_char)
qed

lemma b64_encode_chars: "c \<in> set (b64_encode s) \<Longrightarrow> c \<noteq> CHR 0x0A \<and> c \<noteq> CHR 0x0D \<and> c \<noteq> CHR '' ''"
proof (induction s rule: b64_encode.induct)
  case 1
  then show ?case by simp
next
  case (2 x)
  then show ?case using sextets [of "byte_val x" 0 0] by (auto simp: Let_def)
next
  case (3 x y)
  then show ?case using sextets [of "byte_val x" "byte_val y" 0] by (auto simp: Let_def)
next
  case (4 x y z rest)
  then show ?case using sextets [of "byte_val x" "byte_val y" "byte_val z"] by (auto simp: Let_def)
qed

lemma b64_decode_encode: "b64_decode (b64_encode s) = Some s"
proof -
  have "filter (\<lambda>c. c \<noteq> CHR 0x0A \<and> c \<noteq> CHR 0x0D) (b64_encode s) = b64_encode s"
    by (rule filter_True) (use b64_encode_chars in blast)
  then show ?thesis by (simp add: b64_decode_def b64_groups_encode)
qed

section \<open>UTF-8\<close>

text \<open>\<^verbatim>\<open>utf8.Valid\<close>: no surrogates, no overlong forms, nothing above U+10FFFF.\<close>

definition cont_byte :: "nat \<Rightarrow> bool" where
  "cont_byte n \<longleftrightarrow> 128 \<le> n \<and> n < 192"

fun utf8_valid :: "nat list \<Rightarrow> bool" where
  "utf8_valid [] = True"
| "utf8_valid (a # s) =
     (if a < 128 then utf8_valid s
      else if a < 194 then False
      else if a < 224 then (case s of b # s1 \<Rightarrow> cont_byte b \<and> utf8_valid s1 | _ \<Rightarrow> False)
      else if a < 240 then
        (case s of
           b # c # s2 \<Rightarrow>
             cont_byte b \<and> cont_byte c \<and> (a = 224 \<longrightarrow> 160 \<le> b) \<and> (a = 237 \<longrightarrow> b < 160) \<and> utf8_valid s2
         | _ \<Rightarrow> False)
      else if a < 245 then
        (case s of
           b # c # d # s3 \<Rightarrow>
             cont_byte b \<and> cont_byte c \<and> cont_byte d \<and> (a = 240 \<longrightarrow> 144 \<le> b) \<and> (a = 244 \<longrightarrow> b < 144) \<and>
             utf8_valid s3
         | _ \<Rightarrow> False)
      else False)"

definition utf8_Valid :: "string \<Rightarrow> bool" where
  "utf8_Valid s = utf8_valid (map byte_val s)"

lemma utf8_valid_ascii: "\<forall>n\<in>set ns. n < 128 \<Longrightarrow> utf8_valid ns"
  by (induction ns) auto

end
