(* ===== verification/LegacyProxy.thy ===== *)
theory LegacyProxy
  imports Limiter Traffic Go_Net Go_Encoding
begin

text \<open>
  The built-in HTTP proxy engine, \<^verbatim>\<open>internal/proxy/server.go\<close>: users, authentication,
  the traffic counters and the headers of forwarded requests.

  Tunnels keep a pointer to their user's counter while user updates may take the counter
  out of the table, so the counters live in an explicit store: \<open>px_stats\<close> maps a uuid to an
  address and \<open>px_heap\<close> an address to the counter.
\<close>

section \<open>State\<close>

record ProxyServer =
  px_node :: NodeInfo
  px_limiter :: Limiter
  px_users :: "string \<rightharpoonup> UserInfo"
  px_stats :: "string \<rightharpoonup> nat"
  px_heap :: "nat \<Rightarrow> trafficCounter"
  px_next :: nat

section \<open>Counters\<close>

definition legacy_addUpload :: "int \<Rightarrow> trafficCounter \<Rightarrow> trafficCounter" where
  "legacy_addUpload n t = (if n \<le> 0 then t else t\<lparr>tc_up := wrap64 (tc_up t + n)\<rparr>)"

definition legacy_addDownload :: "int \<Rightarrow> trafficCounter \<Rightarrow> trafficCounter" where
  "legacy_addDownload n t = (if n \<le> 0 then t else t\<lparr>tc_down := wrap64 (tc_down t + n)\<rparr>)"

definition legacy_setUID :: "int \<Rightarrow> trafficCounter \<Rightarrow> trafficCounter" where
  "legacy_setUID uid t = t\<lparr>tc_uid := uid\<rparr>"

definition legacy_snapshotIfAbove :: "int \<Rightarrow> trafficCounter \<Rightarrow> UserTraffic option" where
  "legacy_snapshotIfAbove minTraffic t =
     (let threshold = wrap64 (minTraffic * 1000) in
      if wrap64 (tc_up t + tc_down t) \<le> threshold then None
      else Some \<lparr>ut_UID = tc_uid t, ut_Upload = tc_up t, ut_Download = tc_down t, ut_UUID = []\<rparr>)"

definition legacy_subtractReported :: "int \<Rightarrow> int \<Rightarrow> int" where
  "legacy_subtractReported current reported =
     (if reported \<le> 0 then current
      else if current \<le> reported then 0
      else wrap64 (current - reported))"

definition legacy_confirm :: "UserTraffic \<Rightarrow> trafficCounter \<Rightarrow> trafficCounter" where
  "legacy_confirm reported t =
     t\<lparr>tc_up := legacy_subtractReported (tc_up t) (ut_Upload reported),
       tc_down := legacy_subtractReported (tc_down t) (ut_Download reported)\<rparr>"

definition legacy_hasPending :: "trafficCounter \<Rightarrow> bool" where
  "legacy_hasPending t \<longleftrightarrow> tc_up t > 0 \<or> tc_down t > 0"

definition legacy_currentUID :: "trafficCounter \<Rightarrow> int" where
  "legacy_currentUID t = tc_uid t"

definition legacy_index ::
  "UserTraffic \<Rightarrow> (string \<rightharpoonup> UserTraffic) \<times> (int \<rightharpoonup> UserTraffic) \<Rightarrow>
     (string \<rightharpoonup> UserTraffic) \<times> (int \<rightharpoonup> UserTraffic)" where
  "legacy_index traffic idx =
     (case idx of (byUUID, byUID) \<Rightarrow>
        if ut_UUID traffic \<noteq> [] then
          let merged = map_get zero_traffic byUUID (ut_UUID traffic)
          in (byUUID(ut_UUID traffic \<mapsto>
                merged\<lparr>ut_UID := ut_UID traffic, ut_UUID := ut_UUID traffic,
                       ut_Upload := wrap64 (ut_Upload merged + ut_Upload traffic),
                       ut_Download := wrap64 (ut_Download merged + ut_Download traffic)\<rparr>), byUID)
        else
          let merged = map_get zero_traffic byUID (ut_UID traffic)
          in (byUUID, byUID(ut_UID traffic \<mapsto>
                merged\<lparr>ut_UID := ut_UID traffic,
                       ut_Upload := wrap64 (ut_Upload merged + ut_Upload traffic),
                       ut_Download := wrap64 (ut_Download merged + ut_Download traffic)\<rparr>)))"

definition legacy_indexReportedTraffic ::
  "UserTraffic list \<Rightarrow> (string \<rightharpoonup> UserTraffic) \<times> (int \<rightharpoonup> UserTraffic)" where
  "legacy_indexReportedTraffic reported = fold legacy_index reported (Map.empty, Map.empty)"

section \<open>Users\<close>

text \<open>A new counter in the store, under the uuid.\<close>

definition new_counter :: "string \<Rightarrow> int \<Rightarrow> ProxyServer \<Rightarrow> ProxyServer" where
  "new_counter uuid uid s =
     s\<lparr>px_heap := (px_heap s)(px_next s := \<lparr>tc_uid = uid, tc_up = 0, tc_down = 0\<rparr>),
       px_stats := (px_stats s)(uuid \<mapsto> px_next s),
       px_next := Suc (px_next s)\<rparr>"

definition update_counter :: "(trafficCounter \<Rightarrow> trafficCounter) \<Rightarrow> nat \<Rightarrow> ProxyServer \<Rightarrow> ProxyServer" where
  "update_counter f a s = s\<lparr>px_heap := (px_heap s)(a := f (px_heap s a))\<rparr>"

definition legacy_set_or_new :: "UserInfo \<Rightarrow> ProxyServer \<Rightarrow> ProxyServer" where
  "legacy_set_or_new user s =
     (case px_stats s (ui_Uuid user) of
        Some a \<Rightarrow> update_counter (legacy_setUID (ui_Id user)) a s
      | None \<Rightarrow> new_counter (ui_Uuid user) (ui_Id user) s)"

definition legacy_enter_user :: "UserInfo \<Rightarrow> ProxyServer \<Rightarrow> ProxyServer" where
  "legacy_enter_user user s = s\<lparr>px_users := (px_users s)(ui_Uuid user \<mapsto> user)\<rparr>"

definition legacy_replaceUsers :: "UserInfo list \<Rightarrow> ProxyServer \<Rightarrow> ProxyServer" where
  "legacy_replaceUsers users s = fold legacy_set_or_new users (fold legacy_enter_user users s)"

definition zero_counter :: trafficCounter where
  "zero_counter = \<lparr>tc_uid = 0, tc_up = 0, tc_down = 0\<rparr>"

definition legacy_New :: "NodeInfo \<Rightarrow> UserInfo list \<Rightarrow> (int \<rightharpoonup> int) \<Rightarrow> ProxyServer" where
  "legacy_New node users alive =
     legacy_replaceUsers users
       \<lparr>px_node = node, px_limiter = Limiter.New users alive, px_users = Map.empty,
        px_stats = Map.empty, px_heap = (\<lambda>_. zero_counter), px_next = 0\<rparr>"

definition legacy_SetAliveList :: "(int \<rightharpoonup> int) \<Rightarrow> ProxyServer \<Rightarrow> ProxyServer" where
  "legacy_SetAliveList alive s = s\<lparr>px_limiter := SetAliveList alive (px_limiter s)\<rparr>"

definition legacy_delete :: "UserInfo \<Rightarrow> ProxyServer \<Rightarrow> ProxyServer" where
  "legacy_delete user s =
     (let s1 = s\<lparr>px_users := (px_users s)(ui_Uuid user := None)\<rparr> in
      case px_stats s1 (ui_Uuid user) of
        None \<Rightarrow> s1
      | Some a \<Rightarrow>
          let s2 = update_counter (legacy_setUID (ui_Id user)) a s1
          in if \<not> legacy_hasPending (px_heap s2 a)
             then s2\<lparr>px_stats := (px_stats s2)(ui_Uuid user := None)\<rparr> else s2)"

definition legacy_add :: "UserInfo \<Rightarrow> ProxyServer \<Rightarrow> ProxyServer" where
  "legacy_add user s =
     (let s1 = legacy_enter_user user s in
      case px_stats s1 (ui_Uuid user) of
        None \<Rightarrow> new_counter (ui_Uuid user) (ui_Id user) s1
      | Some _ \<Rightarrow> s1)"

definition legacy_modify :: "UserInfo \<Rightarrow> ProxyServer \<Rightarrow> ProxyServer" where
  "legacy_modify user s = legacy_set_or_new user (legacy_enter_user user s)"

definition legacy_UpdateUsers ::
  "UserInfo list \<Rightarrow> UserInfo list \<Rightarrow> UserInfo list \<Rightarrow> UserInfo list option \<Rightarrow> ProxyServer \<Rightarrow> ProxyServer" where
  "legacy_UpdateUsers added deleted modified full s =
     (let s1 = fold legacy_modify modified (fold legacy_add added (fold legacy_delete deleted s));
          s2 = (case full of None \<Rightarrow> s1 | Some users \<Rightarrow> fold legacy_set_or_new users s1)
      in s2\<lparr>px_limiter := Limiter.UpdateUsers added deleted modified (px_limiter s2)\<rparr>)"

definition legacy_getCounter :: "string \<Rightarrow> ProxyServer \<Rightarrow> nat \<times> ProxyServer" where
  "legacy_getCounter uuid s =
     (case px_stats s uuid of
        Some a \<Rightarrow> (a, s)
      | None \<Rightarrow>
          (px_next s,
           new_counter uuid (case px_users s uuid of Some user \<Rightarrow> ui_Id user | None \<Rightarrow> 0) s))"

section \<open>Reports\<close>

definition legacy_slice_entry :: "int \<Rightarrow> ProxyServer \<Rightarrow> string \<Rightarrow> UserTraffic list" where
  "legacy_slice_entry minTraffic s uuid =
     (case px_stats s uuid of
        None \<Rightarrow> []
      | Some a \<Rightarrow>
          (case legacy_snapshotIfAbove minTraffic (px_heap s a) of
             None \<Rightarrow> []
           | Some snapshot \<Rightarrow> [snapshot\<lparr>ut_UUID := uuid\<rparr>]))"

definition legacy_GetUserTrafficSlice :: "string list \<Rightarrow> int \<Rightarrow> ProxyServer \<Rightarrow> UserTraffic list" where
  "legacy_GetUserTrafficSlice ks minTraffic s = concat (map (legacy_slice_entry minTraffic s) ks)"

definition legacy_confirm_visit ::
  "(string \<rightharpoonup> UserTraffic) \<Rightarrow> (int \<rightharpoonup> UserTraffic) \<Rightarrow> string \<Rightarrow> ProxyServer \<Rightarrow> ProxyServer" where
  "legacy_confirm_visit byUUID byUID uuid s =
     (case px_stats s uuid of
        None \<Rightarrow> s
      | Some a \<Rightarrow>
          let s1 = (case byUUID uuid of
                      Some traffic \<Rightarrow> update_counter (legacy_confirm traffic) a s
                    | None \<Rightarrow>
                        (case byUID (legacy_currentUID (px_heap s a)) of
                           Some traffic \<Rightarrow> update_counter (legacy_confirm traffic) a s
                         | None \<Rightarrow> s))
          in if px_users s1 uuid = None \<and> \<not> legacy_hasPending (px_heap s1 a)
             then s1\<lparr>px_stats := (px_stats s1)(uuid := None)\<rparr> else s1)"

text \<open>\<open>ks\<close> is the order in which the loop walks the counters.\<close>

definition legacy_ConfirmUserTraffic :: "string list \<Rightarrow> UserTraffic list \<Rightarrow> ProxyServer \<Rightarrow> ProxyServer" where
  "legacy_ConfirmUserTraffic ks reported s =
     (if reported = [] then s
      else
        let (byUUID, byUID) = legacy_indexReportedTraffic reported
        in fold (legacy_confirm_visit byUUID byUID) ks s)"

definition legacy_GetOnlineDevice ::
  "string list \<Rightarrow> (string \<Rightarrow> string list) \<Rightarrow> ProxyServer \<Rightarrow> OnlineUser list \<times> ProxyServer" where
  "legacy_GetOnlineDevice ks ips s =
     (case Limiter.GetOnlineDevice ks ips (px_limiter s) of
        (users, l1) \<Rightarrow> (users, s\<lparr>px_limiter := l1\<rparr>))"

section \<open>Authentication\<close>

type_synonym header = "string \<rightharpoonup> string list"

definition header_Get :: "header \<Rightarrow> string \<Rightarrow> string" where
  "header_Get h key = (case h key of Some (v # _) \<Rightarrow> v | _ \<Rightarrow> [])"

definition parseBasicAuth :: "string \<Rightarrow> (string \<times> string) option" where
  "parseBasicAuth auth =
     (if \<not> HasPrefix auth ''Basic '' then None
      else (case b64_decode (drop (length ''Basic '') auth) of
              None \<Rightarrow> None
            | Some decoded \<Rightarrow> split2 (CHR '':'') decoded))"

definition clientIP :: "string \<Rightarrow> string" where
  "clientIP remoteAddr = (case SplitHostPort remoteAddr of None \<Rightarrow> remoteAddr | Some (host, _) \<Rightarrow> host)"

definition canonicalAddr :: "string \<Rightarrow> string \<Rightarrow> string" where
  "canonicalAddr hostport0 defaultPort =
     (let hostport = TrimSpace hostport0 in
      if hostport = [] then '':'' @ defaultPort
      else if SplitHostPort hostport \<noteq> None then hostport
      else JoinHostPort hostport defaultPort)"

record http_url =
  url_Scheme :: string
  url_Host :: string
  url_Path :: string
  url_RawQuery :: string

record Request =
  rq_Method :: string
  rq_Host :: string
  rq_URL :: "http_url option"
  rq_RequestURI :: string
  rq_Header :: header
  rq_RemoteAddr :: string
  rq_ProtoMajor :: int

datatype auth_error = MissingAuth | InvalidAuth | DeviceLimit

definition authenticate ::
  "Request \<Rightarrow> ProxyServer \<Rightarrow> (auth_error + UserInfo \<times> bucket option) \<times> ProxyServer" where
  "authenticate r s =
     (let authHeader = (if header_Get (rq_Header r) ''Proxy-Authorization'' = []
                        then header_Get (rq_Header r) ''Authorization''
                        else header_Get (rq_Header r) ''Proxy-Authorization'') in
      case parseBasicAuth authHeader of
        None \<Rightarrow> (Inl MissingAuth, s)
      | Some (username, password) \<Rightarrow>
          (case px_users s username of
             None \<Rightarrow> (Inl InvalidAuth, s)
           | Some user \<Rightarrow>
               if password \<noteq> ui_Uuid user then (Inl InvalidAuth, s)
               else (case CheckLimit (ui_Uuid user) (clientIP (rq_RemoteAddr r)) (px_limiter s) of
                       ((b, reject), l1) \<Rightarrow>
                         let s1 = s\<lparr>px_limiter := l1\<rparr> in
                         if reject then (Inl DeviceLimit, s1) else (Inr (user, b), s1))))"

text \<open>What ServeHTTP answers, or which handler it hands the request to.\<close>

datatype served =
    DeviceLimitReached
  | ProxyAuthRequired
  | HandleConnect UserInfo "bucket option"
  | HandleHTTP UserInfo "bucket option"

definition legacy_ServeHTTP :: "Request \<Rightarrow> ProxyServer \<Rightarrow> served \<times> ProxyServer" where
  "legacy_ServeHTTP r s =
     (case authenticate r s of
        (Inl DeviceLimit, s1) \<Rightarrow> (DeviceLimitReached, s1)
      | (Inl _, s1) \<Rightarrow> (ProxyAuthRequired, s1)
      | (Inr (user, b), s1) \<Rightarrow>
          ((if rq_Method r = ''CONNECT'' then HandleConnect user b else HandleHTTP user b), s1))"

section \<open>Tunnels\<close>

text \<open>
  \<^verbatim>\<open>copyWithAccount\<close>: the bytes are copied first and added to the counter the caller holds
  when the copy ends, whether it failed or not.
\<close>

definition copyWithAccount :: "int \<Rightarrow> nat \<Rightarrow> bool \<Rightarrow> ProxyServer \<Rightarrow> ProxyServer" where
  "copyWithAccount n counter upload s =
     (if upload then update_counter (legacy_addUpload n) counter s
      else update_counter (legacy_addDownload n) counter s)"

text \<open>One read of a request body counts as it goes.\<close>

definition countingReader_Read :: "int \<Rightarrow> nat \<Rightarrow> bool \<Rightarrow> ProxyServer \<Rightarrow> ProxyServer" where
  "countingReader_Read n counter upload s =
     (if upload then update_counter (legacy_addUpload n) counter s
      else update_counter (legacy_addDownload n) counter s)"

text \<open>
  Setting up a CONNECT tunnel: dialling, hijacking and greeting may fail, the bytes the
  client sent ahead are copied to the target, and the tunnel runs with the counter the
  user has then.
\<close>

datatype connect_result =
    ConnectBadGateway string
  | ConnectServerError string
  | ConnectAborted
  | ConnectTunnel nat

definition handleConnect ::
  "(string \<Rightarrow> string option) \<Rightarrow> bool \<Rightarrow> string option \<Rightarrow> bool \<Rightarrow> int \<Rightarrow> Request \<Rightarrow> UserInfo \<Rightarrow>
     ProxyServer \<Rightarrow> connect_result \<times> ProxyServer" where
  "handleConnect dial_err canHijack hijack_err greeted buffered r user s =
     (let targetAddr = canonicalAddr (rq_Host r) ''443'' in
      case dial_err targetAddr of
        Some err \<Rightarrow> (ConnectBadGateway err, s)
      | None \<Rightarrow>
          if rq_ProtoMajor r = 1 then
            (if \<not> canHijack then (ConnectServerError ''hijack not supported'', s)
             else (case hijack_err of
                Some err \<Rightarrow> (ConnectServerError err, s)
              | None \<Rightarrow>
                  if \<not> greeted then (ConnectAborted, s)
                  else
                    let s1 = (if buffered > 0
                              then (case legacy_getCounter (ui_Uuid user) s of
                                      (a, s') \<Rightarrow> copyWithAccount buffered a True s')
                              else s);
                        (a, s2) = legacy_getCounter (ui_Uuid user) s1
                    in (ConnectTunnel a, s2)))
          else
            let (a, s1) = legacy_getCounter (ui_Uuid user) s in (ConnectTunnel a, s1))"

section \<open>Forwarded requests\<close>

definition proxy_headers :: "string list" where
  "proxy_headers =
     [''Proxy-Authorization'', ''Proxy-Connection'', ''Connection'', ''Keep-Alive'', ''Te'',
      ''Trailer'', ''Transfer-Encoding'', ''Upgrade'']"

definition stripProxyHeaders :: "header \<Rightarrow> header" where
  "stripProxyHeaders h = fold (\<lambda>key h. h(key := None)) proxy_headers h"

definition cloneHeader :: "header \<Rightarrow> header" where
  "cloneHeader h = range_update (\<lambda>k values. Some values) h"

text \<open>\<^verbatim>\<open>handleHTTP\<close>: the outgoing request, \<open>None\<close> for a request without URL (400).\<close>

definition legacy_outReq :: "Request \<Rightarrow> Request option" where
  "legacy_outReq r =
     (case rq_URL r of
        None \<Rightarrow> None
      | Some u \<Rightarrow>
          let url = (if url_Scheme u = []
                     then \<lparr>url_Scheme = ''http'', url_Host = rq_Host r, url_Path = url_Path u,
                           url_RawQuery = url_RawQuery u\<rparr>
                     else u)
          in Some (r\<lparr>rq_URL := Some url, rq_RequestURI := [],
                     rq_Header := stripProxyHeaders (cloneHeader (rq_Header r))\<rparr>))"

definition upper_char :: "char \<Rightarrow> char" where
  "upper_char c = (let n = of_char c :: nat in if 97 \<le> n \<and> n \<le> 122 then char_of (n - 32) else c)"

text \<open>\<^verbatim>\<open>textproto.CanonicalMIMEHeaderKey\<close>: unchanged if a byte is no token character.\<close>

definition token_char :: "char \<Rightarrow> bool" where
  "token_char c =
     (let n = of_char c :: nat in
      48 \<le> n \<and> n \<le> 57 \<or> 65 \<le> n \<and> n \<le> 90 \<or> 97 \<le> n \<and> n \<le> 122 \<or> c \<in> set ''!#$%&*+-.^_`|~'' \<or> n = 39)"

fun canonical_letters :: "bool \<Rightarrow> string \<Rightarrow> string" where
  "canonical_letters upper [] = []"
| "canonical_letters upper (c # cs) =
     (if upper then upper_char c else lower_char c) # canonical_letters (c = CHR ''-'') cs"

definition CanonicalMIMEHeaderKey :: "string \<Rightarrow> string" where
  "CanonicalMIMEHeaderKey s = (if \<forall>c\<in>set s. token_char c then canonical_letters True s else s)"

definition header_Add :: "string \<Rightarrow> string \<Rightarrow> header \<Rightarrow> header" where
  "header_Add key v h = h(key \<mapsto> map_get [] h key @ [v])"

text \<open>The entries of \<open>src\<close> in the order the loop takes.\<close>

definition copyHeader :: "(string \<times> string list) list \<Rightarrow> header \<Rightarrow> header" where
  "copyHeader src dst =
     fold (\<lambda>(key, values) h. fold (header_Add (CanonicalMIMEHeaderKey key)) values h) src dst"

section \<open>Copying\<close>

text \<open>
  \<^verbatim>\<open>handleHTTP\<close>: \<open>reads\<close> are the sizes of the reads the transport makes of the request's body,
  if there is one; \<open>roundTrip\<close> is the transport's answer with the number of bytes of the
  body that reach the client.
\<close>

datatype http_result =
    HttpBadRequest
  | HttpBadGateway string
  | HttpAnswered int header

definition handleHTTP ::
  "(Request \<Rightarrow> string + int \<times> (string \<times> string list) list \<times> int) \<Rightarrow> int list option \<Rightarrow> Request \<Rightarrow> UserInfo \<Rightarrow>
     ProxyServer \<Rightarrow> http_result \<times> ProxyServer" where
  "handleHTTP roundTrip reads r user s =
     (case legacy_outReq r of
        None \<Rightarrow> (HttpBadRequest, s)
      | Some outReq \<Rightarrow>
          let s1 = (case reads of
                      None \<Rightarrow> s
                    | Some ns \<Rightarrow> (case legacy_getCounter (ui_Uuid user) s of
                        (a, s') \<Rightarrow> fold (\<lambda>n. countingReader_Read n a True) ns s'))
          in (case roundTrip outReq of
                Inl err \<Rightarrow> (HttpBadGateway err, s1)
              | Inr (status, hdr, n) \<Rightarrow>
                  (case legacy_getCounter (ui_Uuid user) s1 of
                     (a, s2) \<Rightarrow> (HttpAnswered status (copyHeader hdr Map.empty), copyWithAccount n a False s2))))"

text \<open>
  \<^verbatim>\<open>pipeTunnel\<close>: the two copies of a tunnel, up (\<open>True\<close>) and down, in the order their writes
  happen; the first copy to end closes both connections.
\<close>

definition pipeTunnel :: "(bool \<times> int) list \<Rightarrow> nat \<Rightarrow> ProxyServer \<Rightarrow> ProxyServer" where
  "pipeTunnel copies counter s = fold (\<lambda>(upload, n). copyWithAccount n counter upload) copies s"

end
