(* ===== verification/Engines.thy ===== *)
theory Engines
  imports Controller CaddyConfig LegacyProxy
begin

text \<open>
  The two engines behind the interface \<^verbatim>\<open>Server\<close> (\<^verbatim>\<open>internal/server\<close>): the factory, the
  methods of each, and the contract the controller relies on, as a locale with both
  engines as its instance.
\<close>

section \<open>The factory\<close>

text \<open>An engine with its process state: for the built-in one, whether it listens.\<close>

datatype engine =
    LegacyEngine ProxyServer bool
  | CaddyEngine CaddyServer CaddyProcess

definition server_New ::
  "NodeInfo \<Rightarrow> UserInfo list \<Rightarrow> (int \<rightharpoonup> int) \<Rightarrow> RuntimeConfig \<Rightarrow> string + engine" where
  "server_New node users alive runtime =
     (if EngineName runtime = EngineLegacy then Inr (LegacyEngine (legacy_New node users alive) False)
      else if EngineName runtime = EngineCaddy then
        Inr (CaddyEngine (caddy_New node users alive runtime) \<lparr>cp_cmd = False, cp_auth = None\<rparr>)
      else Inl (''unsupported runtime engine: '' @ rc_Engine runtime))"

section \<open>The methods\<close>

text \<open>What starting meets, and the orders the loops over maps take.\<close>

record engine_env =
  ee_loadCert :: "string option"
  ee_listenTLS :: "string option"
  ee_start :: start_env
  ee_polls :: "poll list"
  ee_stats :: "(string \<rightharpoonup> trafficCounter) \<Rightarrow> string list"
  ee_legacy_stats :: "(string \<rightharpoonup> nat) \<Rightarrow> string list"
  ee_online :: "CaddyServer \<Rightarrow> string list \<times> (string \<Rightarrow> string list)"
  ee_limiter :: "Limiter \<Rightarrow> string list \<times> (string \<Rightarrow> string list)"

definition legacy_Start :: "engine_env \<Rightarrow> ProxyServer \<Rightarrow> string option" where
  "legacy_Start env s =
     (if ni_CertInfo (px_node s) = None then Some ''cert info is nil''
      else (case ee_loadCert env of
         Some err \<Rightarrow> Some (''load cert pair error: '' @ err)
       | None \<Rightarrow>
           (case ee_listenTLS env of
              Some err \<Rightarrow> Some (''listen error: '' @ err)
            | None \<Rightarrow> None)))"

fun engine_Start :: "engine_env \<Rightarrow> engine \<Rightarrow> string option \<times> engine" where
  "engine_Start env (LegacyEngine s listening) =
     (case legacy_Start env s of
        Some err \<Rightarrow> (Some err, LegacyEngine s listening)
      | None \<Rightarrow> (None, LegacyEngine s True))"
| "engine_Start env (CaddyEngine s p) =
     (case caddy_Start (cs_runtime s) (cs_adminAddr s) (ee_start env) (ee_polls env) p of
        (err, p1) \<Rightarrow> (err, CaddyEngine s p1))"

fun engine_Close :: "engine \<Rightarrow> engine" where
  "engine_Close (LegacyEngine s listening) = LegacyEngine s False"
| "engine_Close (CaddyEngine s p) = CaddyEngine s (stopLocked p)"

fun engine_SetAliveList :: "(int \<rightharpoonup> int) \<Rightarrow> engine \<Rightarrow> engine" where
  "engine_SetAliveList alive (LegacyEngine s b) = LegacyEngine (legacy_SetAliveList alive s) b"
| "engine_SetAliveList alive (CaddyEngine s p) = CaddyEngine (caddy_SetAliveList alive s) p"

fun engine_UpdateUsers ::
  "UserInfo list \<Rightarrow> UserInfo list \<Rightarrow> UserInfo list \<Rightarrow> UserInfo list option \<Rightarrow> engine \<Rightarrow> engine" where
  "engine_UpdateUsers added deleted modified full (LegacyEngine s b) =
     LegacyEngine (legacy_UpdateUsers added deleted modified full s) b"
| "engine_UpdateUsers added deleted modified full (CaddyEngine s p) =
     CaddyEngine (caddy_UpdateUsers added deleted modified full s) p"

fun engine_slice :: "engine_env \<Rightarrow> int \<Rightarrow> engine \<Rightarrow> UserTraffic list" where
  "engine_slice env m (LegacyEngine s b) =
     legacy_GetUserTrafficSlice (ee_legacy_stats env (px_stats s)) m s"
| "engine_slice env m (CaddyEngine s p) = caddy_GetUserTrafficSlice (ee_stats env (cs_stats s)) m s"

fun engine_confirm :: "engine_env \<Rightarrow> UserTraffic list \<Rightarrow> engine \<Rightarrow> engine" where
  "engine_confirm env reported (LegacyEngine s b) =
     LegacyEngine (legacy_ConfirmUserTraffic (ee_legacy_stats env (px_stats s)) reported s) b"
| "engine_confirm env reported (CaddyEngine s p) = CaddyEngine (caddy_ConfirmUserTraffic reported s) p"

fun engine_devices :: "engine_env \<Rightarrow> engine \<Rightarrow> OnlineUser list \<times> engine" where
  "engine_devices env (LegacyEngine s b) =
     (case ee_limiter env (px_limiter s) of
        (ks, ips) \<Rightarrow> (case legacy_GetOnlineDevice ks ips s of (users, s1) \<Rightarrow> (users, LegacyEngine s1 b)))"
| "engine_devices env (CaddyEngine s p) =
     (case ee_online env s of (ks, ips) \<Rightarrow> (caddy_GetOnlineDevice ks ips s, CaddyEngine s p))"

definition engine_server :: "engine_env \<Rightarrow> engine Server" where
  "engine_server env =
     \<lparr>sv_Start = engine_Start env, sv_Close = engine_Close, sv_SetAliveList = engine_SetAliveList,
      sv_UpdateUsers = engine_UpdateUsers, sv_GetUserTrafficSlice = engine_slice env,
      sv_ConfirmUserTraffic = engine_confirm env, sv_GetOnlineDevice = engine_devices env\<rparr>"

lemma engine_server_sel [simp]:
  "sv_Start (engine_server env) = engine_Start env"
  "sv_Close (engine_server env) = engine_Close"
  "sv_SetAliveList (engine_server env) = engine_SetAliveList"
  "sv_UpdateUsers (engine_server env) = engine_UpdateUsers"
  "sv_GetUserTrafficSlice (engine_server env) = engine_slice env"
  "sv_ConfirmUserTraffic (engine_server env) = engine_confirm env"
  "sv_GetOnlineDevice (engine_server env) = engine_devices env"
  by (simp_all add: engine_server_def)

section \<open>The contract\<close>

text \<open>What the two tasks do to the engine and the user list.\<close>

lemma reportTask_server:
  "\<exists>s1. (s1 = ct_server c \<or> (\<exists>rep. s1 = sv_ConfirmUserTraffic srv rep (ct_server c))) \<and>
     ct_server (snd (reportUserTrafficTask srv post_traffic post_online c)) \<in>
       {s1, snd (sv_GetOnlineDevice srv s1)} \<and>
     ct_userList (snd (reportUserTrafficTask srv post_traffic post_online c)) = ct_userList c"
proof -
  let ?min = "case ct_info c of None \<Rightarrow> 0 | Some info \<Rightarrow> bc_NodeReportMinTraffic (ni_BaseConfig info)"
  let ?ut = "sv_GetUserTrafficSlice srv ?min (ct_server c)"
  obtain failed c1 where first: "(if length ?ut > 0 then
      (case ReportUserTraffic post_traffic ?ut of
         Some err \<Rightarrow> (ctx_result err, c)
       | None \<Rightarrow> (None, c\<lparr>ct_server := sv_ConfirmUserTraffic srv ?ut (ct_server c)\<rparr>))
      else (None, c)) = (failed, c1)" by (metis surj_pair)
  then have c1: "c1 = c \<or> c1 = c\<lparr>ct_server := sv_ConfirmUserTraffic srv ?ut (ct_server c)\<rparr>"
    by (auto split: if_splits option.splits)
  have "ct_server (snd (reportUserTrafficTask srv post_traffic post_online c)) \<in>
      {ct_server c1, snd (sv_GetOnlineDevice srv (ct_server c1))} \<and>
    ct_userList (snd (reportUserTrafficTask srv post_traffic post_online c)) = ct_userList c1"
    unfolding reportUserTrafficTask_def Let_def first prod.case
    by (cases failed; cases "sv_GetOnlineDevice srv (ct_server c1)") (auto split: option.split)
  with c1 show ?thesis by (intro exI [of _ "ct_server c1"]) auto
qed

lemma saveCurrent_frame [simp]:
  "ct_server (saveCurrentPanelSnapshot senv c) = ct_server c"
  "ct_userList (saveCurrentPanelSnapshot senv c) = ct_userList c"
  "ct_client (saveCurrentPanelSnapshot senv c) = ct_client c"
  "ct_aliveList (saveCurrentPanelSnapshot senv c) = ct_aliveList c"
  by (simp_all add: saveCurrentPanelSnapshot_def split: option.split prod.split)

lemma monitor_cases [case_names keep alive update]:
  assumes "ct_server (snd (nodeInfoMonitor srv order env senv c)) = ct_server c \<Longrightarrow>
      ct_userList (snd (nodeInfoMonitor srv order env senv c)) = ct_userList c \<Longrightarrow> P"
    and "\<And>alive.
      ct_server (snd (nodeInfoMonitor srv order env senv c)) = sv_SetAliveList srv alive (ct_server c) \<Longrightarrow>
      ct_userList (snd (nodeInfoMonitor srv order env senv c)) = ct_userList c \<Longrightarrow> P"
    and "\<And>alive users deleted added modified.
      fst (ask_users env (snd (ask_node env (ct_client c)))) = Inr (Some users) \<Longrightarrow>
      compareUserList order (ct_userList c) users = (deleted, added, modified) \<Longrightarrow>
      ct_server (snd (nodeInfoMonitor srv order env senv c)) =
        sv_UpdateUsers srv added deleted modified (Some users) (sv_SetAliveList srv alive (ct_server c)) \<Longrightarrow>
      ct_userList (snd (nodeInfoMonitor srv order env senv c)) = users \<Longrightarrow> P"
  shows P
proof (cases "ask_node env (ct_client c)")
  case node: (Pair r cl1)
  show ?thesis
  proof (cases "r = Inr None")
    case False
    with node assms(1) show ?thesis
      by (auto simp: nodeInfoMonitor_def triggerReload_def Let_def split: sum.splits option.splits prod.splits)
  next
    case True
    show ?thesis
    proof (cases "ask_users env cl1")
      case us: (Pair u cl2)
      show ?thesis
      proof (cases u)
        case (Inl err)
        with node True us assms(1) show ?thesis by (simp add: nodeInfoMonitor_def)
      next
        case u: (Inr newUsers)
        show ?thesis
        proof (cases "ask_alive env")
          case (Inl err)
          with node True us u assms(1) show ?thesis by (simp add: nodeInfoMonitor_def)
        next
          case al: (Inr alive)
          show ?thesis
          proof (cases newUsers)
            case None
            with node True us u al assms(2) show ?thesis by (simp add: nodeInfoMonitor_def)
          next
            case (Some users)
            obtain d a m where cmp: "compareUserList order (ct_userList c) users = (d, a, m)"
              by (metis prod_cases3)
            show ?thesis
            proof (cases "a = [] \<and> d = [] \<and> m = []")
              case True': True
              with node True us u al Some cmp assms(2) show ?thesis by (simp add: nodeInfoMonitor_def)
            next
              case False': False
              with node True us u al Some cmp assms(3) show ?thesis
                by (auto simp: nodeInfoMonitor_def cloneUserList_def)
            qed
          qed
        qed
      qed
    qed
  qed
qed

text \<open>Speed and device limit per uuid in an engine's own user table.\<close>

definition table_settings :: "(string \<rightharpoonup> UserInfo) \<Rightarrow> (string \<rightharpoonup> int \<times> int)" where
  "table_settings m = (\<lambda>uuid. map_option settings (m uuid))"

locale user_engine =
  fixes srv :: "'s Server" and users_of :: "'s \<Rightarrow> (string \<rightharpoonup> UserInfo)" and limiter_of :: "'s \<Rightarrow> Limiter"
  assumes update_limiter:
    "limiter_of (sv_UpdateUsers srv added deleted modified full s) =
       Limiter.UpdateUsers added deleted modified (limiter_of s)"
  and update_users:
    "distinct (map ui_Uuid newUsers) \<Longrightarrow> order_ok order \<Longrightarrow>
     compareUserList order oldUsers newUsers = (deleted, added, modified) \<Longrightarrow>
     table_settings (users_of s) = settings_of oldUsers \<Longrightarrow>
     table_settings (users_of (sv_UpdateUsers srv added deleted modified (Some newUsers) s)) =
       settings_of newUsers"
  and alive_law:
    "users_of (sv_SetAliveList srv alive s) = users_of s"
    "limiter_of (sv_SetAliveList srv alive s) = SetAliveList alive (limiter_of s)"
  and confirm_law:
    "users_of (sv_ConfirmUserTraffic srv rep s) = users_of s"
    "limiter_of (sv_ConfirmUserTraffic srv rep s) = limiter_of s"
  and devices_law:
    "users_of (snd (sv_GetOnlineDevice srv s)) = users_of s"
    "limiter_settings (limiter_of (snd (sv_GetOnlineDevice srv s))) = limiter_settings (limiter_of s)"
begin

text \<open>The engine knows exactly the users of the list, with their limits.\<close>

definition synced :: "'s \<Rightarrow> UserInfo list \<Rightarrow> bool" where
  "synced s users \<longleftrightarrow>
     table_settings (users_of s) = settings_of users \<and> limiter_settings (limiter_of s) = settings_of users"

lemma synced_alive: "synced s users \<Longrightarrow> synced (sv_SetAliveList srv alive s) users"
  by (simp add: synced_def alive_law limiter_settings_def SetAliveList_def)

lemma synced_update:
  assumes "synced s oldUsers" and "distinct (map ui_Uuid newUsers)" and "order_ok order"
    and "compareUserList order oldUsers newUsers = (deleted, added, modified)"
  shows "synced (sv_UpdateUsers srv added deleted modified (Some newUsers) s) newUsers"
  using assms update_users [OF assms(2-4)] update_settings [OF assms(2-4)]
  by (simp add: synced_def update_limiter)

lemma synced_confirm: "synced s users \<Longrightarrow> synced (sv_ConfirmUserTraffic srv rep s) users"
  by (simp add: synced_def confirm_law)

lemma synced_devices: "synced s users \<Longrightarrow> synced (snd (sv_GetOnlineDevice srv s)) users"
  by (simp add: synced_def devices_law)

lemma synced_report:
  assumes "synced (ct_server c) users"
  shows "synced (ct_server (snd (reportUserTrafficTask srv post_traffic post_online c))) users"
proof -
  from reportTask_server [where srv = srv and post_traffic = post_traffic and post_online = post_online and c = c]
  obtain s1 where s1: "s1 = ct_server c \<or> (\<exists>rep. s1 = sv_ConfirmUserTraffic srv rep (ct_server c))"
    and last: "ct_server (snd (reportUserTrafficTask srv post_traffic post_online c)) \<in>
      {s1, snd (sv_GetOnlineDevice srv s1)}" by blast
  from s1 have "synced s1 users" using assms synced_confirm by auto
  with last show ?thesis using synced_devices by auto
qed

lemma synced_monitor:
  assumes "synced (ct_server c) (ct_userList c)" and "order_ok order"
    and "\<And>users. fst (ask_users env (snd (ask_node env (ct_client c)))) = Inr (Some users) \<Longrightarrow>
      distinct (map ui_Uuid users)"
  shows "synced (ct_server (snd (nodeInfoMonitor srv order env senv c)))
     (ct_userList (snd (nodeInfoMonitor srv order env senv c)))"
proof (cases rule: monitor_cases [where srv = srv and order = order and env = env and senv = senv and c = c])
  case keep
  with assms(1) show ?thesis by simp
next
  case (alive alive)
  with assms(1) show ?thesis by (simp add: synced_alive)
next
  case (update alive users d a m)
  then show ?thesis
    using synced_update [OF synced_alive [OF assms(1)] assms(3) [OF update(1)] assms(2) update(2)] by simp
qed

end

section \<open>Both engines keep the contract\<close>

fun engine_users :: "engine \<Rightarrow> (string \<rightharpoonup> UserInfo)" where
  "engine_users (LegacyEngine s b) = px_users s"
| "engine_users (CaddyEngine s p) = cs_users s"

fun engine_limiter :: "engine \<Rightarrow> Limiter" where
  "engine_limiter (LegacyEngine s b) = px_limiter s"
| "engine_limiter (CaddyEngine s p) = cs_limiter s"

lemma table_settings_put: "table_settings (put_user u m) = (table_settings m)(ui_Uuid u \<mapsto> settings u)"
  by (auto simp: table_settings_def put_user_def fun_eq_iff)

lemma table_settings_fold_put: "table_settings (fold put_user us m) = table_settings m ++ settings_of us"
  unfolding fold_put_user by (auto simp: table_settings_def settings_of_def map_add_def fun_eq_iff split: option.split)

lemma caddy_replace_users: "cs_users (replaceUsers users s) = old_map users"
proof -
  have "enter_user = put_user" by (simp add: fun_eq_iff enter_user_def put_user_def)
  then show ?thesis by (simp add: replaceUsers_def Let_def old_map_def)
qed

lemma caddy_update_users:
  "cs_users (caddy_UpdateUsers added deleted modified (Some users) s) = old_map users"
  by (simp add: caddy_UpdateUsers_def Let_def caddy_replace_users)

text \<open>The built-in engine's table changes as the limiter's does: deletions, additions, changes.\<close>

lemma legacy_update_table:
  "px_users (legacy_UpdateUsers added deleted modified full s) =
     fold put_user modified (fold put_user added
       (fold (\<lambda>u m. m(ui_Uuid u := None)) deleted (px_users s)))"
proof -
  have d: "px_users (fold legacy_delete us s) = fold (\<lambda>u m. m(ui_Uuid u := None)) us (px_users s)" for us s
    by (induction us arbitrary: s)
       (simp_all add: legacy_delete_def Let_def update_counter_def split: option.split)
  have a: "px_users (fold legacy_add us s) = fold put_user us (px_users s)" for us s
    by (induction us arbitrary: s)
       (simp_all add: legacy_add_def Let_def legacy_enter_user_def new_counter_def put_user_def split: option.split)
  have so: "px_users (legacy_set_or_new u s) = px_users s" for u s
    by (simp add: legacy_set_or_new_def update_counter_def new_counter_def split: option.split)
  have m: "px_users (fold legacy_modify us s) = fold put_user us (px_users s)" for us s
    by (induction us arbitrary: s) (simp_all add: legacy_modify_def legacy_enter_user_def put_user_def so)
  have f: "px_users (fold legacy_set_or_new us s) = px_users s" for us s
    by (induction us arbitrary: s) (simp_all add: so)
  show ?thesis
    by (cases full) (simp_all add: legacy_UpdateUsers_def Let_def d a m f)
qed

lemma fold_delete_table:
  "fold (\<lambda>u m. m(ui_Uuid u := None)) us m uuid = (if uuid \<in> ui_Uuid ` set us then None else m uuid)"
  by (induction us arbitrary: m) auto


lemma table_settings_old_map: "table_settings (old_map us) = settings_of us"
  by (simp add: table_settings_def settings_of_def)

lemma legacy_table_follows:
  assumes "distinct (map ui_Uuid newUsers)" and "order_ok order"
    and "compareUserList order oldUsers newUsers = (deleted, added, modified)"
    and "table_settings (px_users s) = settings_of oldUsers"
  shows "table_settings (px_users (legacy_UpdateUsers added deleted modified full s)) = settings_of newUsers"
proof -
  let ?d = "fold (\<lambda>u m. m(ui_Uuid u := None)) deleted (px_users s)"
  have "table_settings ?d v = (if v \<in> ui_Uuid ` set deleted then None else settings_of oldUsers v)" for v
    using assms(4) by (simp add: table_settings_def fold_delete_table fun_eq_iff)
  from diff_settings_commute [OF assms(1-3) this] show ?thesis
    by (simp only: legacy_update_table table_settings_fold_put)
qed


lemma caddy_update_limiter:
  "cs_limiter (caddy_UpdateUsers added deleted modified full s) =
     Limiter.UpdateUsers added deleted modified (cs_limiter s)"
proof -
  have d: "cs_limiter (fold delta_delete us s) = cs_limiter s" for us s
    by (induction us arbitrary: s) (simp_all add: delta_delete_def)
  have a: "cs_limiter (fold delta_add us s) = cs_limiter s" for us s
    by (induction us arbitrary: s) (simp_all add: delta_add_def)
  have m: "cs_limiter (fold delta_modify us s) = cs_limiter s" for us s
    by (induction us arbitrary: s) (simp_all add: delta_modify_def)
  show ?thesis
    by (simp add: caddy_UpdateUsers_def applyUserDelta_def replaceUsers_def Let_def d a m split: option.split)
qed

lemma legacy_update_limiter:
  "px_limiter (legacy_UpdateUsers added deleted modified full s) =
     Limiter.UpdateUsers added deleted modified (px_limiter s)"
proof -
  have so: "px_limiter (legacy_set_or_new u s) = px_limiter s" for u s
    by (simp add: legacy_set_or_new_def update_counter_def new_counter_def split: option.split)
  have f: "px_limiter (fold legacy_set_or_new us s) = px_limiter s" for us s
    by (induction us arbitrary: s) (simp_all add: so)
  have d: "px_limiter (fold legacy_delete us s) = px_limiter s" for us s
    by (induction us arbitrary: s)
       (simp_all add: legacy_delete_def Let_def update_counter_def split: option.split)
  have a: "px_limiter (fold legacy_add us s) = px_limiter s" for us s
    by (induction us arbitrary: s)
       (simp_all add: legacy_add_def Let_def legacy_enter_user_def new_counter_def split: option.split)
  have m: "px_limiter (fold legacy_modify us s) = px_limiter s" for us s
    by (induction us arbitrary: s) (simp_all add: legacy_modify_def legacy_enter_user_def so)
  show ?thesis by (simp add: legacy_UpdateUsers_def Let_def d a m f split: option.split)
qed

lemma collect_settings: "limiter_settings (snd (GetOnlineDevice ks ips l)) = limiter_settings l"
proof -
  have "LimitInfo (snd (fold (collect_user ips) ks ul)) = LimitInfo (snd ul)" for ul
    by (induction ks arbitrary: ul)
       (auto simp: collect_user_def Let_def split: prod.splits option.splits)
  then show ?thesis by (simp add: GetOnlineDevice_def limiter_settings_def)
qed

lemma legacy_confirm_frame:
  "px_users (legacy_ConfirmUserTraffic ks rep s) = px_users s \<and>
   px_limiter (legacy_ConfirmUserTraffic ks rep s) = px_limiter s"
proof -
  have v: "px_users (legacy_confirm_visit byUUID byUID uuid s) = px_users s \<and>
      px_limiter (legacy_confirm_visit byUUID byUID uuid s) = px_limiter s" for byUUID byUID uuid s
    by (simp add: legacy_confirm_visit_def update_counter_def Let_def split: option.split)
  have "px_users (fold (legacy_confirm_visit byUUID byUID) ks s) = px_users s \<and>
      px_limiter (fold (legacy_confirm_visit byUUID byUID) ks s) = px_limiter s" for byUUID byUID
    by (induction ks arbitrary: s) (simp_all add: v)
  then show ?thesis by (simp add: legacy_ConfirmUserTraffic_def split: prod.split)
qed

interpretation engine_contract: user_engine "engine_server env" engine_users engine_limiter for env
proof (unfold_locales, unfold engine_server_sel)
  show "engine_limiter (engine_UpdateUsers added deleted modified full s) =
      Limiter.UpdateUsers added deleted modified (engine_limiter s)" for added deleted modified full s
    by (cases s) (simp_all add: caddy_update_limiter legacy_update_limiter)
  show "table_settings (engine_users (engine_UpdateUsers added deleted modified (Some newUsers) s)) =
      settings_of newUsers"
    if "distinct (map ui_Uuid newUsers)" "order_ok order"
      "compareUserList order oldUsers newUsers = (deleted, added, modified)"
      "table_settings (engine_users s) = settings_of oldUsers"
    for newUsers order oldUsers deleted added modified s
    using legacy_table_follows [OF that(1-3)] that(4)
    by (cases s) (simp_all add: caddy_update_users table_settings_old_map)
  show "engine_users (engine_SetAliveList alive s) = engine_users s"
    "engine_limiter (engine_SetAliveList alive s) = SetAliveList alive (engine_limiter s)" for alive s
    by (cases s; simp add: legacy_SetAliveList_def caddy_SetAliveList_def)+
  show "engine_users (engine_confirm env rep s) = engine_users s"
    "engine_limiter (engine_confirm env rep s) = engine_limiter s" for rep s
    by (cases s; simp add: legacy_confirm_frame caddy_ConfirmUserTraffic_def Let_def split: prod.split)+
  show "engine_users (snd (engine_devices env s)) = engine_users s" for s
    by (cases s) (simp_all add: legacy_GetOnlineDevice_def split: prod.split)
  show "limiter_settings (engine_limiter (snd (engine_devices env s))) =
      limiter_settings (engine_limiter s)" for s
  proof (cases s)
    case (LegacyEngine p b)
    obtain ks ips where e: "ee_limiter env (px_limiter p) = (ks, ips)" by (metis surj_pair)
    obtain users l1 where g: "Limiter.GetOnlineDevice ks ips (px_limiter p) = (users, l1)" by (metis surj_pair)
    from collect_settings [of ks ips "px_limiter p"] show ?thesis
      by (simp add: LegacyEngine e legacy_GetOnlineDevice_def g)
  qed (simp split: prod.split)
qed

end
