(* ===== verification/Ledger.thy ===== *)
theory Ledger
  imports Traffic
begin

text \<open>
  What both engines promise the panel about traffic.  A \<open>ledger\<close> runs an engine together
  with two ghost accounts per user: the bytes its tunnels have moved and the bytes the
  panel has accepted.  The report cycle is the controller's: take a slice, post it, and
  confirm it only if the post succeeded; traffic, user updates and failed posts may
  happen at any point in between.  The locale states the contract of one engine and
  proves that the accounts always balance.
\<close>

section \<open>The operations of an engine\<close>

text \<open>
  \<open>op_up\<close> and \<open>op_down\<close> read the bytes pending for a uuid, \<open>op_traffic\<close> relates the
  states before and after a tunnel of the user reports bytes, \<open>op_internal\<close> those before
  and after any operation that moves no bytes; \<open>op_order\<close> says which orders a loop over the
  counters may take.
\<close>

record 's traffic_ops =
  op_up :: "'s \<Rightarrow> string \<Rightarrow> int"
  op_down :: "'s \<Rightarrow> string \<Rightarrow> int"
  op_order :: "'s \<Rightarrow> string list \<Rightarrow> bool"
  op_traffic :: "string \<Rightarrow> int \<Rightarrow> int \<Rightarrow> 's \<Rightarrow> 's \<Rightarrow> bool"
  op_internal :: "'s \<Rightarrow> 's \<Rightarrow> bool"
  op_slice :: "string list \<Rightarrow> int \<Rightarrow> 's \<Rightarrow> UserTraffic list"
  op_confirm :: "string list \<Rightarrow> UserTraffic list \<Rightarrow> 's \<Rightarrow> 's"

record 's ledger =
  engine :: 's
  in_flight :: "UserTraffic list option"
  moved_up :: "string \<Rightarrow> int"
  moved_down :: "string \<Rightarrow> int"
  billed_up :: "string \<Rightarrow> int"
  billed_down :: "string \<Rightarrow> int"

definition reported_up :: "UserTraffic list \<Rightarrow> string \<Rightarrow> int" where
  "reported_up rep uuid = (case find (\<lambda>t. ut_UUID t = uuid) rep of None \<Rightarrow> 0 | Some t \<Rightarrow> ut_Upload t)"

definition reported_down :: "UserTraffic list \<Rightarrow> string \<Rightarrow> int" where
  "reported_down rep uuid = (case find (\<lambda>t. ut_UUID t = uuid) rep of None \<Rightarrow> 0 | Some t \<Rightarrow> ut_Download t)"

inductive ledger_step :: "'s traffic_ops \<Rightarrow> 's ledger \<Rightarrow> 's ledger \<Rightarrow> bool" for ops where
  ledger_traffic:
    "uuid \<noteq> [] \<Longrightarrow> 0 \<le> u \<Longrightarrow> 0 \<le> d \<Longrightarrow>
     op_up ops (engine l) uuid + u < 2 ^ 63 \<Longrightarrow> op_down ops (engine l) uuid + d < 2 ^ 63 \<Longrightarrow>
     op_traffic ops uuid u d (engine l) s1 \<Longrightarrow>
     ledger_step ops l (l\<lparr>engine := s1,
       moved_up := (moved_up l)(uuid := moved_up l uuid + u),
       moved_down := (moved_down l)(uuid := moved_down l uuid + d)\<rparr>)"
| ledger_internal:
    "op_internal ops (engine l) s1 \<Longrightarrow> ledger_step ops l (l\<lparr>engine := s1\<rparr>)"
| ledger_report:
    "in_flight l = None \<Longrightarrow> op_order ops (engine l) ks \<Longrightarrow>
     ledger_step ops l (l\<lparr>in_flight := Some (op_slice ops ks m (engine l))\<rparr>)"
| ledger_accepted:
    "in_flight l = Some rep \<Longrightarrow> op_order ops (engine l) ks \<Longrightarrow>
     ledger_step ops l (l\<lparr>engine := op_confirm ops ks rep (engine l), in_flight := None,
       billed_up := (\<lambda>uuid. billed_up l uuid + reported_up rep uuid),
       billed_down := (\<lambda>uuid. billed_down l uuid + reported_down rep uuid)\<rparr>)"
| ledger_failed:
    "in_flight l = Some rep \<Longrightarrow> ledger_step ops l (l\<lparr>in_flight := None\<rparr>)"

inductive ledger_reachable :: "'s traffic_ops \<Rightarrow> 's \<Rightarrow> 's ledger \<Rightarrow> bool" for ops s0 where
  ledger_start:
    "ledger_reachable ops s0
       \<lparr>engine = s0, in_flight = None, moved_up = (\<lambda>_. 0), moved_down = (\<lambda>_. 0),
        billed_up = (\<lambda>_. 0), billed_down = (\<lambda>_. 0)\<rparr>"
| ledger_next: "ledger_reachable ops s0 l \<Longrightarrow> ledger_step ops l l1 \<Longrightarrow> ledger_reachable ops s0 l1"

section \<open>The contract\<close>

text \<open>A report an engine can confirm: one entry per uuid, within what is pending.\<close>

definition covered :: "(string \<Rightarrow> int) \<Rightarrow> (string \<Rightarrow> int) \<Rightarrow> UserTraffic list \<Rightarrow> bool" where
  "covered up down rep \<longleftrightarrow>
     distinct (map ut_UUID rep) \<and>
     (\<forall>t\<in>set rep. ut_UUID t \<noteq> [] \<and>
        0 \<le> ut_Upload t \<and> ut_Upload t \<le> up (ut_UUID t) \<and>
        0 \<le> ut_Download t \<and> ut_Download t \<le> down (ut_UUID t))"

locale traffic_store =
  fixes ops :: "'s traffic_ops" and ok :: "'s \<Rightarrow> bool"
  assumes traffic_law:
    "ok s \<Longrightarrow> uuid \<noteq> [] \<Longrightarrow> 0 \<le> u \<Longrightarrow> 0 \<le> d \<Longrightarrow>
     op_up ops s uuid + u < 2 ^ 63 \<Longrightarrow> op_down ops s uuid + d < 2 ^ 63 \<Longrightarrow>
     op_traffic ops uuid u d s s1 \<Longrightarrow>
     ok s1 \<and> op_up ops s1 = (op_up ops s)(uuid := op_up ops s uuid + u) \<and>
     op_down ops s1 = (op_down ops s)(uuid := op_down ops s uuid + d)"
  and internal_law:
    "ok s \<Longrightarrow> op_internal ops s s1 \<Longrightarrow>
     ok s1 \<and> op_up ops s1 = op_up ops s \<and> op_down ops s1 = op_down ops s"
  and slice_law:
    "ok s \<Longrightarrow> op_order ops s ks \<Longrightarrow> covered (op_up ops s) (op_down ops s) (op_slice ops ks m s)"
  and confirm_law:
    "ok s \<Longrightarrow> op_order ops s ks \<Longrightarrow> covered (op_up ops s) (op_down ops s) rep \<Longrightarrow>
     ok (op_confirm ops ks rep s) \<and>
     op_up ops (op_confirm ops ks rep s) uuid = op_up ops s uuid - reported_up rep uuid \<and>
     op_down ops (op_confirm ops ks rep s) uuid = op_down ops s uuid - reported_down rep uuid"
begin

definition balanced :: "'s ledger \<Rightarrow> bool" where
  "balanced l \<longleftrightarrow>
     ok (engine l) \<and>
     (\<forall>uuid. moved_up l uuid = billed_up l uuid + op_up ops (engine l) uuid \<and>
             moved_down l uuid = billed_down l uuid + op_down ops (engine l) uuid) \<and>
     (\<forall>rep. in_flight l = Some rep \<longrightarrow>
        covered (op_up ops (engine l)) (op_down ops (engine l)) rep)"

lemma covered_mono:
  "covered up down rep \<Longrightarrow> (\<And>v. up v \<le> up' v) \<Longrightarrow> (\<And>v. down v \<le> down' v) \<Longrightarrow> covered up' down' rep"
  by (auto simp: covered_def intro: order_trans)

lemma step_balanced:
  assumes "ledger_step ops l l1" and "balanced l"
  shows "balanced l1"
  using assms(1)
proof cases
  case (ledger_traffic uuid u d s1)
  have law: "ok s1" "op_up ops s1 = (op_up ops (engine l))(uuid := op_up ops (engine l) uuid + u)"
    "op_down ops s1 = (op_down ops (engine l))(uuid := op_down ops (engine l) uuid + d)"
    using traffic_law [OF _ ledger_traffic(2-7)] assms(2) by (auto simp: balanced_def)
  have "covered (op_up ops s1) (op_down ops s1) rep" if "in_flight l = Some rep" for rep
    using that assms(2) ledger_traffic(3,4)
    by (auto simp: balanced_def law intro: covered_mono)
  then show ?thesis using assms(2) by (auto simp: ledger_traffic(1) balanced_def law)
next
  case (ledger_internal s1)
  then show ?thesis using internal_law [OF _ ledger_internal(2)] assms(2)
    by (auto simp: balanced_def)
next
  case (ledger_report ks m)
  then show ?thesis using slice_law assms(2) by (auto simp: balanced_def)
next
  case (ledger_accepted rep ks)
  then show ?thesis using confirm_law assms(2) by (auto simp: balanced_def)
next
  case (ledger_failed rep)
  then show ?thesis using assms(2) by (auto simp: balanced_def)
qed

lemma reachable_balanced:
  assumes "ledger_reachable ops s0 l" and "ok s0"
    and "\<And>uuid. op_up ops s0 uuid = 0" and "\<And>uuid. op_down ops s0 uuid = 0"
  shows "balanced l"
  using assms(1)
proof (induction rule: ledger_reachable.induct)
  case ledger_start
  then show ?case by (simp add: balanced_def assms)
next
  case (ledger_next l l1)
  then show ?case by (blast intro: step_balanced)
qed

end

end
