(* ===== verification/CaddyAccounting.thy ===== *)
theory CaddyAccounting
  imports CaddyProc Ledger
begin

text \<open>
  Traffic accounting of the Caddy engine: what each operation does to the bytes pending
  for a user, the interpretation of the accounting contract, and the conservation of
  bytes over any interleaving of tunnels, user updates and reports.
\<close>

section \<open>Pending bytes\<close>

definition pending_up :: "(string \<rightharpoonup> trafficCounter) \<Rightarrow> string \<Rightarrow> int" where
  "pending_up stats uuid = (case stats uuid of None \<Rightarrow> 0 | Some c \<Rightarrow> tc_up c)"

definition pending_down :: "(string \<rightharpoonup> trafficCounter) \<Rightarrow> string \<Rightarrow> int" where
  "pending_down stats uuid = (case stats uuid of None \<Rightarrow> 0 | Some c \<Rightarrow> tc_down c)"

definition stats_ok :: "(string \<rightharpoonup> trafficCounter) \<Rightarrow> bool" where
  "stats_ok stats \<longleftrightarrow> stats [] = None \<and> (\<forall>uuid c. stats uuid = Some c \<longrightarrow> counter_ok c)"

text \<open>Two tables with the same pending bytes, the second in range if the first is.\<close>

definition same_pending :: "(string \<rightharpoonup> trafficCounter) \<Rightarrow> (string \<rightharpoonup> trafficCounter) \<Rightarrow> bool" where
  "same_pending a b \<longleftrightarrow>
     pending_up b = pending_up a \<and> pending_down b = pending_down a \<and> (stats_ok a \<longrightarrow> stats_ok b)"

lemma same_pending_refl [simp]: "same_pending a a"
  by (simp add: same_pending_def)

lemma same_pending_trans: "same_pending a b \<Longrightarrow> same_pending b c \<Longrightarrow> same_pending a c"
  by (auto simp: same_pending_def)

lemma pending_upd:
  "pending_up (stats(uuid := x)) =
     (pending_up stats)(uuid := (case x of None \<Rightarrow> 0 | Some c \<Rightarrow> tc_up c))"
  "pending_down (stats(uuid := x)) =
     (pending_down stats)(uuid := (case x of None \<Rightarrow> 0 | Some c \<Rightarrow> tc_down c))"
  by (auto simp: fun_eq_iff pending_up_def pending_down_def)

lemma stats_ok_upd:
  "stats_ok stats \<Longrightarrow> uuid \<noteq> [] \<Longrightarrow> (\<And>c. x = Some c \<Longrightarrow> counter_ok c) \<Longrightarrow> stats_ok (stats(uuid := x))"
  by (auto simp: stats_ok_def)

lemma stats_okD: "stats_ok stats \<Longrightarrow> stats uuid = Some c \<Longrightarrow> counter_ok c"
  by (simp add: stats_ok_def)

lemma stats_ok_delete: "stats_ok stats \<Longrightarrow> stats_ok (stats(uuid := None))"
  by (simp add: stats_ok_def)

lemma pending_nonneg: "stats_ok stats \<Longrightarrow> 0 \<le> pending_up stats uuid \<and> 0 \<le> pending_down stats uuid"
  by (auto simp: pending_up_def pending_down_def stats_ok_def counter_ok_def split: option.split)

lemma new_counter_pending:
  "uuid \<noteq> [] \<Longrightarrow> stats uuid = None \<Longrightarrow>
     same_pending stats (stats(uuid \<mapsto> \<lparr>tc_uid = uid, tc_up = 0, tc_down = 0\<rparr>))"
  by (auto simp: same_pending_def fun_eq_iff pending_up_def pending_down_def stats_ok_def counter_ok_def)

lemma setUID_same_pending:
  "stats uuid = Some c \<Longrightarrow> same_pending stats (stats(uuid \<mapsto> setUID uid c))"
  by (auto simp: same_pending_def fun_eq_iff pending_up_def pending_down_def stats_ok_def)

lemma ensure_counter_pending: "ui_Uuid user \<noteq> [] \<Longrightarrow> same_pending stats (ensure_counter user stats)"
  by (auto simp: ensure_counter_def new_counter_pending setUID_same_pending split: option.split)

lemma fold_same_pending:
  assumes "\<And>x st. x \<in> set xs \<Longrightarrow> same_pending st (f x st)"
  shows "same_pending st (fold f xs st)"
  using assms
proof (induction xs arbitrary: st)
  case Nil
  then show ?case by simp
next
  case (Cons x xs)
  have "same_pending st (f x st)" using Cons.prems by simp
  moreover have "same_pending (f x st) (fold f xs (f x st))" using Cons by simp
  ultimately show ?case by (simp add: same_pending_trans)
qed

text \<open>Dropping counters that have nothing pending moves no bytes (counters in range).\<close>

lemma drop_idle_pending:
  assumes "stats_ok stats" and "\<And>uuid c. stats uuid = Some c \<Longrightarrow> f uuid c = Some c \<or> f uuid c = None \<and> \<not> hasPending c"
  shows "same_pending stats (range_update f stats)"
proof -
  have "pending_up (range_update f stats) uuid = pending_up stats uuid \<and>
      pending_down (range_update f stats) uuid = pending_down stats uuid" for uuid
    using assms by (cases "stats uuid")
      (fastforce simp: pending_up_def pending_down_def stats_ok_def hasPending_iff)+
  moreover have "stats_ok (range_update f stats)"
    unfolding stats_ok_def
  proof (intro conjI allI impI)
    show "range_update f stats [] = None" using assms(1) by (simp add: stats_ok_def)
    fix uuid c assume c: "range_update f stats uuid = Some c"
    show "counter_ok c"
      using c assms by (cases "stats uuid") (fastforce dest: stats_okD)+
  qed
  ultimately show ?thesis by (auto simp: same_pending_def)
qed

section \<open>User updates\<close>

lemma replaceUsers_pending:
  assumes "stats_ok (cs_stats s)" and "\<forall>user\<in>set users. ui_Uuid user \<noteq> []"
  shows "same_pending (cs_stats s) (cs_stats (replaceUsers users s))"
proof -
  let ?kept = "range_update (\<lambda>uuid c. if fold enter_user users Map.empty uuid = None \<and> \<not> hasPending c
      then None else Some c) (cs_stats s)"
  have "same_pending (cs_stats s) ?kept"
    by (rule drop_idle_pending [OF assms(1)]) auto
  moreover have "same_pending ?kept (fold ensure_counter users ?kept)"
    using assms(2) by (intro fold_same_pending ensure_counter_pending) simp
  ultimately show ?thesis
    unfolding replaceUsers_def Let_def by (auto intro: same_pending_trans)
qed

lemma delta_delete_pending:
  assumes "stats_ok (cs_stats s)"
  shows "same_pending (cs_stats s) (cs_stats (delta_delete user s))"
proof (cases "cs_stats s (ui_Uuid user)")
  case None
  then show ?thesis by (simp add: delta_delete_def fun_upd_idem)
next
  case (Some c)
  then have "counter_ok c" using assms by (simp add: stats_okD)
  with Some assms show ?thesis
    by (auto simp: delta_delete_def Let_def hasPending_iff same_pending_def fun_eq_iff
        pending_up_def pending_down_def stats_ok_def)
qed

lemma delta_add_pending:
  "ui_Uuid user \<noteq> [] \<Longrightarrow> same_pending (cs_stats s) (cs_stats (delta_add user s))"
  by (auto simp: delta_add_def new_counter_pending split: option.split)

lemma delta_modify_pending:
  "ui_Uuid user \<noteq> [] \<Longrightarrow> same_pending (cs_stats s) (cs_stats (delta_modify user s))"
  by (simp add: delta_modify_def ensure_counter_pending)

lemma fold_state_pending:
  assumes "stats_ok (cs_stats s)"
    and "\<And>x s. x \<in> set xs \<Longrightarrow> stats_ok (cs_stats s) \<Longrightarrow> same_pending (cs_stats s) (cs_stats (f x s))"
  shows "same_pending (cs_stats s) (cs_stats (fold f xs s))"
  using assms
proof (induction xs arbitrary: s)
  case Nil
  then show ?case by simp
next
  case (Cons x xs)
  have 1: "same_pending (cs_stats s) (cs_stats (f x s))" using Cons.prems by simp
  then have "stats_ok (cs_stats (f x s))" using Cons.prems(1) by (simp add: same_pending_def)
  then have "same_pending (cs_stats (f x s)) (cs_stats (fold f xs (f x s)))"
    using Cons by simp
  with 1 show ?case by (simp add: same_pending_trans)
qed

lemma applyUserDelta_pending:
  assumes "stats_ok (cs_stats s)" and "\<forall>user\<in>set added \<union> set modified. ui_Uuid user \<noteq> []"
  shows "same_pending (cs_stats s) (cs_stats (applyUserDelta added deleted modified s))"
proof -
  let ?s1 = "fold delta_delete deleted s" and ?s2 = "fold delta_add added (fold delta_delete deleted s)"
  have 1: "same_pending (cs_stats s) (cs_stats ?s1)"
    by (intro fold_state_pending assms delta_delete_pending)
  then have ok1: "stats_ok (cs_stats ?s1)" using assms(1) by (simp add: same_pending_def)
  have 2: "same_pending (cs_stats ?s1) (cs_stats ?s2)"
    using assms(2) by (intro fold_state_pending ok1 delta_add_pending) auto
  then have ok2: "stats_ok (cs_stats ?s2)" using ok1 by (simp add: same_pending_def)
  have 3: "same_pending (cs_stats ?s2) (cs_stats (fold delta_modify modified ?s2))"
    using assms(2) by (intro fold_state_pending ok2 delta_modify_pending) auto
  show ?thesis
    unfolding applyUserDelta_def by (rule same_pending_trans [OF same_pending_trans [OF 1 2] 3])
qed

lemma caddy_UpdateUsers_stats:
  "cs_stats (caddy_UpdateUsers added deleted modified full s) =
     cs_stats (case full of Some users \<Rightarrow> replaceUsers users s
       | None \<Rightarrow> applyUserDelta added deleted modified s)"
  by (simp add: caddy_UpdateUsers_def Let_def)

definition uuids_present :: "UserInfo list \<Rightarrow> bool" where
  "uuids_present users \<longleftrightarrow> (\<forall>user\<in>set users. ui_Uuid user \<noteq> [])"

lemma caddy_UpdateUsers_pending:
  assumes "stats_ok (cs_stats s)"
    and "uuids_present (case full of Some users \<Rightarrow> users | None \<Rightarrow> added @ modified)"
  shows "same_pending (cs_stats s) (cs_stats (caddy_UpdateUsers added deleted modified full s))"
proof (cases full)
  case None
  have "same_pending (cs_stats s) (cs_stats (applyUserDelta added deleted modified s))"
    using assms None by (intro applyUserDelta_pending) (auto simp: uuids_present_def)
  with None show ?thesis by (simp add: caddy_UpdateUsers_stats)
next
  case (Some users)
  have "same_pending (cs_stats s) (cs_stats (replaceUsers users s))"
    using assms Some by (intro replaceUsers_pending) (auto simp: uuids_present_def)
  with Some show ?thesis by (simp add: caddy_UpdateUsers_stats)
qed

section \<open>Events\<close>

lemma count_event_stats:
  "\<exists>uid. cs_stats (count_event event s) = (cs_stats s)(ev_User event \<mapsto>
     tc_add (ev_Upload event) (ev_Download event)
       (case cs_stats s (ev_User event) of Some c \<Rightarrow> setUID uid c
        | None \<Rightarrow> \<lparr>tc_uid = uid, tc_up = 0, tc_down = 0\<rparr>))"
  by (auto simp: count_event_def getCounterForEvent_def getCounterWithUID_def Let_def)

lemma count_event_pending:
  assumes ok: "stats_ok (cs_stats s)" and "ev_User event \<noteq> []"
    and "0 \<le> ev_Upload event" and "0 \<le> ev_Download event"
    and "pending_up (cs_stats s) (ev_User event) + ev_Upload event < 2 ^ 63"
    and "pending_down (cs_stats s) (ev_User event) + ev_Download event < 2 ^ 63"
  shows "stats_ok (cs_stats (count_event event s)) \<and>
     pending_up (cs_stats (count_event event s)) =
       (pending_up (cs_stats s))(ev_User event := pending_up (cs_stats s) (ev_User event) + ev_Upload event) \<and>
     pending_down (cs_stats (count_event event s)) =
       (pending_down (cs_stats s))(ev_User event := pending_down (cs_stats s) (ev_User event) + ev_Download event)"
proof -
  obtain uid where eq: "cs_stats (count_event event s) = (cs_stats s)(ev_User event \<mapsto>
      tc_add (ev_Upload event) (ev_Download event)
       (case cs_stats s (ev_User event) of Some c \<Rightarrow> setUID uid c
        | None \<Rightarrow> \<lparr>tc_uid = uid, tc_up = 0, tc_down = 0\<rparr>))"
    using count_event_stats by blast
  let ?c = "case cs_stats s (ev_User event) of Some c \<Rightarrow> setUID uid c
    | None \<Rightarrow> \<lparr>tc_uid = uid, tc_up = 0, tc_down = 0\<rparr>"
  have c: "counter_ok ?c" "tc_up ?c = pending_up (cs_stats s) (ev_User event)"
    "tc_down ?c = pending_down (cs_stats s) (ev_User event)"
    using ok by (auto simp: pending_up_def pending_down_def counter_ok_def stats_ok_def split: option.split)
  have exact: "tc_up (tc_add (ev_Upload event) (ev_Download event) ?c) =
        pending_up (cs_stats s) (ev_User event) + ev_Upload event"
    "tc_down (tc_add (ev_Upload event) (ev_Download event) ?c) =
        pending_down (cs_stats s) (ev_User event) + ev_Download event"
    "counter_ok (tc_add (ev_Upload event) (ev_Download event) ?c)"
    using tc_add_exact [of ?c "ev_Upload event" "ev_Download event"] c assms(3-6) by simp_all
  show ?thesis
    unfolding eq using assms(1,2) exact by (auto simp: pending_upd intro: stats_ok_upd)
qed

lemma open_tunnel_stats [simp]: "cs_stats (open_tunnel user ip s) = cs_stats s"
  by (simp add: open_tunnel_def Let_def)

lemma close_tunnel_stats [simp]: "cs_stats (close_tunnel user ip s) = cs_stats s"
  by (simp add: close_tunnel_def Let_def split: option.split)

lemma handleEvent_stats:
  "cs_stats (snd (handleEvent event s)) =
     (if ev_Type event = ''traffic'' \<or> ev_Type event = ''close'' then cs_stats (count_event event s)
      else cs_stats s)"
  by (simp add: handleEvent_def Let_def)

section \<open>Slices and confirmations\<close>

lemma slice_entry_cases:
  "slice_entry m stats uuid = [] \<or>
   (\<exists>c. stats uuid = Some c \<and>
      slice_entry m stats uuid =
        [\<lparr>ut_UID = tc_uid c, ut_Upload = tc_up c, ut_Download = tc_down c, ut_UUID = uuid\<rparr>])"
  by (auto simp: slice_entry_def snapshotIfAbove_def Let_def split: option.split)

lemma slice_mem:
  assumes "t \<in> set (concat (map (slice_entry m stats) ks))"
  obtains c where "stats (ut_UUID t) = Some c" and "ut_Upload t = tc_up c"
    and "ut_Download t = tc_down c" and "ut_UUID t \<in> set ks"
proof -
  from assms obtain uuid where "uuid \<in> set ks" "t \<in> set (slice_entry m stats uuid)" by auto
  then show ?thesis using that slice_entry_cases [of m stats uuid] by auto
qed

lemma slice_distinct:
  "distinct ks \<Longrightarrow> distinct (map ut_UUID (concat (map (slice_entry m stats) ks)))"
proof (induction ks)
  case Nil
  then show ?case by simp
next
  case (Cons k ks)
  have "ut_UUID t \<in> set ks" if "t \<in> set (concat (map (slice_entry m stats) ks))" for t
    using that by (rule slice_mem)
  then have "k \<notin> ut_UUID ` set (concat (map (slice_entry m stats) ks))"
    using Cons.prems by auto
  then show ?case
    using Cons slice_entry_cases [of m stats k] by auto
qed

lemma slice_covered:
  assumes "stats_ok stats" and "range_order stats ks"
  shows "covered (pending_up stats) (pending_down stats) (concat (map (slice_entry m stats) ks))"
  unfolding covered_def
proof (intro conjI ballI)
  show "distinct (map ut_UUID (concat (map (slice_entry m stats) ks)))"
    by (rule slice_distinct) (rule range_order_distinct [OF assms(2)])
  fix t assume "t \<in> set (concat (map (slice_entry m stats) ks))"
  then obtain c where c: "stats (ut_UUID t) = Some c" "ut_Upload t = tc_up c" "ut_Download t = tc_down c"
    by (rule slice_mem)
  then show "ut_UUID t \<noteq> []" "0 \<le> ut_Upload t" "ut_Upload t \<le> pending_up stats (ut_UUID t)"
    "0 \<le> ut_Download t" "ut_Download t \<le> pending_down stats (ut_UUID t)"
    using assms(1) by (auto simp: stats_ok_def counter_ok_def pending_up_def pending_down_def)
qed

lemma index_of_covered:
  assumes "covered up down rep" and "\<And>v. up v < 2 ^ 63" and "\<And>v. down v < 2 ^ 63"
  shows "indexReportedTraffic rep = (\<lambda>uuid. find (\<lambda>t. ut_UUID t = uuid) rep, Map.empty)"
proof -
  have "\<forall>t\<in>set rep. in64 (ut_Upload t) \<and> in64 (ut_Download t)"
    using assms unfolding covered_def in64_def by (smt (verit) assms(2,3))
  then have "fold index_traffic rep (Map.empty, Map.empty) =
      (\<lambda>uuid. case find (\<lambda>t. ut_UUID t = uuid) rep of None \<Rightarrow> None | Some t \<Rightarrow> Some t, Map.empty)"
    using assms(1) fold_index_uuid [of rep "(Map.empty, Map.empty)"]
    by (simp add: covered_def cong: option.case_cong)
  then show ?thesis
    unfolding indexReportedTraffic_def by (auto simp: fun_eq_iff split: option.split)
qed

lemma pending_bound: "stats_ok stats \<Longrightarrow> pending_up stats v < 2 ^ 63 \<and> pending_down stats v < 2 ^ 63"
  by (auto simp: pending_up_def pending_down_def stats_ok_def counter_ok_def split: option.split)

text \<open>The counter table after a covered report has been confirmed.\<close>

definition confirmed_stats ::
  "UserTraffic list \<Rightarrow> (string \<rightharpoonup> UserInfo) \<Rightarrow> (string \<rightharpoonup> trafficCounter) \<Rightarrow> (string \<rightharpoonup> trafficCounter)" where
  "confirmed_stats rep users stats =
     range_update (confirm_entry (\<lambda>uuid. find (\<lambda>t. ut_UUID t = uuid) rep) Map.empty users) stats"

lemma confirm_counter:
  assumes "stats_ok stats" and "covered (pending_up stats) (pending_down stats) rep"
    and "stats uuid = Some c"
  defines "c1 \<equiv> (case find (\<lambda>t. ut_UUID t = uuid) rep of Some t \<Rightarrow> tc_confirm t c | None \<Rightarrow> c)"
  shows "counter_ok c1" and "tc_up c1 = tc_up c - reported_up rep uuid"
    and "tc_down c1 = tc_down c - reported_down rep uuid"
proof -
  have c: "counter_ok c" using assms(1,3) by (simp add: stats_okD)
  then show "counter_ok c1" by (simp add: c1_def tc_confirm_ok split: option.split)
  have "tc_up c1 = tc_up c - reported_up rep uuid \<and> tc_down c1 = tc_down c - reported_down rep uuid"
  proof (cases "find (\<lambda>t. ut_UUID t = uuid) rep")
    case None
    then show ?thesis by (simp add: c1_def reported_up_def reported_down_def)
  next
    case (Some t)
    then have "t \<in> set rep" "ut_UUID t = uuid" by (auto dest: find_Some_mem)
    then have "0 \<le> ut_Upload t \<and> ut_Upload t \<le> tc_up c \<and> 0 \<le> ut_Download t \<and> ut_Download t \<le> tc_down c"
      using assms(2,3) by (auto simp: covered_def pending_up_def pending_down_def)
    with Some c show ?thesis
      by (simp add: c1_def reported_up_def reported_down_def tc_confirm_def subtractReported_exact counter_ok_def)
  qed
  then show "tc_up c1 = tc_up c - reported_up rep uuid"
    and "tc_down c1 = tc_down c - reported_down rep uuid" by simp_all
qed

lemma confirm_entry_eq:
  "confirm_entry byUUID Map.empty users uuid c =
     (let c1 = (case byUUID uuid of Some t \<Rightarrow> tc_confirm t c | None \<Rightarrow> c)
      in if users uuid = None \<and> \<not> hasPending c1 then None else Some c1)"
  by (simp add: confirm_entry_def Let_def split: option.split)

lemma confirmed_pending:
  assumes "stats_ok stats" and "covered (pending_up stats) (pending_down stats) rep"
  shows "stats_ok (confirmed_stats rep users stats) \<and>
     pending_up (confirmed_stats rep users stats) uuid = pending_up stats uuid - reported_up rep uuid \<and>
     pending_down (confirmed_stats rep users stats) uuid = pending_down stats uuid - reported_down rep uuid"
proof (intro conjI)
  show "stats_ok (confirmed_stats rep users stats)"
    unfolding stats_ok_def
  proof (intro conjI allI impI)
    show "confirmed_stats rep users stats [] = None"
      using assms(1) by (simp add: confirmed_stats_def stats_ok_def)
    fix v c1 assume c1: "confirmed_stats rep users stats v = Some c1"
    then obtain c where c: "stats v = Some c"
      by (cases "stats v") (simp_all add: confirmed_stats_def)
    with c1 show "counter_ok c1"
      using confirm_counter(1) [OF assms c]
      by (auto simp: confirmed_stats_def confirm_entry_eq Let_def split: if_splits)
  qed
  have "pending_up (confirmed_stats rep users stats) uuid = pending_up stats uuid - reported_up rep uuid \<and>
     pending_down (confirmed_stats rep users stats) uuid = pending_down stats uuid - reported_down rep uuid"
  proof (cases "stats uuid")
    case None
    then have "find (\<lambda>t. ut_UUID t = uuid) rep = None \<or> reported_up rep uuid = 0 \<and> reported_down rep uuid = 0"
      using assms(2)
      by (cases "find (\<lambda>t. ut_UUID t = uuid) rep")
         (fastforce simp: covered_def pending_up_def pending_down_def reported_up_def reported_down_def
           dest: find_Some_mem)+
    then have "reported_up rep uuid = 0 \<and> reported_down rep uuid = 0"
      by (auto simp: reported_up_def reported_down_def)
    with None show ?thesis by (simp add: confirmed_stats_def pending_up_def pending_down_def)
  next
    case (Some c)
    note cc = confirm_counter [OF assms Some]
    show ?thesis
      using cc Some
      by (auto simp: confirmed_stats_def confirm_entry_eq Let_def pending_up_def pending_down_def
          hasPending_iff)
  qed
  then show "pending_up (confirmed_stats rep users stats) uuid = pending_up stats uuid - reported_up rep uuid"
    and "pending_down (confirmed_stats rep users stats) uuid = pending_down stats uuid - reported_down rep uuid"
    by simp_all
qed

lemma confirm_stats:
  assumes "stats_ok (cs_stats s)" and "covered (pending_up (cs_stats s)) (pending_down (cs_stats s)) rep"
    and "rep \<noteq> []"
  shows "cs_stats (caddy_ConfirmUserTraffic rep s) = confirmed_stats rep (cs_users s) (cs_stats s)"
  using assms(3) index_of_covered [OF assms(2)] pending_bound [OF assms(1)]
  by (simp add: caddy_ConfirmUserTraffic_def confirmed_stats_def)

lemma caddy_confirm_pending:
  assumes "stats_ok (cs_stats s)" and "covered (pending_up (cs_stats s)) (pending_down (cs_stats s)) rep"
  shows "stats_ok (cs_stats (caddy_ConfirmUserTraffic rep s)) \<and>
     pending_up (cs_stats (caddy_ConfirmUserTraffic rep s)) uuid =
       pending_up (cs_stats s) uuid - reported_up rep uuid \<and>
     pending_down (cs_stats (caddy_ConfirmUserTraffic rep s)) uuid =
       pending_down (cs_stats s) uuid - reported_down rep uuid"
proof (cases "rep = []")
  case True
  with assms show ?thesis
    by (simp add: caddy_ConfirmUserTraffic_def reported_up_def reported_down_def)
next
  case False
  show ?thesis
    unfolding confirm_stats [OF assms False] by (rule confirmed_pending [OF assms])
qed

section \<open>The engine under the accounting contract\<close>

text \<open>A tunnel reports bytes by a traffic event while it is open and by its close event.\<close>

inductive caddy_traffic :: "string \<Rightarrow> int \<Rightarrow> int \<Rightarrow> CaddyServer \<Rightarrow> CaddyServer \<Rightarrow> bool" where
  "ev_Type event = ''traffic'' \<or> ev_Type event = ''close'' \<Longrightarrow>
     caddy_traffic (ev_User event) (ev_Upload event) (ev_Download event) s (snd (handleEvent event s))"

text \<open>Everything else that happens to the engine.\<close>

inductive caddy_internal :: "CaddyServer \<Rightarrow> CaddyServer \<Rightarrow> bool" where
  caddy_other_event:
    "ev_Type event \<noteq> ''traffic'' \<Longrightarrow> ev_Type event \<noteq> ''close'' \<Longrightarrow>
     caddy_internal s (snd (handleEvent event s))"
| caddy_update:
    "uuids_present (case full of Some users \<Rightarrow> users | None \<Rightarrow> added @ modified) \<Longrightarrow>
     caddy_internal s (caddy_UpdateUsers added deleted modified full s)"
| caddy_alive: "caddy_internal s (caddy_SetAliveList alive s)"
| caddy_authorize: "caddy_internal s (snd (snd (handleAuthorize decode httpMethod body s)))"
| caddy_release: "caddy_internal s (snd (handleRelease decode httpMethod body s))"

inductive_cases caddy_trafficE: "caddy_traffic uuid u d s s1"
inductive_cases caddy_internalE: "caddy_internal s s1"

definition caddy_ops :: "CaddyServer traffic_ops" where
  "caddy_ops =
     \<lparr>op_up = (\<lambda>s. pending_up (cs_stats s)), op_down = (\<lambda>s. pending_down (cs_stats s)),
      op_order = (\<lambda>s. range_order (cs_stats s)), op_traffic = caddy_traffic,
      op_internal = caddy_internal, op_slice = caddy_GetUserTrafficSlice,
      op_confirm = (\<lambda>ks. caddy_ConfirmUserTraffic)\<rparr>"

lemma caddy_ops_sel [simp]:
  "op_up caddy_ops s = pending_up (cs_stats s)"
  "op_down caddy_ops s = pending_down (cs_stats s)"
  "op_order caddy_ops s = range_order (cs_stats s)"
  "op_traffic caddy_ops = caddy_traffic"
  "op_internal caddy_ops = caddy_internal"
  "op_slice caddy_ops = caddy_GetUserTrafficSlice"
  "op_confirm caddy_ops ks = caddy_ConfirmUserTraffic"
  by (simp_all add: caddy_ops_def)

lemma handleAuthorize_stats [simp]:
  "cs_stats (snd (snd (handleAuthorize decode httpMethod body s))) = cs_stats s"
  by (auto simp: handleAuthorize_def Let_def split: option.split prod.split)

lemma handleRelease_stats [simp]: "cs_stats (snd (handleRelease decode httpMethod body s)) = cs_stats s"
  by (auto simp: handleRelease_def split: option.split)

lemma caddy_internal_pending:
  assumes "caddy_internal s s1" and "stats_ok (cs_stats s)"
  shows "same_pending (cs_stats s) (cs_stats s1)"
  using assms
  by (cases rule: caddy_internal.cases)
     (simp_all add: handleEvent_stats caddy_SetAliveList_def caddy_UpdateUsers_pending)

interpretation caddy_store: traffic_store caddy_ops "\<lambda>s. stats_ok (cs_stats s)"
proof unfold_locales
  fix s s1 :: CaddyServer and uuid u d
  assume ok: "stats_ok (cs_stats s)" and "uuid \<noteq> []" "0 \<le> u" "0 \<le> d"
    and "op_up caddy_ops s uuid + u < 2 ^ 63" "op_down caddy_ops s uuid + d < 2 ^ 63"
    and "op_traffic caddy_ops uuid u d s s1"
  then show "stats_ok (cs_stats s1) \<and>
      op_up caddy_ops s1 = (op_up caddy_ops s)(uuid := op_up caddy_ops s uuid + u) \<and>
      op_down caddy_ops s1 = (op_down caddy_ops s)(uuid := op_down caddy_ops s uuid + d)"
    by (auto simp: handleEvent_stats count_event_pending elim!: caddy_trafficE)
next
  fix s s1 :: CaddyServer
  assume "stats_ok (cs_stats s)" "op_internal caddy_ops s s1"
  then show "stats_ok (cs_stats s1) \<and> op_up caddy_ops s1 = op_up caddy_ops s \<and>
      op_down caddy_ops s1 = op_down caddy_ops s"
    using caddy_internal_pending by (simp add: same_pending_def)
next
  fix s :: CaddyServer and ks m
  assume "stats_ok (cs_stats s)" "op_order caddy_ops s ks"
  then show "covered (op_up caddy_ops s) (op_down caddy_ops s) (op_slice caddy_ops ks m s)"
    by (simp add: caddy_GetUserTrafficSlice_def slice_covered)
next
  fix s :: CaddyServer and ks rep uuid
  assume "stats_ok (cs_stats s)" "covered (op_up caddy_ops s) (op_down caddy_ops s) rep"
  then show "stats_ok (cs_stats (op_confirm caddy_ops ks rep s)) \<and>
      op_up caddy_ops (op_confirm caddy_ops ks rep s) uuid = op_up caddy_ops s uuid - reported_up rep uuid \<and>
      op_down caddy_ops (op_confirm caddy_ops ks rep s) uuid = op_down caddy_ops s uuid - reported_down rep uuid"
    by (simp add: caddy_confirm_pending)
qed

section \<open>Properties\<close>

lemma caddy_New_pending:
  assumes "uuids_present users"
  shows "stats_ok (cs_stats (caddy_New node users alive runtime))"
    and "pending_up (cs_stats (caddy_New node users alive runtime)) uuid = 0"
    and "pending_down (cs_stats (caddy_New node users alive runtime)) uuid = 0"
proof -
  obtain s0 where s0: "caddy_New node users alive runtime = replaceUsers users s0"
    and empty: "cs_stats s0 = Map.empty"
    by (simp add: caddy_New_def Let_def)
  have "same_pending (cs_stats s0) (cs_stats (replaceUsers users s0))"
    using assms by (intro replaceUsers_pending) (auto simp: uuids_present_def stats_ok_def empty)
  then have "stats_ok (cs_stats (replaceUsers users s0))"
    "pending_up (cs_stats (replaceUsers users s0)) = pending_up Map.empty"
    "pending_down (cs_stats (replaceUsers users s0)) = pending_down Map.empty"
    by (auto simp: same_pending_def stats_ok_def empty)
  then show "stats_ok (cs_stats (caddy_New node users alive runtime))"
    "pending_up (cs_stats (caddy_New node users alive runtime)) uuid = 0"
    "pending_down (cs_stats (caddy_New node users alive runtime)) uuid = 0"
    by (simp_all add: s0 pending_up_def pending_down_def)
qed

text \<open>
  No byte is lost and none is billed twice: from a fresh Caddy engine, through any
  interleaving of tunnel events, user updates (also deletions of users with open tunnels),
  authorisations and report cycles whose posts succeed or fail, the bytes a user's
  tunnels have moved are exactly the bytes the panel has accepted plus the bytes still
  pending, and the panel never accepts more than was moved.
\<close>

theorem caddy_traffic_conserved:
  assumes "uuids_present users"
    and "ledger_reachable caddy_ops (caddy_New node users alive runtime) l"
  shows "moved_up l uuid = billed_up l uuid + pending_up (cs_stats (engine l)) uuid \<and>
     moved_down l uuid = billed_down l uuid + pending_down (cs_stats (engine l)) uuid \<and>
     billed_up l uuid \<le> moved_up l uuid \<and> billed_down l uuid \<le> moved_down l uuid"
proof -
  have "caddy_store.balanced l"
    by (rule caddy_store.reachable_balanced [OF assms(2)]) (simp_all add: caddy_New_pending assms(1))
  then have b: "moved_up l uuid = billed_up l uuid + pending_up (cs_stats (engine l)) uuid"
    "moved_down l uuid = billed_down l uuid + pending_down (cs_stats (engine l)) uuid"
    and ok: "stats_ok (cs_stats (engine l))"
    by (simp_all add: caddy_store.balanced_def)
  show ?thesis using b pending_nonneg [OF ok, of uuid] by simp
qed

text \<open>A user's tunnel has sent 5 bytes and received 6; the report of them is in flight.\<close>

definition sample_event :: "string \<Rightarrow> tunnelEvent" where
  "sample_event kind =
     \<lparr>ev_Type = kind, ev_User = ''u'', ev_UserID = 7, ev_IP = ''1'', ev_Host = ''h'',
      ev_Target = ''h:443'', ev_Upload = 5, ev_Download = 6, ev_Duration = 0\<rparr>"

definition sample_engine :: CaddyServer where
  "sample_engine = caddy_New sample_node [sample_user] Map.empty default_runtime"

theorem caddy_traffic_conserved_witness:
  "\<exists>l. ledger_reachable caddy_ops sample_engine l \<and> moved_up l ''u'' = 5 \<and>
     5 = billed_up l ''u'' + pending_up (cs_stats (engine l)) ''u''"
proof -
  let ?s0 = "sample_engine" and ?ev = "sample_event ''traffic''"
  let ?l0 = "\<lparr>engine = ?s0, in_flight = None, moved_up = (\<lambda>_. 0), moved_down = (\<lambda>_. 0),
      billed_up = (\<lambda>_. 0), billed_down = (\<lambda>_. 0)\<rparr> :: CaddyServer ledger"
  let ?l1 = "?l0\<lparr>engine := snd (handleEvent ?ev ?s0),
      moved_up := (moved_up ?l0)(''u'' := moved_up ?l0 ''u'' + 5),
      moved_down := (moved_down ?l0)(''u'' := moved_down ?l0 ''u'' + 6)\<rparr>"
  have present: "uuids_present [sample_user]"
    by (simp add: uuids_present_def sample_user_def)
  have "caddy_traffic (ev_User ?ev) (ev_Upload ?ev) (ev_Download ?ev) ?s0 (snd (handleEvent ?ev ?s0))"
    by (rule caddy_traffic.intros) (simp add: sample_event_def)
  then have moved: "caddy_traffic ''u'' 5 6 ?s0 (snd (handleEvent ?ev ?s0))"
    by (simp add: sample_event_def)
  have "ledger_step caddy_ops ?l0 ?l1"
    by (rule ledger_step.ledger_traffic)
       (use moved in \<open>simp_all add: sample_engine_def caddy_New_pending [OF present]\<close>)
  then have reach: "ledger_reachable caddy_ops ?s0 ?l1"
    by (blast intro: ledger_reachable.intros)
  have "moved_up ?l1 ''u'' = billed_up ?l1 ''u'' + pending_up (cs_stats (engine ?l1)) ''u''"
    using caddy_traffic_conserved [OF present reach [unfolded sample_engine_def], of "''u''"]
    unfolding sample_engine_def by blast
  with reach show ?thesis by (intro exI [of _ ?l1]) simp
qed

end
