(* ===== verification/ControllerFacts.thy ===== *)
theory ControllerFacts
  imports Engines CaddyAccounting
begin

text \<open>
  The controller at work: the runs of a node (started, polling, reporting, its engine
  serving), in which engine and user list stay in step; the reports; and the cache file.
\<close>

section \<open>What the engines do meanwhile\<close>

lemma Authorize_LimitInfo [simp]: "LimitInfo (snd (Authorize uuid ip l)) = LimitInfo l"
  using admit_LimitInfo [of uuid ip l]
  by (cases "admit uuid ip l"; cases "fst (admit uuid ip l)") (simp_all add: Authorize_def)

lemma CheckLimit_LimitInfo [simp]: "LimitInfo (snd (CheckLimit uuid ip l)) = LimitInfo l"
proof -
  obtain sp r l1 where a: "Authorize uuid (plain_ip ip) l = ((sp, r), l1)" by (metis prod_cases3 surj_pair)
  with Authorize_LimitInfo [of uuid "plain_ip ip" l] show ?thesis
    by (simp add: CheckLimit_def Let_def fresh_bucket_def split: option.split)
qed

lemma ReleaseIP_LimitInfo [simp]: "LimitInfo (ReleaseIP uuid ip l) = LimitInfo l"
proof -
  have "LimitInfo (release_online uuid ip l) = LimitInfo l" for ip
    by (simp add: release_online_def Let_def split: option.split)
  moreover have "LimitInfo (release_old uuid ip l) = LimitInfo l" for ip l
    by (simp add: release_old_def split: option.split)
  ultimately show ?thesis by (simp add: ReleaseIP_def Let_def)
qed

text \<open>
  What an engine does between two tasks of its controller: tunnel events, requests to the
  local endpoints, proxy requests and the copying of bytes.
\<close>

inductive engine_busy :: "engine \<Rightarrow> engine \<Rightarrow> bool" where
  busy_event: "engine_busy (CaddyEngine s p) (CaddyEngine (snd (handleEvent event s)) p)"
| busy_authorize:
    "engine_busy (CaddyEngine s p) (CaddyEngine (snd (snd (handleAuthorize decode httpMethod body s))) p)"
| busy_release: "engine_busy (CaddyEngine s p) (CaddyEngine (snd (handleRelease decode httpMethod body s)) p)"
| busy_request: "engine_busy (LegacyEngine s b) (LegacyEngine (snd (legacy_ServeHTTP r s)) b)"
| busy_counter: "engine_busy (LegacyEngine s b) (LegacyEngine (snd (legacy_getCounter uuid s)) b)"
| busy_copy: "engine_busy (LegacyEngine s b) (LegacyEngine (copyWithAccount n a upload s) b)"

lemma count_event_frame:
  "cs_users (count_event event s) = cs_users s \<and> cs_limiter (count_event event s) = cs_limiter s"
  by (simp add: count_event_def getCounterForEvent_def getCounterWithUID_def Let_def split: option.split)

lemma event_frame:
  "cs_users (snd (handleEvent event s)) = cs_users s \<and>
   LimitInfo (cs_limiter (snd (handleEvent event s))) = LimitInfo (cs_limiter s)"
proof -
  have c: "cs_users (close_tunnel u ip s) = cs_users s \<and> cs_limiter (close_tunnel u ip s) = cs_limiter s" for u ip s
    by (simp add: close_tunnel_def Let_def split: option.split)
  show ?thesis
    by (simp add: handleEvent_def open_tunnel_def Let_def c count_event_frame)
qed

lemma authorize_frame:
  "cs_users (snd (snd (handleAuthorize decode httpMethod body s))) = cs_users s \<and>
   LimitInfo (cs_limiter (snd (snd (handleAuthorize decode httpMethod body s)))) = LimitInfo (cs_limiter s)"
proof (cases "httpMethod = ''POST'' \<and> decode body \<noteq> None")
  case True
  then obtain req where req: "decode body = Some req" by blast
  obtain sp r l1 where a: "Authorize (ar_User req) (ar_IP req) (cs_limiter s) = ((sp, r), l1)"
    by (metis prod_cases3 surj_pair)
  with Authorize_LimitInfo [of "ar_User req" "ar_IP req" "cs_limiter s"] True req show ?thesis
    by (simp add: handleAuthorize_def Let_def)
next
  case False
  then show ?thesis by (cases "decode body") (auto simp: handleAuthorize_def)
qed

lemma CheckLimit_keeps: "CheckLimit uuid ip l = (res, l1) \<Longrightarrow> LimitInfo l1 = LimitInfo l"
  using CheckLimit_LimitInfo [of uuid ip l] by simp

lemma authenticate_frame:
  "px_users (snd (authenticate r s)) = px_users s \<and>
   LimitInfo (px_limiter (snd (authenticate r s))) = LimitInfo (px_limiter s)"
  by (auto simp: authenticate_def Let_def dest: CheckLimit_keeps split: option.split prod.split)

lemma serve_frame:
  "px_users (snd (legacy_ServeHTTP r s)) = px_users s \<and>
   LimitInfo (px_limiter (snd (legacy_ServeHTTP r s))) = LimitInfo (px_limiter s)"
proof -
  obtain res s1 where "authenticate r s = (res, s1)" by (metis surj_pair)
  with authenticate_frame [of r s] show ?thesis
    by (auto simp: legacy_ServeHTTP_def split: prod.split sum.split auth_error.split)
qed

lemma busy_frame:
  assumes "engine_busy s s1"
  shows "engine_users s1 = engine_users s \<and>
     limiter_settings (engine_limiter s1) = limiter_settings (engine_limiter s)"
  using assms
proof cases
  case (busy_release s decode httpMethod body p)
  then show ?thesis by (auto simp: handleRelease_def Let_def limiter_settings_def split: option.split)
next
  case (busy_counter s b uuid)
  then show ?thesis by (auto simp: legacy_getCounter_def new_counter_def split: option.split)
next
  case (busy_copy s b n a upload)
  then show ?thesis by (simp add: copyWithAccount_def update_counter_def)
qed (simp_all add: event_frame authorize_frame serve_frame limiter_settings_def)


section \<open>Engine and user list in step\<close>

text \<open>
  The states of a running node.  A poll may see any replies of the panel whose user list
  names each uuid once; \<open>engine_busy\<close> is the engine between two tasks.
\<close>

inductive node_running :: "engine_env \<Rightarrow> engine Controller \<Rightarrow> bool" for eenv where
  run_start:
    "controller_Start penv senv unmarshal request_cert (engine_server eenv) server_New conf runtime client fs = Inr c \<Longrightarrow>
     node_running eenv c"
| run_monitor:
    "node_running eenv c \<Longrightarrow> order_ok order \<Longrightarrow>
     (\<And>users. fst (ask_users penv (snd (ask_node penv (ct_client c)))) = Inr (Some users) \<Longrightarrow>
        distinct (map ui_Uuid users)) \<Longrightarrow>
     node_running eenv (snd (nodeInfoMonitor (engine_server eenv) order penv senv c))"
| run_report:
    "node_running eenv c \<Longrightarrow>
     node_running eenv (snd (reportUserTrafficTask (engine_server eenv) post_traffic post_online c))"
| run_busy:
    "node_running eenv c \<Longrightarrow> engine_busy (ct_server c) s \<Longrightarrow> node_running eenv (c\<lparr>ct_server := s\<rparr>)"

lemma legacy_New_frame:
  "px_node (legacy_New node users alive) = node \<and>
   px_users (legacy_New node users alive) = old_map users \<and>
   px_limiter (legacy_New node users alive) = Limiter.New users alive"
proof -
  have so: "px_node (fold legacy_set_or_new us s) = px_node s \<and>
      px_users (fold legacy_set_or_new us s) = px_users s \<and>
      px_limiter (fold legacy_set_or_new us s) = px_limiter s" for us s
    by (induction us arbitrary: s)
       (simp_all add: legacy_set_or_new_def update_counter_def new_counter_def split: option.split)
  have en: "px_node (fold legacy_enter_user us s) = px_node s \<and>
      px_users (fold legacy_enter_user us s) = fold put_user us (px_users s) \<and>
      px_limiter (fold legacy_enter_user us s) = px_limiter s" for us s
    by (induction us arbitrary: s) (simp_all add: legacy_enter_user_def put_user_def)
  show ?thesis by (simp add: legacy_New_def legacy_replaceUsers_def so en old_map_def)
qed

lemma server_New_synced:
  assumes "server_New node users alive runtime = Inr s"
  shows "engine_contract.synced s users"
proof (cases "EngineName runtime = EngineLegacy")
  case True
  with assms have "s = LegacyEngine (legacy_New node users alive) False" by (simp add: server_New_def)
  then show ?thesis
    by (simp add: engine_contract.synced_def legacy_New_frame table_settings_old_map New_settings)
next
  case False
  with assms have s: "s = CaddyEngine (caddy_New node users alive runtime) \<lparr>cp_cmd = False, cp_auth = None\<rparr>"
    by (simp add: server_New_def split: if_splits)
  have "cs_users (caddy_New node users alive runtime) = old_map users"
    unfolding caddy_New_def Let_def by (rule caddy_replace_users)
  moreover have "cs_limiter (caddy_New node users alive runtime) = Limiter.New users alive"
    by (simp add: caddy_New_def replaceUsers_def Let_def)
  ultimately show ?thesis
    by (simp add: s engine_contract.synced_def table_settings_old_map New_settings)
qed

lemma start_synced:
  assumes "engine_contract.synced s users" and "engine_Start env s = (err, s1)"
  shows "engine_contract.synced s1 users"
  using assms by (cases s) (auto simp: engine_contract.synced_def split: option.splits prod.splits)

lemma busy_synced:
  assumes "engine_contract.synced s users" and "engine_busy s s1"
  shows "engine_contract.synced s1 users"
  using assms(1) busy_frame [OF assms(2)] by (simp add: engine_contract.synced_def)

lemma node_running_synced:
  "node_running eenv c \<Longrightarrow> engine_contract.synced (ct_server c) (ct_userList c)"
proof (induction rule: node_running.induct)
  case (run_start penv senv unmarshal request_cert conf runtime client fs c)
  obtain sn c1 fs1 where snap: "startupPanelSnapshot penv senv unmarshal conf client fs = (Inr sn, c1, fs1)"
    using run_start by (auto simp: controller_Start_def split: prod.splits sum.splits)
  with run_start obtain node s where
    s: "server_New node (cloneUserList (Some (sn_Users sn))) (cloneAliveList (sn_Alive sn)) runtime = Inr s"
    and st: "engine_Start eenv s = (None, ct_server c)"
    and us: "ct_userList c = cloneUserList (Some (sn_Users sn))"
    by (auto simp: controller_Start_def Let_def split: prod.splits sum.splits option.splits)
  from start_synced [OF server_New_synced [OF s] st] us show ?case by simp
next
  case (run_monitor c order penv senv)
  then show ?case by (intro engine_contract.synced_monitor)
next
  case (run_report c post_traffic post_online)
  have "ct_userList (snd (reportUserTrafficTask (engine_server eenv) post_traffic post_online c)) = ct_userList c"
    using reportTask_server [of c "engine_server eenv" post_traffic post_online] by blast
  with run_report engine_contract.synced_report show ?case by simp
next
  case (run_busy c s)
  then show ?case by (simp add: busy_synced)
qed


lemma cloneAliveList_id: "cloneAliveList alive = alive"
  by (auto simp: cloneAliveList_def range_update_def fun_eq_iff split: option.split)

section \<open>Clients\<close>

lemma ask_node_host: "ask_node env c = (r, c1) \<Longrightarrow> cl_APIHost c1 = cl_APIHost c"
  by (auto simp: ask_node_def GetNodeInfo_def Let_def split: reply.splits option.splits sum.splits if_splits)

lemma ask_users_host: "ask_users env c = (r, c1) \<Longrightarrow> cl_APIHost c1 = cl_APIHost c"
  by (auto simp: ask_users_def GetUserList_def Let_def split: reply.splits option.splits sum.splits if_splits)

lemma fetch_host: "fetchPanelSnapshot env c = (r, c1) \<Longrightarrow> cl_APIHost c1 = cl_APIHost c"
  by (auto simp: fetchPanelSnapshot_def split: prod.splits sum.splits option.splits if_splits
      dest!: ask_node_host ask_users_host)

lemma ask_node_normal:
  assumes "ask_node env c = (Inr (Some node), c1)"
  shows "Normalize (cl_NodeID c) (cl_APIHost c) node = Inr node"
proof -
  from assms obtain cfg where "Normalize (cl_NodeID c) (cl_APIHost c) cfg = Inr node"
    by (auto simp: ask_node_def GetNodeInfo_def Let_def split: reply.splits option.splits sum.splits if_splits)
  then show ?thesis by (rule Normalize_idem)
qed

lemma fetch_normal:
  assumes "fetchPanelSnapshot env c = (Inr sn, c1)"
  obtains node where "sn_Node sn = Some node" "Normalize (cl_NodeID c) (cl_APIHost c) node = Inr node"
  using assms by (auto simp: fetchPanelSnapshot_def split: prod.splits sum.splits option.splits if_splits
      dest!: ask_node_normal)

section \<open>The cache file\<close>

lemma save_cases [case_names kept written]:
  assumes "savePanelSnapshot senv client conf (Some sn) fs = (err, sn1, fs1)"
  obtains "err \<noteq> None" "fs_cache fs1 = fs_cache fs"
  | node node1 body where "err = None" "sn_Node sn = Some node"
      "Normalize (nc_NodeID conf) (cl_APIHost client) node = Inr node1"
      "sn1 = Some (sn\<lparr>sn_Node := Some node1\<rparr>)" "fs1 = fs\<lparr>fs_cache := Some body, fs_tmp := None\<rparr>"
      "se_marshal senv \<lparr>sn_APIHost = cl_APIHost client, sn_NodeID = nc_NodeID conf,
         sn_Node = Some node1, sn_Users = sn_Users sn, sn_Alive = sn_Alive sn, sn_SavedAt = se_now senv\<rparr> = Inr body"
  using assms
  by (auto simp: savePanelSnapshot_def cloneUserList_def cloneAliveList_id Let_def
      split: option.splits sum.splits prod.splits)

lemma read_written:
  assumes "unmarshal body = Inr sn" and "fs_cache fs = Some body" and "sn_Node sn = Some node"
    and "sn_APIHost sn = cl_APIHost client" and "sn_NodeID sn = nc_NodeID conf"
    and "Normalize (nc_NodeID conf) (cl_APIHost client) node = Inr node"
  shows "readPanelSnapshot unmarshal client conf fs = Inr sn"
  using assms by (simp add: readPanelSnapshot_def cloneUserList_def cloneAliveList_id)


section \<open>Properties\<close>

text \<open>
  A panel with one node and one user, a certificate that needs no request, and an engine
  whose start succeeds.
\<close>

definition sample_panel :: panel_env where
  "sample_panel =
     \<lparr>pe_sha256hex = id, pe_decode_node = (\<lambda>_. Inr sample_node),
      pe_get_node = (\<lambda>etag. Reply (if etag = [] then 200 else 304) ''n1'' [] ''node''),
      pe_decode_msgpack = (\<lambda>_. Inl ''msgpack''), pe_decode_users = (\<lambda>_. Inr (Some [sample_user])),
      pe_get_users = (\<lambda>etag. Reply (if etag = [] then 200 else 304) ''u1'' [] ''users''),
      pe_decode_alive = (\<lambda>_. Inr None), pe_get_alive = Reply 200 [] [] ''alive''\<rparr>"

definition sample_save :: save_env where
  "sample_save =
     \<lparr>se_marshal = (\<lambda>_. Inl ''marshal''), se_mkdir = None, se_write = None, se_rename = None, se_now = 5\<rparr>"

definition sample_eenv :: engine_env where
  "sample_eenv =
     \<lparr>ee_loadCert = None, ee_listenTLS = None,
      ee_start = \<lparr>env_stat = None, env_mkdir = None, env_cover = None, env_writeConfig = None,
        env_listen = Inr [], env_stdoutPipe = None, env_stderrPipe = None, env_cmdStart = None\<rparr>,
      ee_polls = [],
      ee_stats = sorted_order, ee_legacy_stats = sorted_order,
      ee_online = (\<lambda>s. ([], \<lambda>_. [])), ee_limiter = (\<lambda>l. ([], \<lambda>_. []))\<rparr>"




definition sample_controller :: "'s \<Rightarrow> 's Controller" where
  "sample_controller s =
     \<lparr>ct_client = panel_New sample_conf, ct_conf = sample_conf, ct_runtime = default_runtime,
      ct_info = Some sample_node, ct_server = s, ct_tag = [], ct_userList = [sample_user],
      ct_aliveList = Map.empty, ct_reload = False, ct_files = \<lparr>fs_cache = None, fs_tmp = None\<rparr>\<rparr>"


lemma sample_normal:
  "\<exists>node cert. Normalize 1 ''h'' sample_node = Inr node \<and> ni_CertInfo node = Some cert \<and>
     ni_Protocol node = ''naive'' \<and> Normalize 1 ''h'' node = Inr node"
proof -
  obtain node where n: "Normalize 1 ''h'' sample_node = Inr node" and r: "ni_CertInfo node \<noteq> None"
    "ni_Protocol node = ''naive''"
    by (simp add: Normalize_def Let_def sample_node_def)
  from n r Normalize_idem [OF n] show ?thesis by auto
qed

lemma sample_fetch:
  assumes "Normalize 1 ''h'' sample_node = Inr node" and "ni_Protocol node = ''naive''"
  shows "\<exists>c1. fetchPanelSnapshot sample_panel (panel_New sample_conf) =
     (Inr \<lparr>sn_APIHost = [], sn_NodeID = 0, sn_Node = Some node, sn_Users = [sample_user],
           sn_Alive = Map.empty, sn_SavedAt = 0\<rparr>, c1)"
  using assms
  by (simp add: fetchPanelSnapshot_def ask_node_def ask_users_def ask_alive_def GetNodeInfo_def
      GetUserList_def GetUserAlive_def checkResponseStatus_def Let_def sample_panel_def panel_New_def
      sample_conf_def cloneUserList_def cloneAliveList_id Contains_def)



text \<open>
  C30. A node that runs can restart without its panel: once a snapshot is saved without an
  error, a later start of the same node whose panel cannot be reached, but did not refuse
  the token, runs with exactly the saved node (normalised), users and alive counts.  The
  JSON library is assumed to decode what it encoded.
\<close>

theorem saved_snapshot_restarts:
  assumes "\<And>x body. se_marshal senv x = Inr body \<Longrightarrow> unmarshal body = Inr x"
    and "savePanelSnapshot senv client conf (Some sn) fs = (None, sn1, fs1)"
    and "cl_APIHost client2 = cl_APIHost client"
    and "fetchPanelSnapshot env client2 = (Inl err, c1)" and "\<not> IsAuthStatusError err"
  shows "\<exists>node node1. sn_Node sn = Some node \<and>
     Normalize (nc_NodeID conf) (cl_APIHost client) node = Inr node1 \<and>
     startupPanelSnapshot env senv2 unmarshal conf client2 fs1 =
       (Inr \<lparr>sn_APIHost = cl_APIHost client, sn_NodeID = nc_NodeID conf, sn_Node = Some node1,
             sn_Users = sn_Users sn, sn_Alive = sn_Alive sn, sn_SavedAt = se_now senv\<rparr>, c1, fs1)"
  using assms(2)
proof (cases rule: save_cases)
  case (written node node1 body)
  have "readPanelSnapshot unmarshal c1 conf fs1 =
      Inr \<lparr>sn_APIHost = cl_APIHost client, sn_NodeID = nc_NodeID conf, sn_Node = Some node1,
           sn_Users = sn_Users sn, sn_Alive = sn_Alive sn, sn_SavedAt = se_now senv\<rparr>"
    using written assms(3) fetch_host [OF assms(4)] Normalize_idem [OF written(3)]
    by (intro read_written [where unmarshal = unmarshal and body = body and node = node1])
       (simp_all add: assms(1) [OF written(6)])
  with written assms(4,5) show ?thesis by (simp add: startupPanelSnapshot_def)
qed simp

definition sample_snapshot :: panelSnapshot where
  "sample_snapshot =
     \<lparr>sn_APIHost = [], sn_NodeID = 0, sn_Node = Some sample_node, sn_Users = [sample_user],
      sn_Alive = [7 \<mapsto> 2], sn_SavedAt = 0\<rparr>"

theorem saved_snapshot_restarts_witness:
  "\<exists>sn c1 fs1. startupPanelSnapshot (sample_panel\<lparr>pe_get_node := \<lambda>_. NoResponse\<rparr>) sample_save (\<lambda>_. Inr sn)
       sample_conf (panel_New sample_conf) fs1 = (Inr sn, c1, fs1) \<and> sn_Users sn = [sample_user]"
proof -
  let ?cl = "panel_New sample_conf" and ?fs = "\<lparr>fs_cache = None, fs_tmp = None\<rparr>"
  obtain node where n: "Normalize 1 ''h'' sample_node = Inr node" using sample_normal by blast
  define sn where "sn = \<lparr>sn_APIHost = ''h'', sn_NodeID = 1, sn_Node = Some node,
      sn_Users = [sample_user], sn_Alive = [7 \<mapsto> 2], sn_SavedAt = 5\<rparr>"
  define senv where "senv = sample_save\<lparr>se_marshal := \<lambda>x. if x = sn then Inr ''body'' else Inl ''other''\<rparr>"
  have json: "se_marshal senv x = Inr body \<Longrightarrow> (\<lambda>_. Inr sn) body = Inr x" for x body
    by (simp add: senv_def split: if_splits)
  have host: "cl_APIHost ?cl = ''h''" "nc_NodeID sample_conf = 1"
    by (simp_all add: panel_New_def sample_conf_def)
  obtain sn1 fs1 where sv: "savePanelSnapshot senv ?cl sample_conf (Some sample_snapshot) ?fs = (None, sn1, fs1)"
    using n by (simp add: savePanelSnapshot_def sample_snapshot_def host cloneUserList_def cloneAliveList_id
        Let_def senv_def sn_def sample_save_def)
  obtain err c1 where f: "fetchPanelSnapshot (sample_panel\<lparr>pe_get_node := \<lambda>_. NoResponse\<rparr>) ?cl = (Inl err, c1)"
    and auth: "\<not> IsAuthStatusError err"
    by (simp add: fetchPanelSnapshot_def ask_node_def GetNodeInfo_def)
  note restarts = saved_snapshot_restarts [where senv = senv and unmarshal = "\<lambda>_. Inr sn" and ?senv2.0 = sample_save,
      OF _ sv refl f auth]
  from restarts [OF json] have "startupPanelSnapshot (sample_panel\<lparr>pe_get_node := \<lambda>_. NoResponse\<rparr>) sample_save (\<lambda>_. Inr sn)
       sample_conf ?cl fs1 = (Inr sn, c1, fs1)"
    using n by (auto simp: host sn_def senv_def sample_save_def sample_snapshot_def)
  then show ?thesis by (intro exI) (auto simp: sn_def)
qed

end
