(* ===== verification/NodeRuns.thy ===== *)
theory NodeRuns
  imports ControllerFacts
begin

text \<open>
  Polls and reports of the controller that go less smoothly: where the users of a node come
  from when it starts, which devices a report counts, and what a poll that is interrupted
  half way leaves behind.
\<close>

section \<open>Counting devices\<close>

definition devices_of :: "int \<Rightarrow> OnlineUser list \<Rightarrow> string list" where
  "devices_of uid devices = map ou_IP (filter (\<lambda>d. ou_UID d = uid) devices)"

lemma devices_of_simps [simp]:
  "devices_of uid [] = []"
  "devices_of uid (d # ds) = (if ou_UID d = uid then ou_IP d # devices_of uid ds else devices_of uid ds)"
  by (simp_all add: devices_of_def)

lemma count_device_at:
  "count_device skip d data uid =
     (if uid \<in> skip \<or> ou_UID d \<noteq> uid then data uid else Some (map_get [] data uid @ [ou_IP d]))"
  by (auto simp: count_device_def)

lemma count_devices:
  "fold (count_device skip) devices data uid =
     (if uid \<in> skip \<or> devices_of uid devices = [] then data uid
      else Some (map_get [] data uid @ devices_of uid devices))"
proof (induction devices arbitrary: data)
  case (Cons d ds)
  show ?case unfolding fold_simps Cons.IH by (simp add: count_device_at map_get_def)
qed simp

text \<open>
  The report of online devices is exact: for each user it names all his devices in the
  order found, except for users whose reported traffic of this round is below the
  threshold, who are left out.  A user of whom no traffic is reported in this round is
  never left out, however idle his devices are.
\<close>

theorem reported_devices_exact:
  "reportData (noCountUID deviceMin ut) devices uid =
     (if (\<exists>t\<in>set ut. ut_UID t = uid \<and> wrap64 (ut_Upload t + ut_Download t) < wrap64 (deviceMin * 1000))
         \<or> devices_of uid devices = []
      then None else Some (devices_of uid devices)) \<and>
   (uid \<notin> ut_UID ` set ut \<longrightarrow> devices_of uid devices \<noteq> [] \<longrightarrow>
      reportData (noCountUID deviceMin ut) devices uid = Some (devices_of uid devices))"
proof -
  have skip: "uid \<in> noCountUID deviceMin ut \<longleftrightarrow>
      (\<exists>t\<in>set ut. ut_UID t = uid \<and> wrap64 (ut_Upload t + ut_Download t) < wrap64 (deviceMin * 1000))"
    by (auto simp: noCountUID_def)
  then show ?thesis unfolding reportData_def by (auto simp: count_devices)
qed

definition sample_device :: OnlineUser where
  "sample_device = \<lparr>ou_UID = 7, ou_IP = ''1.2.3.4''\<rparr>"

theorem reported_devices_exact_witness:
  "reportData (noCountUID 100 []) [sample_device] 7 = Some [''1.2.3.4'']"
  using reported_devices_exact [of 100 "[]" "[sample_device]" 7]
  by (simp add: sample_device_def)

section \<open>Where the users come from\<close>

lemma save_users:
  assumes "savePanelSnapshot senv client conf (Some sn) fs = (err, sn1, fs1)"
  shows "\<exists>sn2. sn1 = Some sn2 \<and> sn_Users sn2 = sn_Users sn \<and> sn_Alive sn2 = sn_Alive sn"
  using assms by (auto simp: savePanelSnapshot_def Let_def split: option.splits sum.splits)

lemma read_matches:
  assumes "readPanelSnapshot unmarshal client conf fs = Inr sn"
  shows "sn_APIHost sn \<in> {[], cl_APIHost client} \<and> sn_NodeID sn \<in> {0, nc_NodeID conf}"
  using assms by (auto simp: readPanelSnapshot_def split: option.splits sum.splits if_splits)

lemma start_users:
  assumes "controller_Start env senv unmarshal request_cert srv new_server conf runtime client fs = Inr c"
  obtains sn cl fs1 where "startupPanelSnapshot env senv unmarshal conf client fs = (Inr sn, cl, fs1)"
    "ct_userList c = sn_Users sn" "ct_aliveList c = sn_Alive sn"
  using assms
  by (auto simp: controller_Start_def Let_def cloneUserList_def cloneAliveList_id
      split: prod.splits sum.splits option.splits)

text \<open>
  A node serves only users of its own panel: a controller that starts has the users and
  alive counts either of a snapshot just fetched, or, when fetching failed for a reason
  other than a refused token, of the cache file, and then the cache is of this API host and
  this node.  A panel that answers 401 or 403 never lets the node start.
\<close>

theorem start_uses_own_users:
  assumes "controller_Start env senv unmarshal request_cert srv new_server conf runtime client fs = Inr c"
    and "fetchPanelSnapshot env client = (fetched, cl)"
  shows "case fetched of
      Inr sn \<Rightarrow> ct_userList c = sn_Users sn \<and> ct_aliveList c = sn_Alive sn
    | Inl err \<Rightarrow> \<not> IsAuthStatusError err \<and>
        (\<exists>sn. readPanelSnapshot unmarshal cl conf fs = Inr sn \<and>
           ct_userList c = sn_Users sn \<and> ct_aliveList c = sn_Alive sn \<and>
           sn_APIHost sn \<in> {[], cl_APIHost client} \<and> sn_NodeID sn \<in> {0, nc_NodeID conf})"
proof -
  obtain sn cl1 fs1 where s: "startupPanelSnapshot env senv unmarshal conf client fs = (Inr sn, cl1, fs1)"
    and us: "ct_userList c = sn_Users sn" "ct_aliveList c = sn_Alive sn"
    using start_users [OF assms(1)] by blast
  show ?thesis
  proof (cases fetched)
    case (Inr got)
    obtain err sn1 fs2 where sv: "savePanelSnapshot senv cl conf (Some got) fs = (err, sn1, fs2)"
      by (metis prod.exhaust)
    with s assms(2) Inr have "sn1 = Some sn" using save_users [OF sv] by (auto simp: startupPanelSnapshot_def)
    with save_users [OF sv] us Inr show ?thesis by simp
  next
    case (Inl err)
    with s assms(2) have auth: "\<not> IsAuthStatusError err" and rd: "readPanelSnapshot unmarshal cl conf fs = Inr sn"
      by (auto simp: startupPanelSnapshot_def split: if_splits sum.splits)
    with read_matches [OF rd] fetch_host [OF assms(2)] us Inl auth show ?thesis by auto
  qed
qed

theorem start_uses_own_users_witness:
  "\<exists>c sn. controller_Start sample_panel sample_save (\<lambda>_. Inl []) (\<lambda>_. None) (engine_server sample_eenv)
       server_New sample_conf default_runtime (panel_New sample_conf) \<lparr>fs_cache = None, fs_tmp = None\<rparr> = Inr c \<and>
     fst (fetchPanelSnapshot sample_panel (panel_New sample_conf)) = Inr sn \<and> ct_userList c = sn_Users sn"
proof -
  let ?fs = "\<lparr>fs_cache = None, fs_tmp = None\<rparr>"
  obtain node cert where n: "Normalize 1 ''h'' sample_node = Inr node" "ni_CertInfo node = Some cert"
    "ni_Protocol node = ''naive''" "Normalize 1 ''h'' node = Inr node" using sample_normal by blast
  obtain c1 where f: "fetchPanelSnapshot sample_panel (panel_New sample_conf) =
     (Inr \<lparr>sn_APIHost = [], sn_NodeID = 0, sn_Node = Some node, sn_Users = [sample_user],
           sn_Alive = Map.empty, sn_SavedAt = 0\<rparr>, c1)" using sample_fetch [OF n(1,3)] by blast
  have "cl_APIHost c1 = ''h''"
    using fetch_host [OF f] by (simp add: panel_New_def sample_conf_def)
  with f n have snap: "startupPanelSnapshot sample_panel sample_save (\<lambda>_. Inl []) sample_conf (panel_New sample_conf) ?fs =
     (Inr \<lparr>sn_APIHost = [], sn_NodeID = 0, sn_Node = Some node, sn_Users = [sample_user],
           sn_Alive = Map.empty, sn_SavedAt = 0\<rparr>, c1, ?fs)"
    by (simp add: startupPanelSnapshot_def savePanelSnapshot_def sample_save_def sample_conf_def Let_def)
  have "EngineName default_runtime = EngineLegacy" by code_simp
  then obtain c where c: "controller_Start sample_panel sample_save (\<lambda>_. Inl []) (\<lambda>_. None)
        (engine_server sample_eenv) server_New sample_conf default_runtime (panel_New sample_conf) ?fs = Inr c"
    using n(2)
    by (simp add: legacy_New_frame controller_Start_def snap cloneUserList_def cloneAliveList_id server_New_def Let_def
        sample_eenv_def legacy_Start_def)
  from start_uses_own_users [OF c f] c f show ?thesis by simp
qed

section \<open>An interrupted poll\<close>

lemma alive_error_is_ctx: "ask_alive env = Inl err \<Longrightarrow> is_ctx_error err"
  by (auto simp: ask_alive_def GetUserAlive_def split: reply.splits if_splits sum.splits option.splits)


definition slow_panel :: panel_env where
  "slow_panel = sample_panel\<lparr>pe_get_node := \<lambda>_. Reply 304 [] [] [], pe_get_alive := TransportError DeadlineExceeded\<rparr>"


end
