(* ===== verification/Streams.thy ===== *)
theory Streams
  imports Prelude "HOL-Library.Word"
begin

text \<open>
  The byte streams of a tunnel, \<^verbatim>\<open>flushingIoCopy\<close>, \<^verbatim>\<open>dualStream\<close> and \<^verbatim>\<open>streamStats\<close> of
  \<^verbatim>\<open>runtime/forwardproxy/forwardproxy.go\<close>: copying with the padding of the first eight
  frames, and the counters the tunnel's events are made of.

  A reader yields its chunks one read at a time and then its final error, which stays; an
  eager one returns the error together with its last bytes.  What the padding generator,
  the rate limiter, the writer and the flusher answer in each round is part of the
  environment.
\<close>

type_synonym byte = "8 word"

datatype io_error = EOF | UnexpectedEOF | ShortWrite | IoError string

section \<open>Readers\<close>

record reader =
  rd_chunks :: "byte list list"
  rd_eager :: bool
  rd_end :: io_error

definition Read :: "nat \<Rightarrow> reader \<Rightarrow> byte list \<times> io_error option \<times> reader" where
  "Read k rd =
     (case rd_chunks rd of
        [] \<Rightarrow> ([], Some (rd_end rd), rd)
      | c # cs \<Rightarrow>
          if length c \<le> k
          then (c, if cs = [] \<and> rd_eager rd then Some (rd_end rd) else None, rd\<lparr>rd_chunks := cs\<rparr>)
          else (take k c, None, rd\<lparr>rd_chunks := drop k c # cs\<rparr>))"

text \<open>\<^verbatim>\<open>io.ReadFull\<close>: reads until the buffer of \<open>k\<close> bytes is full or the reader ends.\<close>

fun fill :: "nat \<Rightarrow> byte list list \<Rightarrow> byte list \<times> byte list list" where
  "fill k [] = ([], [])"
| "fill k (c # cs) =
     (if k = 0 then ([], c # cs)
      else if length c < k then (case fill (k - length c) cs of (d, rest) \<Rightarrow> (c @ d, rest))
      else if length c = k then (c, cs)
      else (take k c, drop k c # cs))"

definition ReadFull :: "nat \<Rightarrow> reader \<Rightarrow> byte list \<times> io_error option \<times> reader" where
  "ReadFull k rd =
     (case fill k (rd_chunks rd) of
        (d, rest) \<Rightarrow>
          (d,
           if length d = k then None
           else if d \<noteq> [] \<and> rd_end rd = EOF then Some UnexpectedEOF
           else Some (rd_end rd),
           rd\<lparr>rd_chunks := rest\<rparr>))"

section \<open>Counters of a tunnel\<close>

record streamStats =
  st_upload :: int
  st_download :: int
  st_reportedUpload :: int
  st_reportedDownload :: int

definition new_stats :: streamStats where
  "new_stats = \<lparr>st_upload = 0, st_download = 0, st_reportedUpload = 0, st_reportedDownload = 0\<rparr>"

definition AddUpload :: "int \<Rightarrow> streamStats option \<Rightarrow> streamStats option" where
  "AddUpload n stats =
     (case stats of
        None \<Rightarrow> None
      | Some s \<Rightarrow> Some (if n > 0 then s\<lparr>st_upload := wrap64 (st_upload s + n)\<rparr> else s))"

definition AddDownload :: "int \<Rightarrow> streamStats option \<Rightarrow> streamStats option" where
  "AddDownload n stats =
     (case stats of
        None \<Rightarrow> None
      | Some s \<Rightarrow> Some (if n > 0 then s\<lparr>st_download := wrap64 (st_download s + n)\<rparr> else s))"

text \<open>\<^verbatim>\<open>deltaSinceLast\<close> when nothing interferes: the new part, and the new mark.\<close>

definition deltaSinceLast :: "int \<Rightarrow> int \<Rightarrow> int \<times> int" where
  "deltaSinceLast current previous =
     (if current \<le> previous then (0, previous) else (wrap64 (current - previous), current))"

definition Delta :: "streamStats option \<Rightarrow> (int \<times> int) \<times> streamStats option" where
  "Delta stats =
     (case stats of
        None \<Rightarrow> ((0, 0), None)
      | Some s \<Rightarrow>
          let (up, ru) = deltaSinceLast (st_upload s) (st_reportedUpload s);
              (down, rd) = deltaSinceLast (st_download s) (st_reportedDownload s)
          in ((up, down), Some (s\<lparr>st_reportedUpload := ru, st_reportedDownload := rd\<rparr>)))"

section \<open>Copying\<close>

definition NoPadding :: nat where "NoPadding = 0"
definition AddPadding :: nat where "AddPadding = 1"
definition RemovePadding :: nat where "RemovePadding = 2"
definition NumFirstPaddings :: nat where "NumFirstPaddings = 8"

text \<open>
  What the rounds of a copy meet: the random number the padding size is drawn from, the rate limiter's error, what
  the writer took and its error, the flusher's error (\<open>None\<close> for a writer without one).
\<close>

record copy_env =
  ce_pad :: "nat \<Rightarrow> nat"
  ce_wait :: "nat \<Rightarrow> io_error option"
  ce_write :: "nat \<Rightarrow> byte list \<Rightarrow> nat \<times> io_error option"
  ce_flush :: "nat \<Rightarrow> io_error option"

text \<open>\<open>cp_out\<close> is what the writer has taken so far.\<close>

record copy_state =
  cp_reader :: reader
  cp_buf :: "byte list"
  cp_numPadding :: nat
  cp_round :: nat
  cp_written :: int
  cp_stats :: "streamStats option"
  cp_out :: "byte list"

text \<open>Bytes put at the start of the buffer.\<close>

definition overlay :: "byte list \<Rightarrow> byte list \<Rightarrow> byte list" where
  "overlay d buf = d @ drop (length d) buf"

text \<open>The first part of a round: the bytes to write, how many of them are payload, the error.\<close>

definition copy_read ::
  "copy_env \<Rightarrow> nat \<Rightarrow> copy_state \<Rightarrow> byte list \<times> nat \<times> io_error option \<times> copy_state" where
  "copy_read env paddingType s =
     (if paddingType = AddPadding \<and> cp_numPadding s < NumFirstPaddings then
        let paddingSize = ce_pad env (cp_numPadding s) mod 256;
            maxRead = 65536 - 3 - paddingSize;
            (d, er, rd1) = Read (maxRead - 3) (cp_reader s);
            s1 = s\<lparr>cp_numPadding := cp_numPadding s + 1, cp_reader := rd1\<rparr>
        in if d \<noteq> [] then
             let frame = [word_of_nat (length d div 256), word_of_nat (length d mod 256),
                          word_of_nat paddingSize] @ d @ replicate paddingSize 0
             in (frame, length d, er, s1\<lparr>cp_buf := overlay frame (cp_buf s1)\<rparr>)
           else ([], 0, er, s1)
      else if paddingType = RemovePadding \<and> cp_numPadding s < NumFirstPaddings then
        let (h, er, rd1) = ReadFull 3 (cp_reader s);
            s1 = s\<lparr>cp_numPadding := cp_numPadding s + 1, cp_reader := rd1,
                   cp_buf := overlay h (cp_buf s)\<rparr>
        in if h \<noteq> [] then
             let nr = unat (cp_buf s1 ! 0) * 256 + unat (cp_buf s1 ! 1);
                 paddingSize = unat (cp_buf s1 ! 2);
                 (d, er1, rd2) = ReadFull nr rd1;
                 s2 = s1\<lparr>cp_reader := rd2, cp_buf := overlay d (cp_buf s1)\<rparr>
             in if d \<noteq> [] then
                  let (junk, er2, rd3) = ReadFull paddingSize rd2
                  in (d, length d, er2, s2\<lparr>cp_reader := rd3\<rparr>)
                else ([], 0, er1, s2)
           else ([], 0, er, s1)
      else
        let (d, er, rd1) = Read 65536 (cp_reader s)
        in (d, length d, er, s\<lparr>cp_reader := rd1, cp_buf := overlay d (cp_buf s)\<rparr>))"

text \<open>
  The end of a round: \<open>None\<close> goes on, \<open>Some err\<close> leaves the loop with that error.  The end of
  the input is no error.
\<close>

definition copy_round ::
  "copy_env \<Rightarrow> nat \<Rightarrow> bool \<Rightarrow> copy_state \<Rightarrow> io_error option option \<times> copy_state" where
  "copy_round env paddingType upload s =
     (case copy_read env paddingType s of
        (d, logicalNr, er, s1) \<Rightarrow>
          let i = cp_round s1;
              s2 = s1\<lparr>cp_round := i + 1\<rparr>;
              ended = (case er of None \<Rightarrow> None | Some e \<Rightarrow> Some (if e = EOF then None else Some e))
          in if d = [] then (ended, s2)
             else (case ce_wait env i of
                Some e \<Rightarrow> (Some (Some e), s2)
              | None \<Rightarrow>
                  (case ce_write env i d of
                     (nw, ew) \<Rightarrow>
                       let s3 = (if nw > 0
                                 then s2\<lparr>cp_written := wrap64 (cp_written s2 + int logicalNr),
                                         cp_stats := (if upload then AddUpload (int logicalNr) (cp_stats s2)
                                                      else AddDownload (int logicalNr) (cp_stats s2)),
                                         cp_out := cp_out s2 @ take nw d\<rparr>
                                 else s2)
                       in (case ew of
                             Some e \<Rightarrow> (Some (Some e), s3)
                           | None \<Rightarrow>
                               (case ce_flush env i of
                                  Some e \<Rightarrow> (Some (Some e), s3)
                                | None \<Rightarrow>
                                    if length d \<noteq> nw then (Some (Some ShortWrite), s3)
                                    else (ended, s3))))))"


text \<open>Every round that goes on has taken something off the reader.\<close>

definition chunk_weight :: "byte list list \<Rightarrow> nat" where
  "chunk_weight cs = sum_list (map (\<lambda>c. Suc (length c)) cs)"

definition copy_weight :: "copy_state \<Rightarrow> nat" where
  "copy_weight s = chunk_weight (rd_chunks (cp_reader s))"

lemma chunk_weight_simps [simp]:
  "chunk_weight [] = 0" "chunk_weight (c # cs) = Suc (length c + chunk_weight cs)"
  by (simp_all add: chunk_weight_def)

lemma fill_weight: "chunk_weight (snd (fill k cs)) \<le> chunk_weight cs"
proof (induction k cs rule: fill.induct)
  case (2 k c cs)
  then show ?case by (cases "fill (k - length c) cs") auto
qed simp

lemma fill_progress: "cs \<noteq> [] \<Longrightarrow> 0 < k \<Longrightarrow> chunk_weight (snd (fill k cs)) < chunk_weight cs"
proof (cases cs)
  case (Cons c cs')
  assume "0 < k"
  then show ?thesis using fill_weight [of "k - length c" cs']
    by (cases "fill (k - length c) cs'") (auto simp: Cons)
qed simp

lemma ReadFull_weight: "ReadFull k rd = (d, er, rd1) \<Longrightarrow> chunk_weight (rd_chunks rd1) \<le> chunk_weight (rd_chunks rd)"
  using fill_weight [of k "rd_chunks rd"] by (auto simp: ReadFull_def split: prod.splits)

lemma ReadFull_progress:
  "ReadFull k rd = (d, er, rd1) \<Longrightarrow> rd_chunks rd \<noteq> [] \<Longrightarrow> 0 < k \<Longrightarrow>
     chunk_weight (rd_chunks rd1) < chunk_weight (rd_chunks rd)"
  using fill_progress [of "rd_chunks rd" k] by (auto simp: ReadFull_def split: prod.splits)

lemma ReadFull_end: "ReadFull k rd = (d, er, rd1) \<Longrightarrow> rd_chunks rd = [] \<Longrightarrow> 0 < k \<Longrightarrow> d = [] \<and> er \<noteq> None"
  by (auto simp: ReadFull_def)

lemma Read_split: "Read k rd = (d, er, rd1) \<Longrightarrow> d @ concat (rd_chunks rd1) = concat (rd_chunks rd)"
  by (auto simp: Read_def split: list.splits if_splits)

lemma Read_progress:
  "Read k rd = (d, er, rd1) \<Longrightarrow> 0 < k \<Longrightarrow>
     er \<noteq> None \<and> d = [] \<or> chunk_weight (rd_chunks rd1) < chunk_weight (rd_chunks rd)"
  by (auto simp: Read_def split: list.splits if_splits)


lemma copy_read_progress:
  assumes "copy_read env paddingType s = (d, logicalNr, None, s1)"
  shows "copy_weight s1 < copy_weight s"
proof -
  have pos: "0 < 65536 - 3 - p mod 256 - (3::nat)" for p :: nat
  proof -
    have "p mod 256 < 256" by simp
    then show ?thesis by simp
  qed
  consider (add) "paddingType = AddPadding \<and> cp_numPadding s < NumFirstPaddings"
    | (remove) "\<not> (paddingType = AddPadding \<and> cp_numPadding s < NumFirstPaddings)"
        "paddingType = RemovePadding \<and> cp_numPadding s < NumFirstPaddings"
    | (raw) "\<not> (paddingType = AddPadding \<and> cp_numPadding s < NumFirstPaddings)"
        "\<not> (paddingType = RemovePadding \<and> cp_numPadding s < NumFirstPaddings)" by blast
  then show ?thesis
  proof cases
    case add
    then show ?thesis
      using assms Read_progress [OF _ pos [of "ce_pad env (cp_numPadding s)"]]
      by (fastforce simp: copy_read_def Let_def copy_weight_def split: prod.splits if_splits)
  next
    case remove
    obtain h er rd1 where h: "ReadFull 3 (cp_reader s) = (h, er, rd1)" by (metis prod_cases3)
    show ?thesis
    proof (cases "rd_chunks (cp_reader s) = []")
      case True
      with remove assms h ReadFull_end [OF h] show ?thesis by (auto simp: copy_read_def Let_def)
    next
      case False
      then have "chunk_weight (rd_chunks rd1) < copy_weight s"
        using ReadFull_progress [OF h] by (simp add: copy_weight_def)
      with remove assms h show ?thesis
        by (auto simp: copy_read_def Let_def copy_weight_def split: prod.splits if_splits
            dest!: ReadFull_weight)
    qed
  next
    case raw
    then show ?thesis using assms
      by (auto simp: copy_read_def Let_def copy_weight_def split: prod.splits dest!: Read_progress)
  qed
qed

lemma copy_round_read:
  assumes "copy_round env paddingType upload s = (None, s1)"
  obtains d n s0 where "copy_read env paddingType s = (d, n, None, s0)" "cp_reader s1 = cp_reader s0"
  using assms by (auto simp: copy_round_def Let_def split: prod.splits option.splits if_splits)

lemma copy_round_progress:
  "copy_round env paddingType upload s = (None, s1) \<Longrightarrow> copy_weight s1 < copy_weight s"
  by (erule copy_round_read) (use copy_read_progress in \<open>simp add: copy_weight_def\<close>)

text \<open>The whole copy: it ends, as each round takes something off the reader.\<close>

function copy_loop :: "copy_env \<Rightarrow> nat \<Rightarrow> bool \<Rightarrow> copy_state \<Rightarrow> io_error option \<times> copy_state" where
  "copy_loop env paddingType upload s =
     (case copy_round env paddingType upload s of
        (Some err, s1) \<Rightarrow> (err, s1)
      | (None, s1) \<Rightarrow> copy_loop env paddingType upload s1)"
  by pat_completeness auto
termination
  by (relation "measure (\<lambda>(env, paddingType, upload, s). copy_weight s)") (auto dest: copy_round_progress [OF sym])

declare copy_loop.simps [simp del]

definition flushingIoCopy ::
  "copy_env \<Rightarrow> nat \<Rightarrow> bool \<Rightarrow> byte list \<Rightarrow> streamStats option \<Rightarrow> reader \<Rightarrow> io_error option \<times> copy_state" where
  "flushingIoCopy env paddingType upload buf stats src =
     copy_loop env paddingType upload
       \<lparr>cp_reader = src, cp_buf = buf, cp_numPadding = 0, cp_round = 0, cp_written = 0,
        cp_stats = stats, cp_out = []\<rparr>"


text \<open>
  The two directions of a tunnel.  They share the counters, but the one only adds to the
  upload and the other to the download, so running one after the other loses nothing.
\<close>

definition dualStream ::
  "copy_env \<Rightarrow> copy_env \<Rightarrow> bool \<Rightarrow> byte list \<Rightarrow> byte list \<Rightarrow> streamStats option \<Rightarrow> reader \<Rightarrow> reader \<Rightarrow>
     io_error option \<times> copy_state \<times> copy_state" where
  "dualStream upEnv downEnv padding upBuf downBuf stats clientReader target =
     (let (upErr, up) = flushingIoCopy upEnv (if padding then RemovePadding else NoPadding) True
                          upBuf stats clientReader;
          (downErr, down) = flushingIoCopy downEnv (if padding then AddPadding else NoPadding) False
                          downBuf (cp_stats up) target
      in ((if upErr \<noteq> None \<and> upErr \<noteq> Some EOF then upErr
           else if downErr \<noteq> None \<and> downErr \<noteq> Some EOF then downErr
           else None), up, down))"

section \<open>Properties\<close>

text \<open>The loop with a bound on its rounds: \<open>None\<close> is a loop cut off by the bound.\<close>

fun copy_fuel :: "nat \<Rightarrow> copy_env \<Rightarrow> nat \<Rightarrow> bool \<Rightarrow> copy_state \<Rightarrow> (io_error option \<times> copy_state) option" where
  "copy_fuel 0 env paddingType upload s = None"
| "copy_fuel (Suc n) env paddingType upload s =
     (case copy_round env paddingType upload s of
        (Some err, s1) \<Rightarrow> Some (err, s1)
      | (None, s1) \<Rightarrow> copy_fuel n env paddingType upload s1)"

lemma copy_fuel_enough:
  "copy_weight s < n \<Longrightarrow> copy_fuel n env paddingType upload s = Some (copy_loop env paddingType upload s)"
proof (induction n arbitrary: s)
  case (Suc n)
  obtain res s1 where r: "copy_round env paddingType upload s = (res, s1)" by fastforce
  show ?case
  proof (cases res)
    case None
    then have "copy_weight s1 < copy_weight s" using r copy_round_progress by blast
    then have "copy_weight s1 < n" using Suc.prems by simp
    from Suc.IH [OF this] r None show ?thesis by (simp add: copy_loop.simps [of _ _ _ s])
  qed (use r in \<open>simp add: copy_loop.simps [of _ _ _ s]\<close>)
qed simp

text \<open>
  Copying always ends: whatever padding is in force, however the source delivers its bytes
  in chunks and whatever the rate limiter and the destination answer, the copy of a finite
  stream leaves its loop, with the result of the loop, within one round more than the
  stream has bytes and chunks.
\<close>

theorem copy_ends:
  assumes "sum_list (map (\<lambda>c. Suc (length c)) (rd_chunks src)) < n"
  shows "copy_fuel n env paddingType upload
       \<lparr>cp_reader = src, cp_buf = buf, cp_numPadding = 0, cp_round = 0, cp_written = 0,
        cp_stats = stats, cp_out = []\<rparr> =
     Some (flushingIoCopy env paddingType upload buf stats src)"
  using assms by (simp add: flushingIoCopy_def copy_fuel_enough copy_weight_def chunk_weight_def)

text \<open>A padded stream of two chunks that ends in the middle of its second frame.\<close>

theorem copy_ends_witness:
  "copy_fuel 9 \<lparr>ce_pad = \<lambda>_. 0, ce_wait = \<lambda>_. None, ce_write = \<lambda>_ d. (length d, None), ce_flush = \<lambda>_. None\<rparr>
       RemovePadding True
       \<lparr>cp_reader = \<lparr>rd_chunks = [[0, 1, 0, 7], [0, 2]], rd_eager = False, rd_end = EOF\<rparr>, cp_buf = [], cp_numPadding = 0,
        cp_round = 0, cp_written = 0, cp_stats = None, cp_out = []\<rparr> =
     Some (flushingIoCopy \<lparr>ce_pad = \<lambda>_. 0, ce_wait = \<lambda>_. None, ce_write = \<lambda>_ d. (length d, None), ce_flush = \<lambda>_. None\<rparr>
       RemovePadding True [] None \<lparr>rd_chunks = [[0, 1, 0, 7], [0, 2]], rd_eager = False, rd_end = EOF\<rparr>)"
  by (rule copy_ends) simp

end
