(* ===== verification/Padding.thy ===== *)
theory Padding
  imports Streams
begin

text \<open>
  What a copy does to the bytes of a stream: without padding it delivers them as they are;
  the frames the padding side writes are exactly those the other side removes, however the
  network cuts them into pieces; and the counters count the payload.
\<close>

section \<open>Reading\<close>

lemma fill_concat: "fill k cs = (d, rest) \<Longrightarrow> d = take k (concat cs) \<and> concat rest = drop k (concat cs)"
proof (induction k cs arbitrary: d rest rule: fill.induct)
  case (2 k c cs)
  then show ?case by (auto split: if_splits prod.splits)
qed simp

lemma ReadFull_stream:
  assumes "k \<le> length (concat (rd_chunks rd))"
  obtains rd1 where "ReadFull k rd = (take k (concat (rd_chunks rd)), None, rd1)"
    "concat (rd_chunks rd1) = drop k (concat (rd_chunks rd))" "rd_end rd1 = rd_end rd"
proof -
  obtain d rest where f: "fill k (rd_chunks rd) = (d, rest)" by (metis surj_pair)
  with fill_concat [OF f] assms that [of "rd\<lparr>rd_chunks := rest\<rparr>"] show thesis
    by (simp add: ReadFull_def)
qed

lemma Read_stream:
  assumes "Read k rd = (d, er, rd1)"
  shows "concat (rd_chunks rd) = d @ concat (rd_chunks rd1)" "rd_end rd1 = rd_end rd" "length d \<le> k"
    "er \<noteq> None \<Longrightarrow> rd_chunks rd1 = []" "er \<noteq> None \<Longrightarrow> er = Some (rd_end rd)"
  using assms by (auto simp: Read_def split: list.splits if_splits)

section \<open>Counting\<close>

definition add_count :: "bool \<Rightarrow> nat \<Rightarrow> streamStats option \<Rightarrow> streamStats option" where
  "add_count upload n stats = (if upload then AddUpload (int n) stats else AddDownload (int n) stats)"

lemma add_count_0 [simp]: "add_count upload 0 stats = stats"
  by (cases stats) (simp_all add: add_count_def AddUpload_def AddDownload_def)

lemma add_count_add [simp]: "add_count upload m (add_count upload n stats) = add_count upload (n + m) stats"
  by (cases stats) (auto simp: add_count_def AddUpload_def AddDownload_def add.assoc)

section \<open>A copy nothing interrupts\<close>

definition undisturbed :: "copy_env \<Rightarrow> bool" where
  "undisturbed env \<longleftrightarrow>
     (\<forall>i. ce_wait env i = None \<and> ce_flush env i = None) \<and> (\<forall>i d. ce_write env i d = (length d, None))"

definition deliver :: "bool \<Rightarrow> byte list \<Rightarrow> nat \<Rightarrow> copy_state \<Rightarrow> copy_state" where
  "deliver upload d n s =
     (if d = [] then s\<lparr>cp_round := cp_round s + 1\<rparr>
      else s\<lparr>cp_round := cp_round s + 1, cp_written := wrap64 (cp_written s + int n),
             cp_stats := add_count upload n (cp_stats s), cp_out := cp_out s @ d\<rparr>)"

lemma undisturbed_round:
  assumes "undisturbed env" and "copy_read env paddingType s = (d, n, er, s1)"
  shows "copy_round env paddingType upload s =
     ((case er of None \<Rightarrow> None | Some e \<Rightarrow> Some (if e = EOF then None else Some e)), deliver upload d n s1)"
  using assms by (simp add: copy_round_def undisturbed_def deliver_def add_count_def Let_def)

lemma deliver_sel [simp]:
  "cp_reader (deliver upload d n s) = cp_reader s" "cp_buf (deliver upload d n s) = cp_buf s"
  "cp_numPadding (deliver upload d n s) = cp_numPadding s"
  "cp_out (deliver upload d n s) = cp_out s @ d"
  "d \<noteq> [] \<or> n = 0 \<Longrightarrow> cp_stats (deliver upload d n s) = add_count upload n (cp_stats s)"
  by (simp_all add: deliver_def)

text \<open>The bytes delivered and counted, from a state on.\<close>

definition copies :: "copy_env \<Rightarrow> nat \<Rightarrow> bool \<Rightarrow> copy_state \<Rightarrow> byte list \<Rightarrow> nat \<Rightarrow> bool" where
  "copies env paddingType upload s out n \<longleftrightarrow>
     (\<exists>s1. copy_loop env paddingType upload s = (None, s1) \<and> cp_out s1 = cp_out s @ out \<and>
        cp_stats s1 = add_count upload n (cp_stats s))"

lemma copies_step:
  assumes "undisturbed env" and "copy_read env paddingType s = (d, n, None, s1)" and "d \<noteq> [] \<or> n = 0"
    and "cp_out s1 = cp_out s" "cp_stats s1 = cp_stats s"
    and "copies env paddingType upload (deliver upload d n s1) out m"
  shows "copies env paddingType upload s (d @ out) (n + m)"
  using assms(3-6)
  by (auto simp: copies_def copy_loop.simps [of env paddingType upload s] undisturbed_round [OF assms(1,2)])

lemma copies_last:
  assumes "undisturbed env" and "copy_read env paddingType s = (d, n, Some EOF, s1)" and "d \<noteq> [] \<or> n = 0"
    and "cp_out s1 = cp_out s" "cp_stats s1 = cp_stats s"
  shows "copies env paddingType upload s d n"
  using assms(3-5)
  by (auto simp: copies_def copy_loop.simps [of env paddingType upload s] undisturbed_round [OF assms(1,2)])

lemma raw_read:
  assumes "paddingType = NoPadding \<or> NumFirstPaddings \<le> cp_numPadding s"
    and "Read 65536 (cp_reader s) = (d, er, rd1)"
  shows "copy_read env paddingType s =
     (d, length d, er, s\<lparr>cp_reader := rd1, cp_buf := overlay d (cp_buf s)\<rparr>)"
  using assms by (auto simp: copy_read_def NoPadding_def AddPadding_def RemovePadding_def)

lemma raw_copies:
  assumes "undisturbed env" and "paddingType = NoPadding \<or> NumFirstPaddings \<le> cp_numPadding s"
    and "rd_end (cp_reader s) = EOF"
  shows "copies env paddingType upload s (concat (rd_chunks (cp_reader s)))
     (length (concat (rd_chunks (cp_reader s))))"
  using assms(2,3)
proof (induction "copy_weight s" arbitrary: s rule: less_induct)
  case less
  obtain d er rd1 where r: "Read 65536 (cp_reader s) = (d, er, rd1)" by (metis prod_cases3)
  note st = Read_stream [OF r] and cr = raw_read [OF less.prems(1) r]
  show ?case
  proof (cases er)
    case None
    let ?s1 = "s\<lparr>cp_reader := rd1, cp_buf := overlay d (cp_buf s)\<rparr>"
    have "copy_weight (deliver upload d (length d) ?s1) < copy_weight s"
      using copy_read_progress [OF cr [unfolded None, where env = env]] by (simp add: copy_weight_def)
    from less.hyps [OF this] less.prems st
    have "copies env paddingType upload (deliver upload d (length d) ?s1) (concat (rd_chunks rd1))
        (length (concat (rd_chunks rd1)))" by simp
    from copies_step [OF assms(1) cr [unfolded None] _ _ _ this] show ?thesis by (simp add: st(1))
  next
    case (Some e)
    then have "e = EOF" "rd_chunks rd1 = []" using st less.prems by auto
    from copies_last [OF assms(1) cr [unfolded Some this(1)]] show ?thesis
      by (simp add: st(1) \<open>rd_chunks rd1 = []\<close>)
  qed
qed


section \<open>Frames\<close>

definition frame_header :: "nat \<Rightarrow> nat \<Rightarrow> byte list" where
  "frame_header n p = [word_of_nat (n div 256), word_of_nat (n mod 256), word_of_nat p]"

text \<open>
  \<open>framed n bs payload\<close>: \<open>bs\<close> is the payload with the frames from the n-th on, which cover at
  most the first eight reads; whatever follows them is bare.
\<close>

inductive framed :: "nat \<Rightarrow> byte list \<Rightarrow> byte list \<Rightarrow> bool" where
  framed_bare: "NumFirstPaddings \<le> n \<Longrightarrow> framed n bs bs"
| framed_end: "framed n [] []"
| framed_frame:
    "n < NumFirstPaddings \<Longrightarrow> d \<noteq> [] \<Longrightarrow> length d < 65536 \<Longrightarrow> length pad < 256 \<Longrightarrow>
     framed (Suc n) bs payload \<Longrightarrow>
     framed n (frame_header (length d) (length pad) @ d @ pad @ bs) (d @ payload)"

lemma unat_byte: "unat (word_of_nat n :: byte) = n mod 256"
  by (simp add: unsigned_of_nat take_bit_eq_mod)

lemma header_length:
  "n < 65536 \<Longrightarrow> unat (word_of_nat (n div 256) :: byte) * 256 + unat (word_of_nat (n mod 256) :: byte) = n"
  by (simp add: unat_byte)

lemma remove_frame:
  assumes "cp_numPadding s < NumFirstPaddings" and "d \<noteq> []" and "length d < 65536" and "length pad < 256"
    and "concat (rd_chunks (cp_reader s)) = frame_header (length d) (length pad) @ d @ pad @ bs"
  obtains rd1 buf where "copy_read env RemovePadding s =
      (d, length d, None, s\<lparr>cp_numPadding := cp_numPadding s + 1, cp_reader := rd1, cp_buf := buf\<rparr>)"
    "concat (rd_chunks rd1) = bs" "rd_end rd1 = rd_end (cp_reader s)"
proof -
  let ?h = "frame_header (length d) (length pad)"
  have len: "length ?h = 3" by (simp add: frame_header_def)
  obtain r1 where r1: "ReadFull 3 (cp_reader s) = (?h, None, r1)" "concat (rd_chunks r1) = d @ pad @ bs"
    "rd_end r1 = rd_end (cp_reader s)"
    using ReadFull_stream [of 3 "cp_reader s"] assms(5) len by (auto simp: numeral_eq_Suc)
  obtain r2 where r2: "ReadFull (length d) r1 = (d, None, r2)" "concat (rd_chunks r2) = pad @ bs"
    "rd_end r2 = rd_end r1"
    using ReadFull_stream [of "length d" r1] r1(2) by auto
  obtain r3 where r3: "ReadFull (length pad) r2 = (pad, None, r3)" "concat (rd_chunks r3) = bs"
    "rd_end r3 = rd_end r2"
    using ReadFull_stream [of "length pad" r2] r2(2) by auto
  have nth: "overlay ?h buf ! 0 = word_of_nat (length d div 256)"
    "overlay ?h buf ! Suc 0 = word_of_nat (length d mod 256)" "overlay ?h buf ! 2 = word_of_nat (length pad)" for buf
    by (simp_all add: overlay_def frame_header_def numeral_2_eq_2)
  have pad: "unat (word_of_nat (length pad) :: byte) = length pad"
    using assms(4) by (simp add: unat_byte)
  have "?h \<noteq> []" by (simp add: frame_header_def)
  then have "copy_read env RemovePadding s =
      (d, length d, None, s\<lparr>cp_numPadding := cp_numPadding s + 1, cp_reader := r3,
        cp_buf := overlay d (overlay ?h (cp_buf s))\<rparr>)"
    using assms(1-3) r1(1) r2(1) r3(1)
    by (simp add: copy_read_def AddPadding_def RemovePadding_def nth header_length pad)
  from that [OF this] r1 r2 r3 show thesis by simp
qed

lemma remove_end:
  assumes "cp_numPadding s < NumFirstPaddings" and "concat (rd_chunks (cp_reader s)) = []"
    and "rd_end (cp_reader s) = EOF"
  obtains rd1 buf where "copy_read env RemovePadding s =
      ([], 0, Some EOF, s\<lparr>cp_numPadding := cp_numPadding s + 1, cp_reader := rd1, cp_buf := buf\<rparr>)"
proof -
  obtain d rest where f: "fill 3 (rd_chunks (cp_reader s)) = (d, rest)" by (metis surj_pair)
  with fill_concat [OF f] assms(2) have "d = []" by simp
  with f assms have "ReadFull 3 (cp_reader s) = ([], Some EOF, (cp_reader s)\<lparr>rd_chunks := rest\<rparr>)"
    by (simp add: ReadFull_def)
  with assms(1) that show thesis by (simp add: copy_read_def AddPadding_def RemovePadding_def)
qed

text \<open>Removing the padding of a framed stream delivers and counts the payload.\<close>

lemma remove_copies:
  assumes "framed n bs payload" and "undisturbed env" and "cp_numPadding s = n"
    and "concat (rd_chunks (cp_reader s)) = bs" and "rd_end (cp_reader s) = EOF"
  shows "copies env RemovePadding upload s payload (length payload)"
  using assms(1,3-5)
proof (induction arbitrary: s rule: framed.induct)
  case (framed_bare n bs)
  then show ?case using raw_copies [OF assms(2)] by auto
next
  case (framed_end n)
  show ?case
  proof (cases "n < NumFirstPaddings")
    case True
    with framed_end obtain rd1 buf where r: "copy_read env RemovePadding s =
        ([], 0, Some EOF, s\<lparr>cp_numPadding := cp_numPadding s + 1, cp_reader := rd1, cp_buf := buf\<rparr>)"
      using remove_end by metis
    from copies_last [OF assms(2) r] show ?thesis by simp
  next
    case False
    then show ?thesis using raw_copies [OF assms(2), of RemovePadding s upload] framed_end by simp
  qed
next
  case (framed_frame n d pad bs payload)
  then obtain rd1 buf where r: "copy_read env RemovePadding s =
      (d, length d, None, s\<lparr>cp_numPadding := cp_numPadding s + 1, cp_reader := rd1, cp_buf := buf\<rparr>)"
    and rd1: "concat (rd_chunks rd1) = bs" "rd_end rd1 = EOF"
    using remove_frame [of s d pad bs env] by metis
  let ?s1 = "s\<lparr>cp_numPadding := cp_numPadding s + 1, cp_reader := rd1, cp_buf := buf\<rparr>"
  have "copies env RemovePadding upload (deliver upload d (length d) ?s1) payload (length payload)"
    using framed_frame rd1 by (intro framed_frame.IH) simp_all
  from copies_step [OF assms(2) r _ _ _ this] show ?case using framed_frame by simp
qed


section \<open>Adding padding\<close>

lemma add_frame:
  assumes "cp_numPadding s < NumFirstPaddings"
  obtains d er rd1 p where "Read (65530 - p) (cp_reader s) = (d, er, rd1)" "p < 256"
    "copy_read env AddPadding s =
       (if d = [] then ([], 0, er, s\<lparr>cp_numPadding := cp_numPadding s + 1, cp_reader := rd1\<rparr>)
        else (frame_header (length d) p @ d @ replicate p 0, length d, er,
              s\<lparr>cp_numPadding := cp_numPadding s + 1, cp_reader := rd1,
                cp_buf := overlay (frame_header (length d) p @ d @ replicate p 0) (cp_buf s)\<rparr>))"
proof -
  let ?p = "ce_pad env (cp_numPadding s) mod 256"
  obtain d er rd1 where r: "Read (65530 - ?p) (cp_reader s) = (d, er, rd1)" by (metis prod_cases3)
  then have "copy_read env AddPadding s =
       (if d = [] then ([], 0, er, s\<lparr>cp_numPadding := cp_numPadding s + 1, cp_reader := rd1\<rparr>)
        else (frame_header (length d) ?p @ d @ replicate ?p 0, length d, er,
              s\<lparr>cp_numPadding := cp_numPadding s + 1, cp_reader := rd1,
                cp_buf := overlay (frame_header (length d) ?p @ d @ replicate ?p 0) (cp_buf s)\<rparr>))"
    using assms by (simp add: copy_read_def frame_header_def Let_def)
  from that [OF r _ this] show thesis by simp
qed

text \<open>
  What an adding copy writes is framed, and it counts the payload alone.  Its reader must not
  return an empty read without an error: that would use up a frame that is never written.
\<close>

lemma Read_nonempty:
  assumes "Read k rd = (d, er, rd1)" and "[] \<notin> set (rd_chunks rd)" and "0 < k"
  shows "[] \<notin> set (rd_chunks rd1)" and "d = [] \<Longrightarrow> er \<noteq> None \<and> concat (rd_chunks rd) = []"
  using assms by (auto simp: Read_def split: list.splits if_splits)

lemma add_copies:
  assumes "undisturbed env" and "rd_end (cp_reader s) = EOF" and "[] \<notin> set (rd_chunks (cp_reader s))"
  shows "\<exists>bs. framed (cp_numPadding s) bs (concat (rd_chunks (cp_reader s))) \<and>
     copies env AddPadding upload s bs (length (concat (rd_chunks (cp_reader s))))"
  using assms(2,3)
proof (induction "copy_weight s" arbitrary: s rule: less_induct)
  case less
  show ?case
  proof (cases "cp_numPadding s < NumFirstPaddings")
    case False
    then show ?thesis
      using raw_copies [OF assms(1), of AddPadding s upload] less.prems
      by (intro exI [of _ "concat (rd_chunks (cp_reader s))"]) (simp add: framed_bare)
  next
    case True
    obtain d er rd1 p where r: "Read (65530 - p) (cp_reader s) = (d, er, rd1)" and p: "p < 256"
      and cr: "copy_read env AddPadding s =
       (if d = [] then ([], 0, er, s\<lparr>cp_numPadding := cp_numPadding s + 1, cp_reader := rd1\<rparr>)
        else (frame_header (length d) p @ d @ replicate p 0, length d, er,
              s\<lparr>cp_numPadding := cp_numPadding s + 1, cp_reader := rd1,
                cp_buf := overlay (frame_header (length d) p @ d @ replicate p 0) (cp_buf s)\<rparr>))"
      using add_frame [OF True] by metis
    note st = Read_stream [OF r]
    define w where "w = (if d = [] then [] else frame_header (length d) p @ d @ replicate p 0)"
    obtain buf where cr': "copy_read env AddPadding s =
        (w, length d, er, s\<lparr>cp_numPadding := cp_numPadding s + 1, cp_reader := rd1, cp_buf := buf\<rparr>)"
    proof (cases "d = []")
      case True
      show thesis by (rule that [of "cp_buf s"]) (simp add: cr True w_def)
    next
      case False
      with cr that show thesis by (simp add: w_def)
    qed
    have wd: "w = [] \<longleftrightarrow> d = []" by (simp add: w_def frame_header_def)
    let ?s1 = "s\<lparr>cp_numPadding := cp_numPadding s + 1, cp_reader := rd1, cp_buf := buf\<rparr>"
    have ne: "d = [] \<Longrightarrow> er \<noteq> None \<and> concat (rd_chunks (cp_reader s)) = []" "[] \<notin> set (rd_chunks rd1)"
      using Read_nonempty [OF r less.prems(2)] p by auto
    have frame: "framed (cp_numPadding s) (w @ bs) (d @ payload)"
      if "framed (Suc (cp_numPadding s)) bs payload" "d \<noteq> []" for bs payload
      using framed_frame [OF True that(2) _ _ that(1), of "replicate p 0"] that(2) p st(3)
      by (simp add: w_def)
    show ?thesis
    proof (cases er)
      case (Some e)
      then have e: "e = EOF" "rd_chunks rd1 = []" using st less.prems by auto
      have "framed (cp_numPadding s) w d"
        using frame [OF framed_end] framed_end wd by (cases "d = []") auto
      with copies_last [OF assms(1) cr' [unfolded Some e(1)]] wd show ?thesis
        by (intro exI [of _ w]) (simp add: st(1) e(2))
    next
      case None
      have "copy_weight (deliver upload w (length d) ?s1) < copy_weight s"
        using copy_read_progress [OF cr' [unfolded None]] by (simp add: copy_weight_def)
      from less.hyps [OF this] less.prems st(2) ne(2) obtain bs where
        bs: "framed (Suc (cp_numPadding s)) bs (concat (rd_chunks rd1))"
        "copies env AddPadding upload (deliver upload w (length d) ?s1) bs (length (concat (rd_chunks rd1)))"
        by auto
      have "d \<noteq> []" using ne(1) None by blast
      from frame [OF bs(1) this] copies_step [OF assms(1) cr' [unfolded None] _ _ _ bs(2)] wd show ?thesis
        by (intro exI [of _ "w @ bs"]) (simp add: st(1))
    qed
  qed
qed


section \<open>Properties\<close>

text \<open>
  C9. Padding is lossless: whatever one side's adding copy writes for a stream, the other
  side's removing copy turns back into exactly that stream, however the network cuts the
  bytes into reads and whichever paddings were drawn, and both sides count the payload
  and none of the padding.
\<close>

theorem padding_roundtrip:
  assumes "undisturbed env1" and "undisturbed env2"
    and "rd_end src = EOF" and "[] \<notin> set (rd_chunks src)"
    and "flushingIoCopy env1 AddPadding upload1 buf1 stats1 src = (err1, s1)"
    and "concat (rd_chunks wire) = cp_out s1" and "rd_end wire = EOF"
    and "flushingIoCopy env2 RemovePadding upload2 buf2 stats2 wire = (err2, s2)"
  shows "err1 = None \<and> err2 = None \<and> cp_out s2 = concat (rd_chunks src) \<and>
     cp_stats s1 = add_count upload1 (length (concat (rd_chunks src))) stats1 \<and>
     cp_stats s2 = add_count upload2 (length (concat (rd_chunks src))) stats2"
proof -
  let ?start = "\<lambda>buf stats rd. \<lparr>cp_reader = rd, cp_buf = buf, cp_numPadding = 0, cp_round = 0,
      cp_written = 0, cp_stats = stats, cp_out = []\<rparr>"
  obtain bs where f: "framed 0 bs (concat (rd_chunks src))"
    and c: "copies env1 AddPadding upload1 (?start buf1 stats1 src) bs (length (concat (rd_chunks src)))"
    using add_copies [OF assms(1), of "?start buf1 stats1 src" upload1] assms(3,4) by auto
  from c assms(5) have s1: "err1 = None" "cp_out s1 = bs"
    "cp_stats s1 = add_count upload1 (length (concat (rd_chunks src))) stats1"
    by (auto simp: copies_def flushingIoCopy_def)
  have "copies env2 RemovePadding upload2 (?start buf2 stats2 wire) (concat (rd_chunks src))
      (length (concat (rd_chunks src)))"
    by (rule remove_copies [OF f assms(2)]) (use assms(6,7) s1 in simp_all)
  with assms(8) s1 show ?thesis by (auto simp: copies_def flushingIoCopy_def)
qed


definition plain_env :: copy_env where
  "plain_env =
     \<lparr>ce_pad = (\<lambda>i. i), ce_wait = (\<lambda>_. None), ce_write = (\<lambda>_ d. (length d, None)), ce_flush = (\<lambda>_. None)\<rparr>"

text \<open>Two reads of three bytes, and the frames made of them sent byte by byte.\<close>

theorem padding_roundtrip_witness:
  "\<exists>s1 s2. flushingIoCopy plain_env AddPadding False [] (Some new_stats)
       \<lparr>rd_chunks = [[1, 2], [3]], rd_eager = False, rd_end = EOF\<rparr> = (None, s1) \<and>
     flushingIoCopy plain_env RemovePadding True [] None
       \<lparr>rd_chunks = map (\<lambda>b. [b]) (cp_out s1), rd_eager = True, rd_end = EOF\<rparr> = (None, s2) \<and>
     cp_out s2 = [1, 2, 3] \<and> cp_stats s1 = Some (new_stats\<lparr>st_download := 3\<rparr>)"
proof -
  let ?src = "\<lparr>rd_chunks = [[1, 2], [3]], rd_eager = False, rd_end = EOF\<rparr>"
  have env: "undisturbed plain_env" by (simp add: undisturbed_def plain_env_def)
  obtain err1 s1 where 1: "flushingIoCopy plain_env AddPadding False [] (Some new_stats) ?src = (err1, s1)"
    by (metis surj_pair)
  let ?wire = "\<lparr>rd_chunks = map (\<lambda>b. [b]) (cp_out s1), rd_eager = True, rd_end = EOF\<rparr>"
  obtain err2 s2 where 2: "flushingIoCopy plain_env RemovePadding True [] None ?wire = (err2, s2)"
    by (metis surj_pair)
  have "concat (rd_chunks ?wire) = cp_out s1" by (simp add: concat_map_singleton)
  from padding_roundtrip [OF env env _ _ 1 this _ 2] 1 2 show ?thesis
    by (simp add: add_count_def AddDownload_def new_stats_def wrap64_def)
qed

text \<open>
  A frame without payload is not taken off whole: its padding stays on the stream and is
  read as the header of the next frame.
\<close>

lemma empty_frame_leaves_padding:
  "\<exists>s1. copy_read env RemovePadding
       \<lparr>cp_reader = \<lparr>rd_chunks = [[0, 0, 2, 9, 9, 0, 1, 0, 7]], rd_eager = False, rd_end = EOF\<rparr>, cp_buf = [],
        cp_numPadding = 0, cp_round = 0, cp_written = 0, cp_stats = None, cp_out = []\<rparr> = ([], 0, None, s1) \<and>
     rd_chunks (cp_reader s1) = [[9, 9, 0, 1, 0, 7]]"
  by (simp add: copy_read_def ReadFull_def Let_def RemovePadding_def AddPadding_def NumFirstPaddings_def overlay_def
      numeral_eq_Suc)

end
