(* ===== verification/CaddyTunnels.thy ===== *)
theory CaddyTunnels
  imports CaddyProc
begin

text \<open>
  The open tunnels of the Caddy engine.  The table of counters per user and address
  refines an abstract count of open tunnels; the device report lists exactly the
  addresses with a tunnel; and the effect of a close event on the limiter.
\<close>

section \<open>The abstract tunnel count\<close>

type_synonym tunnel_count = "string \<Rightarrow> string \<Rightarrow> nat"

definition spec_event :: "tunnelEvent \<Rightarrow> tunnel_count \<Rightarrow> tunnel_count" where
  "spec_event event count =
     (if ev_Type event = ''open'' then
        count(ev_User event := (count (ev_User event))(ev_IP event := Suc (count (ev_User event) (ev_IP event))))
      else if ev_Type event = ''close'' then
        count(ev_User event := (count (ev_User event))(ev_IP event := count (ev_User event) (ev_IP event) - 1))
      else count)"

definition tunnels :: "CaddyServer \<Rightarrow> string \<Rightarrow> string \<Rightarrow> int" where
  "tunnels s user ip = map_get 0 (map_get Map.empty (cs_online s) user) ip"

definition abs_tunnels :: "CaddyServer \<Rightarrow> tunnel_count" where
  "abs_tunnels s user ip = nat (tunnels s user ip)"

text \<open>No user without an address, no address with a count below one.\<close>

definition online_counts_ok :: "CaddyServer \<Rightarrow> bool" where
  "online_counts_ok s \<longleftrightarrow>
     (\<forall>user ips. cs_online s user = Some ips \<longrightarrow>
        ips \<noteq> Map.empty \<and> (\<forall>ip n. ips ip = Some n \<longrightarrow> 0 < n))"

definition counts_below :: "int \<Rightarrow> CaddyServer \<Rightarrow> bool" where
  "counts_below b s \<longleftrightarrow> (\<forall>user ip. tunnels s user ip < b)"

section \<open>Events on the table\<close>

lemma tunnels_nonneg: "online_counts_ok s \<Longrightarrow> 0 \<le> tunnels s user ip"
  by (fastforce simp: tunnels_def map_get_def online_counts_ok_def split: option.split)

lemma tunnels_cong: "cs_online s1 = cs_online s \<Longrightarrow> tunnels s1 = tunnels s"
  unfolding tunnels_def [abs_def] by simp

lemma online_counts_ok_cong: "cs_online s1 = cs_online s \<Longrightarrow> online_counts_ok s1 = online_counts_ok s"
  by (simp add: online_counts_ok_def)

lemma count_event_online [simp]: "cs_online (count_event event s) = cs_online s"
  by (simp add: count_event_def getCounterForEvent_def getCounterWithUID_def Let_def)

lemma open_tunnel_count:
  assumes "tunnels s user ip + 1 < 2 ^ 63" and "online_counts_ok s"
  shows "tunnels (open_tunnel user ip s) =
     (tunnels s)(user := (tunnels s user)(ip := tunnels s user ip + 1))"
    and "online_counts_ok (open_tunnel user ip s)"
proof -
  have w: "wrap64 (tunnels s user ip + 1) = tunnels s user ip + 1"
    using assms tunnels_nonneg [OF assms(2), of user ip] by (intro wrap64_id) (simp add: in64_def)
  then show "tunnels (open_tunnel user ip s) =
      (tunnels s)(user := (tunnels s user)(ip := tunnels s user ip + 1))"
    by (auto simp: fun_eq_iff tunnels_def open_tunnel_def Let_def map_get_def)
  have pos: "0 < wrap64 (tunnels s user ip + 1)"
    using w tunnels_nonneg [OF assms(2), of user ip] by simp
  show "online_counts_ok (open_tunnel user ip s)"
    unfolding online_counts_ok_def
  proof (intro allI impI)
    fix u ips assume u: "cs_online (open_tunnel user ip s) u = Some ips"
    show "ips \<noteq> Map.empty \<and> (\<forall>ip n. ips ip = Some n \<longrightarrow> 0 < n)"
    proof (cases "u = user")
      case False
      with u assms(2) show ?thesis
        by (auto simp: open_tunnel_def Let_def online_counts_ok_def)
    next
      case True
      with u have "ips = (map_get Map.empty (cs_online s) user)(ip \<mapsto> wrap64 (tunnels s user ip + 1))"
        by (simp add: open_tunnel_def Let_def tunnels_def)
      with pos assms(2) show ?thesis
        by (fastforce simp: map_get_def online_counts_ok_def split: option.splits if_splits)
    qed
  qed
qed

lemma close_tunnel_count:
  assumes "online_counts_ok s"
  shows "tunnels (close_tunnel user ip s) =
     (tunnels s)(user := (tunnels s user)(ip := max 0 (tunnels s user ip - 1)))"
    and "online_counts_ok (close_tunnel user ip s)"
proof -
  show "tunnels (close_tunnel user ip s) =
      (tunnels s)(user := (tunnels s user)(ip := max 0 (tunnels s user ip - 1)))"
  proof (cases "cs_online s user")
    case None
    then show ?thesis by (auto simp: fun_eq_iff tunnels_def close_tunnel_def)
  next
    case (Some ips)
    have get: "map_get 0 (map_get Map.empty ((cs_online s)(user := if m = Map.empty then None else Some m)) u) i =
        (if u = user then map_get 0 m i else tunnels s u i)" for m :: "string \<rightharpoonup> int" and u i
      by (auto simp: map_get_def tunnels_def)
    have "0 \<le> tunnels s user ip" by (rule tunnels_nonneg [OF assms])
    with Some show ?thesis
      by (auto simp: fun_eq_iff tunnels_def [of "close_tunnel _ _ _"] close_tunnel_def Let_def get)
         (auto simp: tunnels_def map_get_def)
  qed
  show "online_counts_ok (close_tunnel user ip s)"
  proof (cases "cs_online s user")
    case None
    with assms show ?thesis by (simp add: close_tunnel_def)
  next
    case (Some ips)
    with assms have "\<forall>ip n. ips ip = Some n \<longrightarrow> 0 < n" by (simp add: online_counts_ok_def)
    with Some assms show ?thesis
      by (auto simp: close_tunnel_def Let_def online_counts_ok_def split: if_splits)
  qed
qed

lemma handleEvent_online:
  "cs_online (snd (handleEvent event s)) =
     (if ev_Type event = ''open'' then cs_online (open_tunnel (ev_User event) (ev_IP event) s)
      else if ev_Type event = ''close'' then cs_online (close_tunnel (ev_User event) (ev_IP event) s)
      else cs_online s)"
  by (simp add: handleEvent_def Let_def close_tunnel_def split: option.split)

text \<open>The count of one pair after an event.\<close>

lemma handleEvent_tunnels:
  assumes "online_counts_ok s" and "counts_below b s" and "b < 2 ^ 63 - 1"
  shows "tunnels (snd (handleEvent event s)) user ip =
     (if user = ev_User event \<and> ip = ev_IP event then
        (if ev_Type event = ''open'' then tunnels s user ip + 1
         else if ev_Type event = ''close'' then max 0 (tunnels s user ip - 1)
         else tunnels s user ip)
      else tunnels s user ip)"
    and "online_counts_ok (snd (handleEvent event s))"
proof -
  let ?s1 = "snd (handleEvent event s)" and ?u = "ev_User event" and ?i = "ev_IP event"
  have "tunnels s ?u ?i < b" using assms(2) by (simp add: counts_below_def)
  with assms(3) have small: "tunnels s ?u ?i + 1 < 2 ^ 63" by linarith
  note op = open_tunnel_count [OF small assms(1)] and cl = close_tunnel_count [OF assms(1), of ?u ?i]
  consider "ev_Type event = ''open''" "cs_online ?s1 = cs_online (open_tunnel ?u ?i s)"
    | "ev_Type event = ''close''" "cs_online ?s1 = cs_online (close_tunnel ?u ?i s)"
    | "ev_Type event \<noteq> ''open''" "ev_Type event \<noteq> ''close''" "cs_online ?s1 = cs_online s"
    by (cases "ev_Type event = ''open''"; cases "ev_Type event = ''close''")
       (simp_all add: handleEvent_online)
  then have "tunnels ?s1 user ip =
     (if user = ?u \<and> ip = ?i then
        (if ev_Type event = ''open'' then tunnels s user ip + 1
         else if ev_Type event = ''close'' then max 0 (tunnels s user ip - 1)
         else tunnels s user ip)
      else tunnels s user ip) \<and> online_counts_ok ?s1"
  proof cases
    case 1
    with op show ?thesis by (simp add: tunnels_cong [OF 1(2)] online_counts_ok_cong [OF 1(2)])
  next
    case 2
    with cl show ?thesis by (simp add: tunnels_cong [OF 2(2)] online_counts_ok_cong [OF 2(2)])
  next
    case 3
    with assms(1) show ?thesis by (simp add: tunnels_cong [OF 3(3)] online_counts_ok_cong [OF 3(3)])
  qed
  then show "tunnels ?s1 user ip =
     (if user = ?u \<and> ip = ?i then
        (if ev_Type event = ''open'' then tunnels s user ip + 1
         else if ev_Type event = ''close'' then max 0 (tunnels s user ip - 1)
         else tunnels s user ip)
      else tunnels s user ip)" and "online_counts_ok ?s1" by blast+
qed

lemma handleEvent_refines:
  assumes "online_counts_ok s" and "counts_below b s" and "b < 2 ^ 63 - 1"
  shows "abs_tunnels (snd (handleEvent event s)) = spec_event event (abs_tunnels s)"
    and "counts_below (b + 1) (snd (handleEvent event s))"
proof -
  have nonneg: "0 \<le> tunnels s user ip" for user ip by (rule tunnels_nonneg [OF assms(1)])
  then show "abs_tunnels (snd (handleEvent event s)) = spec_event event (abs_tunnels s)"
    by (auto simp: fun_eq_iff abs_tunnels_def handleEvent_tunnels(1) [OF assms] spec_event_def
        nat_add_distrib max_def)
  have below: "tunnels s user ip < b" for user ip
    using assms(2) by (simp add: counts_below_def)
  show "counts_below (b + 1) (snd (handleEvent event s))"
    unfolding counts_below_def
  proof (intro allI)
    fix user ip
    show "tunnels (snd (handleEvent event s)) user ip < b + 1"
      using below [of user ip] nonneg [of user ip]
      by (auto simp: handleEvent_tunnels(1) [OF assms])
  qed
qed

text \<open>A run of events.\<close>

definition run_events :: "tunnelEvent list \<Rightarrow> CaddyServer \<Rightarrow> CaddyServer" where
  "run_events evs s = fold (\<lambda>event s. snd (handleEvent event s)) evs s"

lemma run_events_refines:
  assumes "online_counts_ok s" and "counts_below b s" and "b + int (length evs) < 2 ^ 63"
  shows "abs_tunnels (run_events evs s) = fold spec_event evs (abs_tunnels s) \<and>
     online_counts_ok (run_events evs s)"
  using assms
proof (induction evs arbitrary: s b)
  case Nil
  then show ?case by (simp add: run_events_def)
next
  case (Cons ev evs)
  let ?s1 = "snd (handleEvent ev s)"
  have b: "b < 2 ^ 63 - 1" using Cons.prems(3) by simp
  note step = handleEvent_refines [OF Cons.prems(1,2) b, of ev]
    handleEvent_tunnels(2) [OF Cons.prems(1,2) b, of ev]
  have "abs_tunnels (run_events evs ?s1) = fold spec_event evs (abs_tunnels ?s1) \<and>
      online_counts_ok (run_events evs ?s1)"
    using Cons.prems(3) by (intro Cons.IH [OF step(3,2)]) simp
  then show ?case by (simp add: run_events_def step(1))
qed

section \<open>User updates\<close>

lemma fold_enter_user_None:
  "fold enter_user users m user = None \<longleftrightarrow> user \<notin> ui_Uuid ` set users \<and> m user = None"
  by (induction users arbitrary: m) (auto simp: enter_user_def)

lemma replaceUsers_tunnels:
  "abs_tunnels (replaceUsers users s) user ip =
     (if user \<in> ui_Uuid ` set users then abs_tunnels s user ip else 0)"
  by (cases "cs_online s user")
     (simp_all add: abs_tunnels_def tunnels_def replaceUsers_def Let_def map_get_def range_update_def
       fold_enter_user_None)

lemma fold_delta_delete_online:
  "cs_online (fold delta_delete deleted s) user =
     (if user \<in> ui_Uuid ` set deleted then None else cs_online s user)"
  by (induction deleted arbitrary: s) (auto simp: delta_delete_def)

lemma fold_online_frame:
  "(\<And>x s. cs_online (f x s) = cs_online s) \<Longrightarrow> cs_online (fold f xs s) = cs_online s"
  by (induction xs arbitrary: s) auto

lemma applyUserDelta_online:
  "cs_online (applyUserDelta added deleted modified s) user =
     (if user \<in> ui_Uuid ` set deleted then None else cs_online s user)"
proof -
  have "cs_online (fold delta_add added s) = cs_online s"
    "cs_online (fold delta_modify modified s) = cs_online s" for s
    by (simp_all add: fold_online_frame delta_add_def delta_modify_def)
  then show ?thesis by (simp add: applyUserDelta_def fold_delta_delete_online)
qed

section \<open>The device report\<close>

definition tunnel_order :: "CaddyServer \<Rightarrow> string list \<Rightarrow> (string \<Rightarrow> string list) \<Rightarrow> bool" where
  "tunnel_order s ks ips \<longleftrightarrow>
     range_order (cs_online s) ks \<and> (\<forall>uuid m. cs_online s uuid = Some m \<longrightarrow> range_order m (ips uuid))"

definition tunnel_pairs :: "CaddyServer \<Rightarrow> string list \<Rightarrow> (string \<Rightarrow> string list) \<Rightarrow> (string \<times> string) list" where
  "tunnel_pairs s ks ips =
     concat (map (\<lambda>uuid. if ui_Id (userByUUID uuid s) = 0 then [] else map (Pair uuid) (ips uuid)) ks)"

lemma tunnels_pos:
  assumes "online_counts_ok s"
  shows "0 < tunnels s uuid ip \<longleftrightarrow> (\<exists>m. cs_online s uuid = Some m \<and> m ip \<noteq> None)"
proof (cases "cs_online s uuid")
  case None
  then show ?thesis by (simp add: tunnels_def)
next
  case (Some m)
  with assms show ?thesis
    by (cases "m ip") (auto simp: tunnels_def online_counts_ok_def)
qed

lemma tunnel_order_mem:
  assumes "tunnel_order s ks ips"
  shows "uuid \<in> set ks \<and> ip \<in> set (ips uuid) \<longleftrightarrow> (\<exists>m. cs_online s uuid = Some m \<and> m ip \<noteq> None)"
proof (cases "cs_online s uuid")
  case None
  with assms show ?thesis by (auto simp: tunnel_order_def range_order_def)
next
  case (Some m)
  with assms have "set (ips uuid) = dom m" "uuid \<in> set ks"
    by (auto simp: tunnel_order_def range_order_def)
  with Some show ?thesis by auto
qed

lemma tunnel_pairs_set:
  assumes "online_counts_ok s" and "tunnel_order s ks ips"
  shows "set (tunnel_pairs s ks ips) =
     {(uuid, ip). 0 < abs_tunnels s uuid ip \<and> ui_Id (userByUUID uuid s) \<noteq> 0}"
proof -
  have "set (tunnel_pairs s ks ips) =
      {(uuid, ip). (uuid \<in> set ks \<and> ip \<in> set (ips uuid)) \<and> ui_Id (userByUUID uuid s) \<noteq> 0}"
    by (auto simp: tunnel_pairs_def)
  then show ?thesis
    by (simp add: tunnel_order_mem [OF assms(2)] abs_tunnels_def tunnels_pos [OF assms(1)])
qed

lemma tunnel_pairs_distinct:
  assumes "tunnel_order s ks ips"
  shows "distinct (tunnel_pairs s ks ips)"
proof -
  have "distinct (tunnel_pairs s ks' ips)" if "distinct ks'" "set ks' \<subseteq> dom (cs_online s)" for ks'
    using that
  proof (induction ks')
    case Nil
    then show ?case by (simp add: tunnel_pairs_def)
  next
    case (Cons k ks')
    then have "distinct (ips k)"
      using assms by (auto simp: tunnel_order_def intro: range_order_distinct)
    with Cons show ?case
      by (auto simp: tunnel_pairs_def distinct_map inj_on_def split: if_splits)
  qed
  with assms show ?thesis by (simp add: tunnel_order_def range_order_def)
qed

lemma online_entry_pairs:
  assumes "online_counts_ok s" and "tunnel_order s ks ips" and "uuid \<in> set ks"
  shows "online_entry s ips uuid =
     (if ui_Id (userByUUID uuid s) = 0 then []
      else map (\<lambda>ip. \<lparr>ou_UID = ui_Id (userByUUID uuid s), ou_IP = ip\<rparr>) (ips uuid))"
proof -
  obtain m where m: "cs_online s uuid = Some m" "range_order m (ips uuid)"
    using assms(2,3) by (auto simp: tunnel_order_def range_order_mem)
  then have "0 < map_get 0 m ip" if "ip \<in> set (ips uuid)" for ip
    using that assms(1) by (auto simp: range_order_mem online_counts_ok_def)
  with m show ?thesis
    by (auto simp: online_entry_def Let_def map_get_def [of Map.empty] intro: arg_cong [where f = concat])
       (simp add: concat_map_singleton cong: map_cong)
qed

section \<open>Properties\<close>

text \<open>
  C14. The table of open tunnels refines the abstract count: over any run of events from a
  fresh engine, whatever users and addresses they name and in whatever order, the entry
  of a user and address is its number of opens less its closes, never below zero, and
  addresses without a tunnel are not in the table.
\<close>

theorem tunnel_table_refines:
  assumes "length evs < 2 ^ 62"
  shows "abs_tunnels (run_events evs (caddy_New node users alive runtime)) = fold spec_event evs (\<lambda>_ _. 0) \<and>
     online_counts_ok (run_events evs (caddy_New node users alive runtime))"
proof -
  let ?s = "caddy_New node users alive runtime"
  have "cs_online ?s = Map.empty"
    by (simp add: caddy_New_def replaceUsers_def Let_def range_update_def)
  then have "online_counts_ok ?s" "counts_below 1 ?s" "abs_tunnels ?s = (\<lambda>_ _. 0)"
    by (simp_all add: online_counts_ok_def counts_below_def abs_tunnels_def [abs_def] tunnels_def)
  with run_events_refines [of ?s 1 evs] assms show ?thesis by simp
qed

definition sample_open :: tunnelEvent where
  "sample_open =
     \<lparr>ev_Type = ''open'', ev_User = ''u'', ev_UserID = 7, ev_IP = ''1'', ev_Host = [], ev_Target = [],
      ev_Upload = 0, ev_Download = 0, ev_Duration = 0\<rparr>"

theorem tunnel_table_refines_witness:
  "abs_tunnels (run_events [sample_open, sample_open] (caddy_New sample_node [] Map.empty default_runtime))
     ''u'' ''1'' = 2"
proof -
  have "length [sample_open, sample_open] < 2 ^ 62" by simp
  then have "abs_tunnels (run_events [sample_open, sample_open]
      (caddy_New sample_node [] Map.empty default_runtime)) =
      fold spec_event [sample_open, sample_open] (\<lambda>_ _. 0)"
    using tunnel_table_refines by blast
  then show ?thesis by (simp add: spec_event_def sample_open_def)
qed

text \<open>
  The engine's device report lists each user and address with an open tunnel exactly
  once, in whatever order the tables are walked, except for users without an id.
\<close>

theorem caddy_online_device_exact:
  assumes "online_counts_ok s" and "tunnel_order s ks ips"
  shows "\<exists>ps. distinct ps \<and>
     set ps = {(uuid, ip). 0 < abs_tunnels s uuid ip \<and> ui_Id (userByUUID uuid s) \<noteq> 0} \<and>
     caddy_GetOnlineDevice ks ips s =
       map (\<lambda>(uuid, ip). \<lparr>ou_UID = ui_Id (userByUUID uuid s), ou_IP = ip\<rparr>) ps"
proof (intro exI conjI)
  show "distinct (tunnel_pairs s ks ips)" by (rule tunnel_pairs_distinct [OF assms(2)])
  show "set (tunnel_pairs s ks ips) =
      {(uuid, ip). 0 < abs_tunnels s uuid ip \<and> ui_Id (userByUUID uuid s) \<noteq> 0}"
    by (rule tunnel_pairs_set [OF assms])
  show "caddy_GetOnlineDevice ks ips s =
      map (\<lambda>(uuid, ip). \<lparr>ou_UID = ui_Id (userByUUID uuid s), ou_IP = ip\<rparr>) (tunnel_pairs s ks ips)"
    unfolding caddy_GetOnlineDevice_def tunnel_pairs_def map_concat
    by (auto simp: online_entry_pairs [OF assms] comp_def intro!: arg_cong [where f = concat])
qed

text \<open>An engine with two tunnels of the sample user open from one address.\<close>

definition two_tunnels :: CaddyServer where
  "two_tunnels =
     (caddy_New sample_node [sample_user] [7 \<mapsto> 1] default_runtime)\<lparr>cs_online := [''u'' \<mapsto> [''1'' \<mapsto> 2]]\<rparr>"

lemma two_tunnels_ok: "online_counts_ok two_tunnels" "counts_below (2 ^ 62) two_tunnels"
  by (auto simp: two_tunnels_def online_counts_ok_def counts_below_def tunnels_def map_get_def)

theorem caddy_online_device_exact_witness:
  "\<exists>ps. distinct ps \<and>
     caddy_GetOnlineDevice [''u''] (\<lambda>_. [''1'']) two_tunnels =
       map (\<lambda>(uuid, ip). \<lparr>ou_UID = ui_Id (userByUUID uuid two_tunnels), ou_IP = ip\<rparr>) ps"
proof -
  have "tunnel_order two_tunnels [''u''] (\<lambda>_. [''1''])"
    by (simp add: tunnel_order_def range_order_def two_tunnels_def)
  from caddy_online_device_exact [OF two_tunnels_ok(1) this] show ?thesis by blast
qed

text \<open>
  A user update closes the book on the tunnels of users that are gone and keeps the
  others': after a full list the users it does not name have no open tunnel, after a
  delta those it deletes.
\<close>

theorem update_keeps_tunnels:
  "abs_tunnels (caddy_UpdateUsers added deleted modified full s) user ip =
     (if (case full of Some users \<Rightarrow> user \<in> ui_Uuid ` set users
          | None \<Rightarrow> user \<notin> ui_Uuid ` set deleted)
      then abs_tunnels s user ip else 0)"
proof (cases full)
  case (Some users)
  have "abs_tunnels (caddy_UpdateUsers added deleted modified full s) = abs_tunnels (replaceUsers users s)"
    by (simp add: Some caddy_UpdateUsers_def Let_def abs_tunnels_def [abs_def] tunnels_def [abs_def])
  then show ?thesis by (simp add: Some replaceUsers_tunnels)
next
  case None
  then show ?thesis
    by (simp add: caddy_UpdateUsers_def Let_def abs_tunnels_def tunnels_def map_get_def
        applyUserDelta_online)
qed

text \<open>
  Closing one of several tunnels of a user from the same address gives the address
  back although a tunnel is still open: with the user at the device limit (which the
  address itself may be the one to fill), the next periodic authorisation of the
  remaining tunnel is rejected, and the tunnel is cut.
\<close>

theorem close_drops_shared_address:
  assumes "online_counts_ok s" and "counts_below (2 ^ 62) s"
    and "ev_Type event = ''close''" and "2 \<le> abs_tunnels s (ev_User event) (ev_IP event)"
    and "LimitInfo (cs_limiter s) (ev_User event) = Some info"
    and "0 < li_DeviceLimit info" and "li_DeviceLimit info \<le> aliveCount (li_UID info) (cs_limiter s)"
    and "OldUserOnline (cs_limiter s) (plain_ip (ev_IP event)) \<in> {None, Some (li_UID info)}"
  shows "0 < abs_tunnels (snd (handleEvent event s)) (ev_User event) (ev_IP event) \<and>
     snd (fst (Authorize (ev_User event) (ev_IP event) (cs_limiter (snd (handleEvent event s)))))"
proof
  show "0 < abs_tunnels (snd (handleEvent event s)) (ev_User event) (ev_IP event)"
    using handleEvent_refines(1) [OF assms(1,2), of event] assms(3,4) by (simp add: spec_event_def)
  have "cs_limiter (snd (handleEvent event s)) = ReleaseIP (ev_User event) (ev_IP event) (cs_limiter s)"
    using assms(3)
    by (simp add: handleEvent_def Let_def close_tunnel_def count_event_def getCounterForEvent_def
        getCounterWithUID_def split: option.split)
  then show "snd (fst (Authorize (ev_User event) (ev_IP event) (cs_limiter (snd (handleEvent event s)))))"
    using assms(5-8)
    by (auto simp: Authorize_fst admit_decision over_limit_def ReleaseIP_def release_online_def release_old_def Let_def
        online_def aliveCount_def split: option.splits)
qed

theorem close_drops_shared_address_witness:
  "0 < abs_tunnels (snd (handleEvent (sample_open\<lparr>ev_Type := ''close''\<rparr>) two_tunnels)) ''u'' ''1'' \<and>
   snd (fst (Authorize ''u'' ''1''
     (cs_limiter (snd (handleEvent (sample_open\<lparr>ev_Type := ''close''\<rparr>) two_tunnels)))))"
proof -
  let ?ev = "sample_open\<lparr>ev_Type := ''close''\<rparr>"
  have "0 < abs_tunnels (snd (handleEvent ?ev two_tunnels)) (ev_User ?ev) (ev_IP ?ev) \<and>
      snd (fst (Authorize (ev_User ?ev) (ev_IP ?ev) (cs_limiter (snd (handleEvent ?ev two_tunnels)))))"
    by (rule close_drops_shared_address [OF two_tunnels_ok, where info = "new_info sample_user"])
       (simp_all add: sample_open_def two_tunnels_def abs_tunnels_def tunnels_def caddy_New_def
         replaceUsers_def Let_def limiter_eval)
  then show ?thesis by (simp add: sample_open_def)
qed

end
