(* ===== verification/Tunnels.thy ===== *)
theory Tunnels
  imports Padding CaddyAccounting CaddyTunnels
begin

text \<open>
  A tunnel's accounting in \<^verbatim>\<open>runtime/forwardproxy\<close>: the lock-free \<^verbatim>\<open>deltaSinceLast\<close> as the
  interleaved steps of its callers, the events a tunnel emits while it runs and when it
  ends (\<^verbatim>\<open>reportActiveTunnel\<close> and the deferred calls of ServeHTTP), and what the engine makes
  of them.
\<close>

section \<open>deltaSinceLast, step by step\<close>

text \<open>Where a caller is: before the first load, after it, and before the compare-and-swap.\<close>

datatype delta_pc = DeltaStart | DeltaTotal int | DeltaBoth int int

text \<open>\<open>ds_given\<close> adds up what the calls have returned.\<close>

record delta_state =
  ds_total :: int
  ds_reported :: int
  ds_pc :: "nat \<Rightarrow> delta_pc"
  ds_given :: int

definition delta_start :: delta_state where
  "delta_start = \<lparr>ds_total = 0, ds_reported = 0, ds_pc = (\<lambda>_. DeltaStart), ds_given = 0\<rparr>"

inductive delta_step :: "delta_state \<Rightarrow> delta_state \<Rightarrow> bool" where
  delta_add:
    "0 < n \<Longrightarrow> ds_total s + n < 2 ^ 63 \<Longrightarrow> delta_step s (s\<lparr>ds_total := wrap64 (ds_total s + n)\<rparr>)"
| delta_load_total:
    "ds_pc s t = DeltaStart \<Longrightarrow> delta_step s (s\<lparr>ds_pc := (ds_pc s)(t := DeltaTotal (ds_total s))\<rparr>)"
| delta_nothing:
    "ds_pc s t = DeltaTotal current \<Longrightarrow> current \<le> ds_reported s \<Longrightarrow>
     delta_step s (s\<lparr>ds_pc := (ds_pc s)(t := DeltaStart)\<rparr>)"
| delta_load_reported:
    "ds_pc s t = DeltaTotal current \<Longrightarrow> \<not> current \<le> ds_reported s \<Longrightarrow>
     delta_step s (s\<lparr>ds_pc := (ds_pc s)(t := DeltaBoth current (ds_reported s))\<rparr>)"
| delta_swap:
    "ds_pc s t = DeltaBoth current previous \<Longrightarrow> ds_reported s = previous \<Longrightarrow>
     delta_step s (s\<lparr>ds_reported := current, ds_pc := (ds_pc s)(t := DeltaStart),
                    ds_given := ds_given s + wrap64 (current - previous)\<rparr>)"
| delta_retry:
    "ds_pc s t = DeltaBoth current previous \<Longrightarrow> ds_reported s \<noteq> previous \<Longrightarrow>
     delta_step s (s\<lparr>ds_pc := (ds_pc s)(t := DeltaStart)\<rparr>)"

definition delta_ok :: "delta_state \<Rightarrow> bool" where
  "delta_ok s \<longleftrightarrow>
     ds_given s = ds_reported s \<and> 0 \<le> ds_reported s \<and> ds_reported s \<le> ds_total s \<and> ds_total s < 2 ^ 63 \<and>
     (\<forall>t current. ds_pc s t = DeltaTotal current \<longrightarrow> current \<le> ds_total s) \<and>
     (\<forall>t current previous. ds_pc s t = DeltaBoth current previous \<longrightarrow>
        0 \<le> previous \<and> previous < current \<and> current \<le> ds_total s)"

lemma delta_start_ok: "delta_ok delta_start"
  by (simp add: delta_ok_def delta_start_def)

lemma delta_step_ok:
  assumes "delta_step s s1" and "delta_ok s"
  shows "delta_ok s1"
  using assms(1)
proof cases
  case (delta_add n)
  then have "wrap64 (ds_total s + n) = ds_total s + n"
    using assms(2) by (intro wrap64_id) (auto simp: delta_ok_def in64_def)
  with delta_add assms(2) show ?thesis by (fastforce simp: delta_ok_def)
next
  case (delta_swap t current previous)
  have pc: "ds_pc s t = DeltaBoth current (ds_reported s)" using delta_swap(2,3) by simp
  then have c: "0 \<le> ds_reported s" "ds_reported s < current" "current \<le> ds_total s"
    using assms(2) unfolding delta_ok_def by blast+
  then have "wrap64 (current - ds_reported s) = current - ds_reported s"
    using assms(2) by (intro wrap64_id) (auto simp: delta_ok_def in64_def)
  then have s1: "s1 = s\<lparr>ds_reported := current, ds_pc := (ds_pc s)(t := DeltaStart), ds_given := current\<rparr>"
    using delta_swap(1,3) assms(2) by (simp add: delta_ok_def)
  have "0 \<le> current" using c by simp
  with c(3) assms(2) show ?thesis unfolding s1 delta_ok_def by simp
qed (use assms(2) in \<open>auto simp: delta_ok_def split: if_splits\<close>)

text \<open>Only another caller's success makes a caller try again.\<close>

lemma delta_reported_grows:
  "delta_step s s1 \<Longrightarrow> delta_ok s \<Longrightarrow> ds_reported s \<le> ds_reported s1 \<and>
     (ds_reported s = ds_reported s1 \<or> ds_given s < ds_given s1)"
proof -
  assume st: "delta_step s s1" and ok: "delta_ok s"
  then have "delta_ok s1" by (rule delta_step_ok)
  show ?thesis using st
  proof cases
    case (delta_swap t current previous)
    then have "ds_reported s < ds_reported s1" using ok by (auto simp: delta_ok_def)
    with ok \<open>delta_ok s1\<close> show ?thesis by (simp add: delta_ok_def)
  qed simp_all
qed

inductive delta_reachable :: "delta_state \<Rightarrow> bool" where
  "delta_reachable delta_start"
| "delta_reachable s \<Longrightarrow> delta_step s s1 \<Longrightarrow> delta_reachable s1"

lemma delta_reachable_ok: "delta_reachable s \<Longrightarrow> delta_ok s"
  by (induction rule: delta_reachable.induct) (auto intro: delta_start_ok delta_step_ok)


section \<open>The events of a tunnel\<close>

record tunnel_info =
  ti_user :: string
  ti_userID :: int
  ti_ip :: string
  ti_host :: string
  ti_target :: string

definition tunnel_event :: "string \<Rightarrow> tunnel_info \<Rightarrow> int \<Rightarrow> int \<Rightarrow> tunnelEvent" where
  "tunnel_event kind t upload download =
     \<lparr>ev_Type = kind, ev_User = ti_user t, ev_UserID = ti_userID t, ev_IP = ti_ip t,
      ev_Host = ti_host t, ev_Target = ti_target t, ev_Upload = upload, ev_Download = download,
      ev_Duration = 0\<rparr>"

lemma tunnel_event_sel [simp]:
  "ev_Type (tunnel_event kind t u d) = kind" "ev_User (tunnel_event kind t u d) = ti_user t"
  "ev_Upload (tunnel_event kind t u d) = u" "ev_Download (tunnel_event kind t u d) = d"
  "ev_IP (tunnel_event kind t u d) = ti_ip t"
  by (simp_all add: tunnel_event_def)

text \<open>
  One tick of \<^verbatim>\<open>reportActiveTunnel\<close>: the event of what is new, and whether the target is
  closed because the user is no longer authorised.
\<close>

definition reportActiveTunnel_tick ::
  "tunnel_info \<Rightarrow> bool \<Rightarrow> streamStats option \<Rightarrow> tunnelEvent list \<times> bool \<times> streamStats option" where
  "reportActiveTunnel_tick t authorized stats =
     (case Delta stats of
        ((upload, download), stats1) \<Rightarrow>
          (if upload > 0 \<or> download > 0 then [tunnel_event ''traffic'' t upload download] else [],
           \<not> authorized, stats1))"

text \<open>The event ServeHTTP emits when the tunnel has ended.\<close>

definition close_event :: "tunnel_info \<Rightarrow> streamStats option \<Rightarrow> tunnelEvent \<times> streamStats option" where
  "close_event t stats =
     (case Delta stats of
        ((upload, download), stats1) \<Rightarrow> (tunnel_event ''close'' t upload download, stats1))"

text \<open>What a tunnel lives through: bytes copied either way, and ticks.\<close>

datatype tunnel_op = Copied bool nat | Tick bool

fun run_tunnel :: "tunnel_info \<Rightarrow> tunnel_op list \<Rightarrow> streamStats option \<Rightarrow> tunnelEvent list" where
  "run_tunnel t [] stats = [fst (close_event t stats)]"
| "run_tunnel t (Copied upload n # ops) stats = run_tunnel t ops (add_count upload n stats)"
| "run_tunnel t (Tick authorized # ops) stats =
     (case reportActiveTunnel_tick t authorized stats of (evs, closed, stats1) \<Rightarrow> evs @ run_tunnel t ops stats1)"

fun copied :: "bool \<Rightarrow> tunnel_op list \<Rightarrow> int" where
  "copied upload [] = 0"
| "copied upload (Copied up n # ops) = (if up = upload then int n else 0) + copied upload ops"
| "copied upload (Tick _ # ops) = copied upload ops"

lemma copied_nonneg: "0 \<le> copied upload ops"
  by (induction upload ops rule: copied.induct) auto

definition stats_range :: "streamStats \<Rightarrow> bool" where
  "stats_range s \<longleftrightarrow>
     0 \<le> st_reportedUpload s \<and> st_reportedUpload s \<le> st_upload s \<and> st_upload s < 2 ^ 63 \<and>
     0 \<le> st_reportedDownload s \<and> st_reportedDownload s \<le> st_download s \<and> st_download s < 2 ^ 63"

lemma deltaSinceLast_range:
  assumes "0 \<le> r" and "r \<le> c" and "c < 2 ^ 63"
  shows "deltaSinceLast c r = (c - r, c)"
proof -
  have "wrap64 (c - r) = c - r" using assms by (intro wrap64_id) (simp add: in64_def)
  then show ?thesis using assms by (auto simp: deltaSinceLast_def)
qed

lemma Delta_range:
  assumes "stats_range s"
  shows "Delta (Some s) = ((st_upload s - st_reportedUpload s, st_download s - st_reportedDownload s),
     Some (s\<lparr>st_reportedUpload := st_upload s, st_reportedDownload := st_download s\<rparr>))"
  using assms by (simp add: Delta_def stats_range_def deltaSinceLast_range)

lemma add_count_range:
  assumes "stats_range s"
    and "st_upload s + (if upload then int n else 0) < 2 ^ 63"
    and "st_download s + (if upload then 0 else int n) < 2 ^ 63"
  obtains s1 where "add_count upload n (Some s) = Some s1" "stats_range s1"
    "st_upload s1 = st_upload s + (if upload then int n else 0)"
    "st_download s1 = st_download s + (if upload then 0 else int n)"
    "st_reportedUpload s1 = st_reportedUpload s" "st_reportedDownload s1 = st_reportedDownload s"
proof -
  have w: "wrap64 (st_upload s + (if upload then int n else 0)) = st_upload s + (if upload then int n else 0)"
    "wrap64 (st_download s + (if upload then 0 else int n)) = st_download s + (if upload then 0 else int n)"
    using assms by (intro wrap64_id; auto simp: stats_range_def in64_def)+
  show thesis
  proof (cases "n = 0")
    case True
    with assms that show thesis by simp
  next
    case False
    show thesis
    proof (cases upload)
      case True
      show thesis
        by (rule that [of "s\<lparr>st_upload := st_upload s + int n\<rparr>"])
           (use True False assms w in \<open>simp_all add: add_count_def AddUpload_def stats_range_def\<close>)
    next
      case down: False
      show thesis
        by (rule that [of "s\<lparr>st_download := st_download s + int n\<rparr>"])
           (use down False assms w in \<open>simp_all add: add_count_def AddDownload_def stats_range_def\<close>)
    qed
  qed
qed

text \<open>The events tell every byte once.\<close>

lemma run_tunnel_total:
  assumes "stats_range s" and "st_upload s + copied True ops < 2 ^ 63"
    and "st_download s + copied False ops < 2 ^ 63"
  shows "sum_list (map ev_Upload (run_tunnel t ops (Some s))) = st_upload s - st_reportedUpload s + copied True ops \<and>
     sum_list (map ev_Download (run_tunnel t ops (Some s))) =
       st_download s - st_reportedDownload s + copied False ops \<and>
     (\<forall>e\<in>set (run_tunnel t ops (Some s)). 0 \<le> ev_Upload e \<and> 0 \<le> ev_Download e \<and> ev_User e = ti_user t \<and>
        ev_Type e \<in> {''traffic'', ''close''})"
  using assms
proof (induction ops arbitrary: s)
  case Nil
  then show ?case by (auto simp: close_event_def Delta_range stats_range_def)
next
  case (Cons op ops)
  show ?case
  proof (cases op)
    case (Copied upload n)
    then obtain s1 where s1: "add_count upload n (Some s) = Some s1" "stats_range s1"
      "st_upload s1 = st_upload s + (if upload then int n else 0)"
      "st_download s1 = st_download s + (if upload then 0 else int n)"
      "st_reportedUpload s1 = st_reportedUpload s" "st_reportedDownload s1 = st_reportedDownload s"
      using add_count_range [OF Cons.prems(1), of upload n] Cons.prems(2,3)
        copied_nonneg [of True ops] copied_nonneg [of False ops] by (auto split: if_splits)
    from Cons.IH [OF s1(2)] Cons.prems s1 show ?thesis
      by (cases upload) (simp_all add: Copied)
  next
    case (Tick authorized)
    let ?s1 = "s\<lparr>st_reportedUpload := st_upload s, st_reportedDownload := st_download s\<rparr>"
    have "stats_range ?s1" using Cons.prems(1) by (auto simp: stats_range_def)
    from Cons.IH [OF this] Cons.prems show ?thesis
      by (auto simp: Tick reportActiveTunnel_tick_def Delta_range stats_range_def)
  qed
qed


section \<open>At the engine\<close>

lemma run_events_pending:
  assumes "stats_ok (cs_stats s)" and "user \<noteq> []"
    and "\<forall>e\<in>set evs. 0 \<le> ev_Upload e \<and> 0 \<le> ev_Download e \<and> ev_User e = user \<and> ev_Type e \<in> {''traffic'', ''close''}"
    and "pending_up (cs_stats s) user + sum_list (map ev_Upload evs) < 2 ^ 63"
    and "pending_down (cs_stats s) user + sum_list (map ev_Download evs) < 2 ^ 63"
  shows "stats_ok (cs_stats (run_events evs s)) \<and>
     pending_up (cs_stats (run_events evs s)) user = pending_up (cs_stats s) user + sum_list (map ev_Upload evs) \<and>
     pending_down (cs_stats (run_events evs s)) user =
       pending_down (cs_stats s) user + sum_list (map ev_Download evs)"
  using assms
proof (induction evs arbitrary: s)
  case Nil
  then show ?case by (simp add: run_events_def)
next
  case (Cons e evs)
  have nn: "0 \<le> sum_list (map ev_Upload evs)" "0 \<le> sum_list (map ev_Download evs)"
    using Cons.prems(3) by (auto intro!: sum_list_nonneg)
  have e: "ev_User e = user" "0 \<le> ev_Upload e" "0 \<le> ev_Download e" "ev_Type e = ''traffic'' \<or> ev_Type e = ''close''"
    using Cons.prems(3) by auto
  let ?s1 = "snd (handleEvent e s)"
  have "stats_ok (cs_stats ?s1) \<and>
      pending_up (cs_stats ?s1) user = pending_up (cs_stats s) user + ev_Upload e \<and>
      pending_down (cs_stats ?s1) user = pending_down (cs_stats s) user + ev_Download e"
    using count_event_pending [OF Cons.prems(1), of e] Cons.prems(2,4,5) e nn
    by (simp add: handleEvent_stats)
  with Cons.IH [of ?s1] Cons.prems show ?case by (simp add: run_events_def)
qed

section \<open>Properties\<close>

text \<open>
  C29. The deltas of a tunnel tell every byte once: however the two loads and the
  compare-and-swap of concurrent calls interleave with the copying, the deltas handed out
  add up to the mark, the mark never passes the total, and a last call that nothing
  interferes with returns exactly what the others have left.
\<close>

theorem delta_exactly_once:
  assumes "delta_reachable s"
  shows "ds_given s = ds_reported s \<and> ds_reported s \<le> ds_total s \<and>
     fst (deltaSinceLast (ds_total s) (ds_reported s)) = ds_total s - ds_given s"
  using delta_reachable_ok [OF assms] deltaSinceLast_range [of "ds_reported s" "ds_total s"]
  by (simp add: delta_ok_def)

text \<open>Two callers race for the same 5 bytes: the second one swaps, the first tries again.\<close>

theorem delta_exactly_once_witness:
  "\<exists>s. delta_reachable s \<and> ds_total s = 5 \<and> ds_reported s = 5 \<and> ds_given s = 5 \<and>
     ds_pc s 0 = DeltaBoth 5 0"
proof -
  let ?state = "\<lambda>r pc0 pc1 g. \<lparr>ds_total = 5, ds_reported = r,
      ds_pc = (\<lambda>_. DeltaStart)(0 := pc0, 1 := pc1), ds_given = g\<rparr>"
  have w: "wrap64 5 = 5" by (simp add: wrap64_def)
  have 0: "delta_step delta_start (?state 0 DeltaStart DeltaStart 0)"
    using delta_add [of 5 delta_start] by (simp add: delta_start_def w fun_upd_def)
  have 1: "delta_step (?state 0 DeltaStart DeltaStart 0) (?state 0 (DeltaTotal 5) DeltaStart 0)"
    using delta_load_total [of "?state 0 DeltaStart DeltaStart 0" 0] by (simp add: fun_upd_twist)
  have 2: "delta_step (?state 0 (DeltaTotal 5) DeltaStart 0) (?state 0 (DeltaBoth 5 0) DeltaStart 0)"
    using delta_load_reported [of "?state 0 (DeltaTotal 5) DeltaStart 0" 0 5] by (simp add: fun_upd_twist)
  have 3: "delta_step (?state 0 (DeltaBoth 5 0) DeltaStart 0) (?state 0 (DeltaBoth 5 0) (DeltaTotal 5) 0)"
    using delta_load_total [of "?state 0 (DeltaBoth 5 0) DeltaStart 0" 1] by simp
  have 4: "delta_step (?state 0 (DeltaBoth 5 0) (DeltaTotal 5) 0) (?state 0 (DeltaBoth 5 0) (DeltaBoth 5 0) 0)"
    using delta_load_reported [of "?state 0 (DeltaBoth 5 0) (DeltaTotal 5) 0" 1 5] by simp
  have 5: "delta_step (?state 0 (DeltaBoth 5 0) (DeltaBoth 5 0) 0) (?state 5 (DeltaBoth 5 0) DeltaStart 5)"
    using delta_swap [of "?state 0 (DeltaBoth 5 0) (DeltaBoth 5 0) 0" 1 5 0] by (simp add: w)
  have r: "delta_reachable (?state 5 (DeltaBoth 5 0) DeltaStart 5)"
    by (rule delta_reachable.intros(2) [OF _ 5] delta_reachable.intros(2) [OF _ 4]
        delta_reachable.intros(2) [OF _ 3] delta_reachable.intros(2) [OF _ 2]
        delta_reachable.intros(2) [OF _ 1] delta_reachable.intros(2) [OF _ 0] delta_reachable.intros(1))+
  from delta_exactly_once [OF r] have "ds_given (?state 5 (DeltaBoth 5 0) DeltaStart 5) = 5" by simp
  with r show ?thesis by (intro exI [of _ "?state 5 (DeltaBoth 5 0) DeltaStart 5"]) simp
qed

text \<open>
  Every byte a tunnel copies reaches the user's bill: the events a tunnel emits, at
  whatever ticks and with the rest when it closes, raise the bytes pending for its user at
  the engine by exactly the bytes copied in each direction.
\<close>

lemma tunnel_bytes_billed:
  assumes "stats_ok (cs_stats s)" and "ti_user t \<noteq> []"
    and "pending_up (cs_stats s) (ti_user t) + copied True ops < 2 ^ 63"
    and "pending_down (cs_stats s) (ti_user t) + copied False ops < 2 ^ 63"
  shows "pending_up (cs_stats (run_events (tunnel_event ''open'' t 0 0 # run_tunnel t ops (Some new_stats)) s)) (ti_user t) =
       pending_up (cs_stats s) (ti_user t) + copied True ops \<and>
     pending_down (cs_stats (run_events (tunnel_event ''open'' t 0 0 # run_tunnel t ops (Some new_stats)) s)) (ti_user t) =
       pending_down (cs_stats s) (ti_user t) + copied False ops"
proof -
  let ?s1 = "snd (handleEvent (tunnel_event ''open'' t 0 0) s)"
  have st: "cs_stats ?s1 = cs_stats s" by (simp add: handleEvent_stats)
  have r: "stats_range new_stats" by (simp add: stats_range_def new_stats_def)
  have "copied True ops < 2 ^ 63" "copied False ops < 2 ^ 63"
    using assms(3,4) pending_nonneg [OF assms(1), of "ti_user t"] by auto
  then have "sum_list (map ev_Upload (run_tunnel t ops (Some new_stats))) = copied True ops \<and>
     sum_list (map ev_Download (run_tunnel t ops (Some new_stats))) = copied False ops \<and>
     (\<forall>e\<in>set (run_tunnel t ops (Some new_stats)). 0 \<le> ev_Upload e \<and> 0 \<le> ev_Download e \<and>
        ev_User e = ti_user t \<and> ev_Type e \<in> {''traffic'', ''close''})"
    using run_tunnel_total [OF r, of ops t] by (simp add: new_stats_def)
  then show ?thesis
    using run_events_pending [of ?s1 "ti_user t" "run_tunnel t ops (Some new_stats)"] assms st
    by (simp add: run_events_def)
qed

definition sample_tunnel :: tunnel_info where
  "sample_tunnel = \<lparr>ti_user = ''u'', ti_userID = 7, ti_ip = ''1'', ti_host = ''h:443'', ti_target = ''t:443''\<rparr>"

lemma tunnel_bytes_billed_example:
  "pending_up (cs_stats (run_events (tunnel_event ''open'' sample_tunnel 0 0 #
     run_tunnel sample_tunnel [Copied True 5, Tick True, Copied False 9, Copied True 2] (Some new_stats)) sample_engine)) ''u'' = 7"
proof -
  have present: "uuids_present [sample_user]"
    by (simp add: uuids_present_def sample_user_def)
  have ok: "stats_ok (cs_stats sample_engine)" "pending_up (cs_stats sample_engine) ''u'' = 0"
    "pending_down (cs_stats sample_engine) ''u'' = 0"
    using caddy_New_pending [OF present] by (simp_all add: sample_engine_def)
  from tunnel_bytes_billed [OF ok(1), of sample_tunnel "[Copied True 5, Tick True, Copied False 9, Copied True 2]"]
  show ?thesis by (simp add: ok sample_tunnel_def)
qed

end
