(* ===== verification/EventPipe.thy ===== *)
theory EventPipe
  imports Tunnels
begin

text \<open>
  The way of a tunnel event from the proxy process to the engine: printed with a prefix by
  \<^verbatim>\<open>emitV2naiveEvent\<close> (\<^verbatim>\<open>v2naive_event.go\<close>), carried by the process output, as a plain log line
  or inside a structured one, and found there by the engine's \<open>consumeOutput\<close>.
\<close>

definition v2naiveEventPrefix :: string where
  "v2naiveEventPrefix = ''V2NAIVE_EVENT ''"

text \<open>What is printed, if the event can be encoded.\<close>

definition emitV2naiveEvent :: "(tunnelEvent \<Rightarrow> string + string) \<Rightarrow> tunnelEvent \<Rightarrow> string option" where
  "emitV2naiveEvent marshal event =
     (case marshal event of Inl err \<Rightarrow> None | Inr body \<Rightarrow> Some (v2naiveEventPrefix @ body))"

text \<open>
  A line of output carrying a message: the message behind a time stamp, or as the message
  field of a JSON line.
\<close>

definition carries :: "(string \<Rightarrow> caddyLogLine option) \<Rightarrow> string \<Rightarrow> string \<Rightarrow> bool" where
  "carries decode_log line msg \<longleftrightarrow>
     (decode_log line = None \<and> (\<exists>stamp. line = stamp @ msg \<and> CHR ''V'' \<notin> set stamp)) \<or>
     (\<exists>c. decode_log line = Some c \<and> cl_Message c = msg \<and> (line = [] \<or> last line \<noteq> CHR 0x0D))"

text \<open>The encoder yields an object, in braces, that the decoder reads back.\<close>

definition event_json ::
  "(tunnelEvent \<Rightarrow> string + string) \<Rightarrow> (string \<Rightarrow> string + tunnelEvent) \<Rightarrow> tunnelEvent \<Rightarrow> bool" where
  "event_json marshal decode ev \<longleftrightarrow>
     (\<exists>mid. marshal ev = Inr (CHR ''{'' # mid @ ''}'') \<and> decode (CHR ''{'' # mid @ ''}'') = Inr ev)"

lemma spaces_no_braces:
  "\<forall>e\<in>set space_encodings. e \<noteq> [] \<and> hd e \<noteq> CHR ''{'' \<and> last e \<noteq> CHR ''}''"
  unfolding list_all_iff [symmetric] by code_simp

lemma trim_braces: "TrimSpace (CHR ''{'' # mid @ ''}'') = CHR ''{'' # mid @ ''}''"
proof -
  let ?s = "CHR ''{'' # mid @ ''}''"
  have "\<not> HasPrefix ?s e" if "e \<in> set space_encodings" for e
    using bspec [OF spaces_no_braces that] by (cases e) (auto simp: HasPrefix_iff)
  then have l: "leading_space ?s = 0" by (simp add: leading_space_def filter_empty_conv)
  have "\<not> HasSuffix ?s e" if "e \<in> set space_encodings" for e
  proof
    assume "HasSuffix ?s e"
    then obtain t where t: "?s = t @ e" by (auto simp: HasSuffix_iff)
    from bspec [OF spaces_no_braces that] have e: "e \<noteq> []" "last e \<noteq> CHR ''}''" by blast+
    have "last ?s = CHR ''}''" by simp
    then have "last (t @ e) = CHR ''}''" unfolding t .
    with e show False by simp
  qed
  then have r: "trailing_space ?s = 0" by (simp add: trailing_space_def filter_empty_conv)
  show ?thesis
    unfolding TrimSpace_def by (simp add: TrimLeftSpace.simps [of ?s] l TrimRightSpace.simps [of ?s] r)
qed

lemma Index_stamp:
  assumes "CHR ''V'' \<notin> set stamp"
  shows "Index (stamp @ eventPrefix @ body) eventPrefix = Some (length stamp)"
  using assms
proof (induction stamp)
  case Nil
  then show ?case by (simp add: eventPrefix_def HasPrefix_def)
next
  case (Cons c stamp)
  then have "\<not> HasPrefix (c # stamp @ eventPrefix @ body) eventPrefix"
    by (auto simp: HasPrefix_def eventPrefix_def)
  with Cons show ?case by simp
qed

lemma trimEventPrefix_found:
  assumes "CHR ''V'' \<notin> set stamp"
  shows "trimEventPrefix (stamp @ eventPrefix @ CHR ''{'' # mid @ ''}'') = Some (CHR ''{'' # mid @ ''}'')"
  unfolding trimEventPrefix_def Index_stamp [OF assms] using trim_braces [of mid] by simp

lemma prefixes_agree: "v2naiveEventPrefix = eventPrefix"
  by (simp add: v2naiveEventPrefix_def eventPrefix_def)

lemma carriage_return: "char_of (13 :: nat) = CHR 0x0D"
  by code_simp

lemma carried_event:
  assumes "event_json marshal decode ev" and "emitV2naiveEvent marshal ev = Some msg" and "carries decode_log line msg"
  shows "dropCR line = line \<and> consume_line decode_log decode stderr line s = handleEvent ev s"
proof -
  obtain mid where m: "marshal ev = Inr (CHR ''{'' # mid @ ''}'')" "decode (CHR ''{'' # mid @ ''}'') = Inr ev"
    using assms(1) by (auto simp: event_json_def)
  then have msg: "msg = eventPrefix @ CHR ''{'' # mid @ ''}''"
    using assms(2) by (simp add: emitV2naiveEvent_def prefixes_agree)
  have "dropCR line = line \<and> extractEventPayload decode_log line = Some (CHR ''{'' # mid @ ''}'')"
  proof (cases "decode_log line")
    case None
    then obtain stamp where l: "line = stamp @ msg" "CHR ''V'' \<notin> set stamp"
      using assms(3) by (auto simp: carries_def)
    have "last line = CHR ''}''" by (simp add: l msg)
    then have "dropCR line = line" by (simp add: dropCR_def carriage_return)
    moreover have "trimEventPrefix line = Some (CHR ''{'' # mid @ ''}'')"
      unfolding l(1) msg by (rule trimEventPrefix_found [OF l(2)])
    ultimately show ?thesis using None by (simp add: extractEventPayload_def)
  next
    case (Some c)
    then have "cl_Message c = msg" "line = [] \<or> last line \<noteq> CHR 0x0D"
      using assms(3) by (auto simp: carries_def)
    moreover have "trimEventPrefix msg = Some (CHR ''{'' # mid @ ''}'')"
      unfolding msg using trimEventPrefix_found [of "[]" mid] by simp
    ultimately show ?thesis using Some by (auto simp: extractEventPayload_def dropCR_def carriage_return)
  qed
  with m(2) show ?thesis by (simp add: consume_line_def handleEventLine_def)
qed

lemma carried_events:
  assumes "list_all2 (\<lambda>line ev. event_json marshal decode ev \<and> length line < 1048576 \<and>
       (\<exists>msg. emitV2naiveEvent marshal ev = Some msg \<and> carries decode_log line msg)) lines evs"
  shows "snd (consumeOutput decode_log decode stderr lines s) = run_events evs s"
  using assms
proof (induction arbitrary: s rule: list_all2_induct)
  case Nil
  then show ?case by (simp add: run_events_def)
next
  case (Cons line lines ev evs)
  then obtain msg where c: "event_json marshal decode ev" "emitV2naiveEvent marshal ev = Some msg"
    "carries decode_log line msg" and len: "length line < 1048576" by blast
  from carried_event [OF c, of stderr s] Cons.IH len show ?case
    by (simp add: run_events_def case_prod_unfold Let_def)
qed

section \<open>Properties\<close>

text \<open>
  C4. Every byte a tunnel copies reaches the user's bill, from one process to the other: when
  the events a tunnel emits, at whatever ticks and with the rest when it closes, are carried
  by the proxy's output, in plain or in structured lines, the engine that reads this output
  has raised the bytes pending for the tunnel's user by exactly the bytes copied in each
  direction.
\<close>

theorem tunnel_billed_through_pipe:
  assumes "stats_ok (cs_stats s)" and "ti_user t \<noteq> []"
    and "pending_up (cs_stats s) (ti_user t) + copied True ops < 2 ^ 63"
    and "pending_down (cs_stats s) (ti_user t) + copied False ops < 2 ^ 63"
    and "list_all2 (\<lambda>line ev. event_json marshal decode ev \<and> length line < 1048576 \<and>
       (\<exists>msg. emitV2naiveEvent marshal ev = Some msg \<and> carries decode_log line msg))
       lines (tunnel_event ''open'' t 0 0 # run_tunnel t ops (Some new_stats))"
    and "s1 = snd (consumeOutput decode_log decode stderr lines s)"
  shows "pending_up (cs_stats s1) (ti_user t) = pending_up (cs_stats s) (ti_user t) + copied True ops \<and>
     pending_down (cs_stats s1) (ti_user t) = pending_down (cs_stats s) (ti_user t) + copied False ops"
  unfolding assms(6) carried_events [OF assms(5)] by (rule tunnel_bytes_billed [OF assms(1-4)])

text \<open>An encoding of the events of one tunnel: the type, the two counts, in decimal.\<close>

definition sample_marshal :: "tunnelEvent \<Rightarrow> string + string" where
  "sample_marshal ev = Inr (CHR ''{'' # (if ev_Type ev = ''open'' then ''o'' else if ev_Upload ev = 5 then ''t'' else ''c'') @ ''}'')"

definition sample_decode :: "string \<Rightarrow> string + tunnelEvent" where
  "sample_decode body =
     (if body = ''{o}'' then Inr (tunnel_event ''open'' sample_tunnel 0 0)
      else if body = ''{t}'' then Inr (tunnel_event ''traffic'' sample_tunnel 5 0)
      else if body = ''{c}'' then Inr (tunnel_event ''close'' sample_tunnel 2 9)
      else Inl ''invalid'')"

theorem tunnel_billed_through_pipe_witness:
  "pending_up (cs_stats (snd (consumeOutput (\<lambda>_. None) sample_decode True
     [''12:00 V2NAIVE_EVENT {o}'', ''12:01 V2NAIVE_EVENT {t}'', ''12:02 V2NAIVE_EVENT {c}''] sample_engine))) ''u'' = 7"
proof -
  let ?ops = "[Copied True 5, Tick True, Copied False 9, Copied True 2]"
  let ?lines = "[''12:00 V2NAIVE_EVENT {o}'', ''12:01 V2NAIVE_EVENT {t}'', ''12:02 V2NAIVE_EVENT {c}'']"
  have present: "uuids_present [sample_user]"
    by (simp add: uuids_present_def sample_user_def)
  have ok: "stats_ok (cs_stats sample_engine)" "pending_up (cs_stats sample_engine) ''u'' = 0"
    "pending_down (cs_stats sample_engine) ''u'' = 0"
    using caddy_New_pending [OF present] by (simp_all add: sample_engine_def)
  have evs: "tunnel_event ''open'' sample_tunnel 0 0 # run_tunnel sample_tunnel ?ops (Some new_stats) =
     [tunnel_event ''open'' sample_tunnel 0 0, tunnel_event ''traffic'' sample_tunnel 5 0,
      tunnel_event ''close'' sample_tunnel 2 9]"
    by code_simp
  have c: "carries (\<lambda>_. None) (stamp @ msg) msg" if "CHR ''V'' \<notin> set stamp" for stamp msg
    using that by (auto simp: carries_def)
  have lines: "list_all2 (\<lambda>line ev. event_json sample_marshal sample_decode ev \<and> length line < 1048576 \<and>
       (\<exists>msg. emitV2naiveEvent sample_marshal ev = Some msg \<and> carries (\<lambda>_. None) line msg))
       ?lines (tunnel_event ''open'' sample_tunnel 0 0 # run_tunnel sample_tunnel ?ops (Some new_stats))"
    unfolding evs
    using c [of "''12:00 ''" "''V2NAIVE_EVENT {o}''"] c [of "''12:01 ''" "''V2NAIVE_EVENT {t}''"]
      c [of "''12:02 ''" "''V2NAIVE_EVENT {c}''"]
    by (simp add: event_json_def sample_marshal_def sample_decode_def emitV2naiveEvent_def v2naiveEventPrefix_def
        tunnel_event_def)
  have u: "ti_user sample_tunnel = ''u''" by (simp add: sample_tunnel_def)
  have "ti_user sample_tunnel \<noteq> []" "pending_up (cs_stats sample_engine) (ti_user sample_tunnel) + copied True ?ops < 2 ^ 63"
    "pending_down (cs_stats sample_engine) (ti_user sample_tunnel) + copied False ?ops < 2 ^ 63"
    by (simp_all add: u ok)
  from tunnel_billed_through_pipe [OF ok(1) this lines refl, of True] show ?thesis by (simp add: u ok)
qed

end
