(* ===== verification/NodeSystem.thy ===== *)
theory NodeSystem
  imports Tunnels
begin

text \<open>
  The Caddy engine's node as a whole: the tunnels of the proxy process with their byte
  counters (\<^verbatim>\<open>runtime/forwardproxy\<close>), the events they have printed and the engine has
  not read yet, the engine (\<^verbatim>\<open>internal/caddyproc\<close>), and the report cycle of the controller
  (\<^verbatim>\<open>main.go\<close>).  Any number of tunnels of any users run at once, and every step may
  come at any time.
\<close>

section \<open>The state\<close>

text \<open>
  \<open>ns_copied\<close> (per direction and user), \<open>ns_cut\<close> (users whose table entries an update has
  removed) and \<open>ns_read\<close> (how many events were read) only observe.
\<close>

record node_system =
  ns_ledger :: "CaddyServer ledger"
  ns_tunnels :: "(tunnel_info \<times> streamStats) list"
  ns_pipe :: "tunnelEvent list"
  ns_copied :: "bool \<Rightarrow> string \<Rightarrow> int"
  ns_cut :: "string set"
  ns_read :: nat

definition system_start :: "CaddyServer \<Rightarrow> node_system" where
  "system_start s0 =
     \<lparr>ns_ledger = \<lparr>engine = s0, in_flight = None, moved_up = (\<lambda>_. 0), moved_down = (\<lambda>_. 0),
        billed_up = (\<lambda>_. 0), billed_down = (\<lambda>_. 0)\<rparr>,
      ns_tunnels = [], ns_pipe = [], ns_copied = (\<lambda>_ _. 0), ns_cut = {}, ns_read = 0\<rparr>"

definition add_copied :: "bool \<Rightarrow> string \<Rightarrow> nat \<Rightarrow> (bool \<Rightarrow> string \<Rightarrow> int) \<Rightarrow> (bool \<Rightarrow> string \<Rightarrow> int)" where
  "add_copied upload user k c = c(upload := (c upload)(user := c upload user + int k))"

text \<open>The users whose open tunnels an update takes from the table.\<close>

definition cut_users :: "UserInfo list \<Rightarrow> UserInfo list option \<Rightarrow> CaddyServer \<Rightarrow> string set" where
  "cut_users deleted full s =
     {u. (case full of Some users \<Rightarrow> u \<notin> ui_Uuid ` set users | None \<Rightarrow> u \<in> ui_Uuid ` set deleted) \<and>
         (\<exists>ip. 0 < abs_tunnels s u ip)}"

definition with_engine :: "CaddyServer \<Rightarrow> node_system \<Rightarrow> node_system" where
  "with_engine s n = n\<lparr>ns_ledger := (ns_ledger n)\<lparr>engine := s\<rparr>\<rparr>"

abbreviation ns_engine :: "node_system \<Rightarrow> CaddyServer" where
  "ns_engine n \<equiv> engine (ns_ledger n)"

section \<open>The steps\<close>

inductive system_step :: "node_system \<Rightarrow> node_system \<Rightarrow> bool" where
  sys_open:
    "ti_user t \<noteq> [] \<Longrightarrow>
     system_step n (n\<lparr>ns_tunnels := ns_tunnels n @ [(t, new_stats)],
                     ns_pipe := ns_pipe n @ [tunnel_event ''open'' t 0 0]\<rparr>)"
| sys_copy:
    "i < length (ns_tunnels n) \<Longrightarrow> ns_tunnels n ! i = (t, s) \<Longrightarrow>
     st_upload s + int k < 2 ^ 63 \<Longrightarrow> st_download s + int k < 2 ^ 63 \<Longrightarrow>
     add_count upload k (Some s) = Some s1 \<Longrightarrow>
     system_step n (n\<lparr>ns_tunnels := (ns_tunnels n)[i := (t, s1)],
                     ns_copied := add_copied upload (ti_user t) k (ns_copied n)\<rparr>)"
| sys_tick:
    "i < length (ns_tunnels n) \<Longrightarrow> ns_tunnels n ! i = (t, s) \<Longrightarrow>
     reportActiveTunnel_tick t authorized (Some s) = (evs, closed, Some s1) \<Longrightarrow>
     system_step n (n\<lparr>ns_tunnels := (ns_tunnels n)[i := (t, s1)], ns_pipe := ns_pipe n @ evs\<rparr>)"
| sys_close:
    "i < length (ns_tunnels n) \<Longrightarrow> ns_tunnels n ! i = (t, s) \<Longrightarrow>
     close_event t (Some s) = (ev, stats) \<Longrightarrow>
     system_step n (n\<lparr>ns_tunnels := take i (ns_tunnels n) @ drop (Suc i) (ns_tunnels n),
                     ns_pipe := ns_pipe n @ [ev]\<rparr>)"
| sys_read:
    "ns_pipe n = ev # rest \<Longrightarrow>
     pending_up (cs_stats (ns_engine n)) (ev_User ev) + ev_Upload ev < 2 ^ 63 \<Longrightarrow>
     pending_down (cs_stats (ns_engine n)) (ev_User ev) + ev_Download ev < 2 ^ 63 \<Longrightarrow>
     system_step n (n\<lparr>ns_ledger := (ns_ledger n)\<lparr>engine := snd (handleEvent ev (ns_engine n)),
         moved_up := (moved_up (ns_ledger n))(ev_User ev := moved_up (ns_ledger n) (ev_User ev) + ev_Upload ev),
         moved_down := (moved_down (ns_ledger n))(ev_User ev := moved_down (ns_ledger n) (ev_User ev) + ev_Download ev)\<rparr>,
       ns_pipe := rest, ns_read := Suc (ns_read n)\<rparr>)"
| sys_update:
    "uuids_present (case full of Some users \<Rightarrow> users | None \<Rightarrow> added @ modified) \<Longrightarrow>
     system_step n ((with_engine (caddy_UpdateUsers added deleted modified full (ns_engine n)) n)
       \<lparr>ns_cut := ns_cut n \<union> cut_users deleted full (ns_engine n)\<rparr>)"
| sys_alive: "system_step n (with_engine (caddy_SetAliveList alive (ns_engine n)) n)"
| sys_authorize:
    "system_step n (with_engine (snd (snd (handleAuthorize decode httpMethod body (ns_engine n)))) n)"
| sys_release: "system_step n (with_engine (snd (handleRelease decode httpMethod body (ns_engine n))) n)"
| sys_report:
    "in_flight (ns_ledger n) = None \<Longrightarrow> range_order (cs_stats (ns_engine n)) ks \<Longrightarrow>
     system_step n (n\<lparr>ns_ledger := (ns_ledger n)\<lparr>in_flight := Some (caddy_GetUserTrafficSlice ks m (ns_engine n))\<rparr>\<rparr>)"
| sys_accepted:
    "in_flight (ns_ledger n) = Some rep \<Longrightarrow> range_order (cs_stats (ns_engine n)) ks \<Longrightarrow>
     system_step n (n\<lparr>ns_ledger := (ns_ledger n)\<lparr>engine := caddy_ConfirmUserTraffic rep (ns_engine n),
       in_flight := None,
       billed_up := (\<lambda>uuid. billed_up (ns_ledger n) uuid + reported_up rep uuid),
       billed_down := (\<lambda>uuid. billed_down (ns_ledger n) uuid + reported_down rep uuid)\<rparr>\<rparr>)"
| sys_failed:
    "in_flight (ns_ledger n) = Some rep \<Longrightarrow>
     system_step n (n\<lparr>ns_ledger := (ns_ledger n)\<lparr>in_flight := None\<rparr>\<rparr>)"

inductive system_reachable :: "CaddyServer \<Rightarrow> node_system \<Rightarrow> bool" for s0 where
  system_new: "system_reachable s0 (system_start s0)"
| system_next: "system_reachable s0 n \<Longrightarrow> system_step n n1 \<Longrightarrow> system_reachable s0 n1"

section \<open>Bytes on their way\<close>

definition ev_bytes :: "bool \<Rightarrow> tunnelEvent \<Rightarrow> int" where
  "ev_bytes upload e = (if upload then ev_Upload e else ev_Download e)"

definition in_pipe :: "bool \<Rightarrow> string \<Rightarrow> tunnelEvent list \<Rightarrow> int" where
  "in_pipe upload user evs = sum_list (map (\<lambda>e. if ev_User e = user then ev_bytes upload e else 0) evs)"

definition unreported_of :: "bool \<Rightarrow> string \<Rightarrow> tunnel_info \<times> streamStats \<Rightarrow> int" where
  "unreported_of upload user ts =
     (if ti_user (fst ts) \<noteq> user then 0
      else if upload then st_upload (snd ts) - st_reportedUpload (snd ts)
      else st_download (snd ts) - st_reportedDownload (snd ts))"

definition unreported :: "bool \<Rightarrow> string \<Rightarrow> (tunnel_info \<times> streamStats) list \<Rightarrow> int" where
  "unreported upload user xs = sum_list (map (unreported_of upload user) xs)"

definition moved :: "bool \<Rightarrow> CaddyServer ledger \<Rightarrow> string \<Rightarrow> int" where
  "moved upload l = (if upload then moved_up l else moved_down l)"

definition bytes_ok :: "CaddyServer \<Rightarrow> node_system \<Rightarrow> bool" where
  "bytes_ok s0 n \<longleftrightarrow>
     ledger_reachable caddy_ops s0 (ns_ledger n) \<and>
     (\<forall>(t, s)\<in>set (ns_tunnels n). ti_user t \<noteq> [] \<and> stats_range s) \<and>
     (\<forall>e\<in>set (ns_pipe n). ev_User e \<noteq> [] \<and> 0 \<le> ev_Upload e \<and> 0 \<le> ev_Download e \<and>
        (ev_Type e = ''open'' \<and> ev_Upload e = 0 \<and> ev_Download e = 0 \<or> ev_Type e \<in> {''traffic'', ''close''})) \<and>
     (\<forall>upload user. ns_copied n upload user =
        moved upload (ns_ledger n) user + in_pipe upload user (ns_pipe n) + unreported upload user (ns_tunnels n))"

lemma in_pipe_simps [simp]:
  "in_pipe upload user [] = 0"
  "in_pipe upload user (e # evs) = (if ev_User e = user then ev_bytes upload e else 0) + in_pipe upload user evs"
  "in_pipe upload user (evs @ evs') = in_pipe upload user evs + in_pipe upload user evs'"
  by (simp_all add: in_pipe_def)

lemma unreported_simps [simp]:
  "unreported upload user [] = 0"
  "unreported upload user (ts # xs) = unreported_of upload user ts + unreported upload user xs"
  "unreported upload user (xs @ xs') = unreported upload user xs + unreported upload user xs'"
  by (simp_all add: unreported_def)

lemma unreported_split:
  assumes "i < length xs"
  shows "unreported upload user xs =
     unreported upload user (take i xs) + unreported_of upload user (xs ! i) +
     unreported upload user (drop (Suc i) xs)"
  using arg_cong [OF id_take_nth_drop [OF assms], of "unreported upload user"] by simp

lemma unreported_update:
  assumes "i < length xs"
  shows "unreported upload user (xs[i := ts]) =
     unreported upload user xs - unreported_of upload user (xs ! i) + unreported_of upload user ts"
  using unreported_split [OF assms, of upload user] assms by (simp add: upd_conv_take_nth_drop)

section \<open>The bytes stay accounted for\<close>

lemma bytes_okD:
  assumes "bytes_ok s0 n"
  shows "ledger_reachable caddy_ops s0 (ns_ledger n)"
    and "i < length (ns_tunnels n) \<Longrightarrow> ns_tunnels n ! i = (t, s) \<Longrightarrow> ti_user t \<noteq> [] \<and> stats_range s"
    and "e \<in> set (ns_pipe n) \<Longrightarrow> ev_User e \<noteq> [] \<and> 0 \<le> ev_Upload e \<and> 0 \<le> ev_Download e"
    and "ns_copied n upload user =
      moved upload (ns_ledger n) user + in_pipe upload user (ns_pipe n) + unreported upload user (ns_tunnels n)"
  using assms nth_mem [of i "ns_tunnels n"] by (auto simp: bytes_ok_def)

text \<open>Steps that leave tunnels and pipe alone and are steps of the ledger that move no bytes.\<close>

lemma bytes_ok_ledger:
  assumes "bytes_ok s0 n" and "ledger_step caddy_ops (ns_ledger n) l1"
    and "moved_up l1 = moved_up (ns_ledger n)" and "moved_down l1 = moved_down (ns_ledger n)"
  shows "bytes_ok s0 (n\<lparr>ns_ledger := l1\<rparr>)"
  using assms ledger_next [OF bytes_okD(1) [OF assms(1)] assms(2)] by (simp add: bytes_ok_def moved_def)

lemma bytes_ok_internal:
  assumes "bytes_ok s0 n" and "caddy_internal (ns_engine n) s"
  shows "bytes_ok s0 (with_engine s n)"
  unfolding with_engine_def
  by (rule bytes_ok_ledger [OF assms(1) ledger_internal]) (simp_all add: assms(2))

lemma bytes_ok_cut: "bytes_ok s0 (n\<lparr>ns_cut := c\<rparr>) = bytes_ok s0 n"
  by (simp add: bytes_ok_def)

lemma bytes_ok_open:
  assumes "bytes_ok s0 n" and "ti_user t \<noteq> []"
  shows "bytes_ok s0 (n\<lparr>ns_tunnels := ns_tunnels n @ [(t, new_stats)],
    ns_pipe := ns_pipe n @ [tunnel_event ''open'' t 0 0]\<rparr>)"
  using assms
  by (auto simp: bytes_ok_def ev_bytes_def unreported_of_def new_stats_def stats_range_def)

text \<open>A tunnel that counts more, or reports what it has.\<close>

lemma tunnels_update_ok:
  assumes "\<forall>(t, s)\<in>set xs. ti_user t \<noteq> [] \<and> stats_range s" and "ti_user t \<noteq> []" and "stats_range s"
  shows "\<forall>(t, s)\<in>set (xs[i := (t, s)]). ti_user t \<noteq> [] \<and> stats_range s"
  using assms set_update_subset_insert [of xs i "(t, s)"] by fastforce

lemma bytes_ok_copy:
  assumes "bytes_ok s0 n" and "i < length (ns_tunnels n)" and "ns_tunnels n ! i = (t, s)"
    and "st_upload s + int k < 2 ^ 63" and "st_download s + int k < 2 ^ 63"
    and "add_count upload k (Some s) = Some s1"
  shows "bytes_ok s0 (n\<lparr>ns_tunnels := (ns_tunnels n)[i := (t, s1)],
    ns_copied := add_copied upload (ti_user t) k (ns_copied n)\<rparr>)"
proof -
  have t: "ti_user t \<noteq> []" "stats_range s" using bytes_okD(2) [OF assms(1-3)] by simp_all
  have "st_upload s + (if upload then int k else 0) < 2 ^ 63" "st_download s + (if upload then 0 else int k) < 2 ^ 63"
    using assms(4,5) t(2) by (auto simp: stats_range_def)
  then obtain s' where "add_count upload k (Some s) = Some s'" "stats_range s'"
    "st_upload s' = st_upload s + (if upload then int k else 0)"
    "st_download s' = st_download s + (if upload then 0 else int k)"
    "st_reportedUpload s' = st_reportedUpload s" "st_reportedDownload s' = st_reportedDownload s"
    by (rule add_count_range [OF t(2)])
  with assms(6) have s1: "stats_range s1"
    "st_upload s1 = st_upload s + (if upload then int k else 0)"
    "st_download s1 = st_download s + (if upload then 0 else int k)"
    "st_reportedUpload s1 = st_reportedUpload s" "st_reportedDownload s1 = st_reportedDownload s" by simp_all
  have "unreported up user ((ns_tunnels n)[i := (t, s1)]) =
      unreported up user (ns_tunnels n) + (if up = upload \<and> user = ti_user t then int k else 0)" for up user
    by (cases up; cases upload) (auto simp: unreported_update [OF assms(2)] assms(3) unreported_of_def s1)
  moreover have "add_copied upload (ti_user t) k (ns_copied n) up user =
      ns_copied n up user + (if up = upload \<and> user = ti_user t then int k else 0)" for up user
    by (simp add: add_copied_def)
  ultimately show ?thesis
    using assms(1) tunnels_update_ok [of "ns_tunnels n" t s1 i] t(1) s1(1) by (simp add: bytes_ok_def)
qed

lemma bytes_ok_tick:
  assumes "bytes_ok s0 n" and "i < length (ns_tunnels n)" and "ns_tunnels n ! i = (t, s)"
    and "reportActiveTunnel_tick t authorized (Some s) = (evs, closed, Some s1)"
  shows "bytes_ok s0 (n\<lparr>ns_tunnels := (ns_tunnels n)[i := (t, s1)], ns_pipe := ns_pipe n @ evs\<rparr>)"
proof -
  have t: "ti_user t \<noteq> []" "stats_range s" using bytes_okD(2) [OF assms(1-3)] by simp_all
  let ?up = "st_upload s - st_reportedUpload s" and ?down = "st_download s - st_reportedDownload s"
  have s1: "s1 = s\<lparr>st_reportedUpload := st_upload s, st_reportedDownload := st_download s\<rparr>"
    and evs: "evs = (if ?up > 0 \<or> ?down > 0 then [tunnel_event ''traffic'' t ?up ?down] else [])"
    using assms(4) by (auto simp: reportActiveTunnel_tick_def Delta_range [OF t(2)])
  have r: "0 \<le> ?up" "0 \<le> ?down" "stats_range s1" using t(2) by (auto simp: stats_range_def s1)
  have "in_pipe upload user evs = (if user = ti_user t then if upload then ?up else ?down else 0)" for upload user
    using r by (auto simp: evs ev_bytes_def)
  moreover have "unreported upload user ((ns_tunnels n)[i := (t, s1)]) =
      unreported upload user (ns_tunnels n) - (if user = ti_user t then if upload then ?up else ?down else 0)" for upload user
    by (auto simp: unreported_update [OF assms(2)] assms(3) unreported_of_def s1)
  moreover have "\<forall>e\<in>set evs. ev_User e \<noteq> [] \<and> 0 \<le> ev_Upload e \<and> 0 \<le> ev_Download e \<and> ev_Type e = ''traffic''"
    using r t by (simp add: evs)
  ultimately show ?thesis
    using assms(1) tunnels_update_ok [of "ns_tunnels n" t s1 i] t(1) r(3) by (auto simp: bytes_ok_def)
qed

lemma bytes_ok_close:
  assumes "bytes_ok s0 n" and "i < length (ns_tunnels n)" and "ns_tunnels n ! i = (t, s)"
    and "close_event t (Some s) = (ev, stats)"
  shows "bytes_ok s0 (n\<lparr>ns_tunnels := take i (ns_tunnels n) @ drop (Suc i) (ns_tunnels n),
    ns_pipe := ns_pipe n @ [ev]\<rparr>)"
proof -
  have t: "ti_user t \<noteq> []" "stats_range s" using bytes_okD(2) [OF assms(1-3)] by simp_all
  have ev: "ev = tunnel_event ''close'' t (st_upload s - st_reportedUpload s) (st_download s - st_reportedDownload s)"
    using assms(4) by (simp add: close_event_def Delta_range [OF t(2)])
  have "in_pipe upload user [ev] = unreported_of upload user (t, s)" for upload user
    by (simp add: ev ev_bytes_def unreported_of_def)
  moreover have "unreported upload user (ns_tunnels n) =
      unreported upload user (take i (ns_tunnels n)) + unreported_of upload user (t, s) +
      unreported upload user (drop (Suc i) (ns_tunnels n))" for upload user
    using unreported_split [OF assms(2)] assms(3) by simp
  moreover have "ev_User ev \<noteq> [] \<and> 0 \<le> ev_Upload ev \<and> 0 \<le> ev_Download ev \<and> ev_Type ev = ''close''"
    using t by (simp add: ev stats_range_def)
  ultimately show ?thesis
    using assms(1) by (auto simp: bytes_ok_def dest: in_set_takeD in_set_dropD simp del: in_pipe_simps(2))
qed

lemma bytes_ok_read:
  assumes "bytes_ok s0 n" and "ns_pipe n = ev # rest"
    and "pending_up (cs_stats (ns_engine n)) (ev_User ev) + ev_Upload ev < 2 ^ 63"
    and "pending_down (cs_stats (ns_engine n)) (ev_User ev) + ev_Download ev < 2 ^ 63"
  shows "bytes_ok s0 (n\<lparr>ns_ledger := (ns_ledger n)\<lparr>engine := snd (handleEvent ev (ns_engine n)),
      moved_up := (moved_up (ns_ledger n))(ev_User ev := moved_up (ns_ledger n) (ev_User ev) + ev_Upload ev),
      moved_down := (moved_down (ns_ledger n))(ev_User ev := moved_down (ns_ledger n) (ev_User ev) + ev_Download ev)\<rparr>,
    ns_pipe := rest, ns_read := Suc (ns_read n)\<rparr>)" (is "bytes_ok s0 (n\<lparr>ns_ledger := ?l1, ns_pipe := _, ns_read := _\<rparr>)")
proof -
  have ev: "ev_User ev \<noteq> []" "0 \<le> ev_Upload ev" "0 \<le> ev_Download ev"
    "ev_Type ev = ''open'' \<and> ev_Upload ev = 0 \<and> ev_Download ev = 0 \<or> ev_Type ev \<in> {''traffic'', ''close''}"
    using assms(1,2) by (auto simp: bytes_ok_def)
  have "ledger_step caddy_ops (ns_ledger n) ?l1"
  proof (cases "ev_Type ev = ''open''")
    case True
    with ev(4) have zero: "ev_Upload ev = 0" "ev_Download ev = 0" by auto
    have "caddy_internal (ns_engine n) (snd (handleEvent ev (ns_engine n)))"
      by (rule caddy_other_event) (simp_all add: True)
    then have "ledger_step caddy_ops (ns_ledger n)
        ((ns_ledger n)\<lparr>engine := snd (handleEvent ev (ns_engine n))\<rparr>)"
      by (intro ledger_internal) simp
    then show ?thesis by (simp add: zero)
  next
    case False
    with ev(4) have "caddy_traffic (ev_User ev) (ev_Upload ev) (ev_Download ev) (ns_engine n)
        (snd (handleEvent ev (ns_engine n)))"
      by (intro caddy_traffic.intros) auto
    then show ?thesis using ev(1-3) assms(3,4) by (intro ledger_traffic) simp_all
  qed
  then have "ledger_reachable caddy_ops s0 ?l1" by (rule ledger_next [OF bytes_okD(1) [OF assms(1)]])
  moreover have "moved upload ?l1 user + in_pipe upload user rest =
      moved upload (ns_ledger n) user + in_pipe upload user (ns_pipe n)" for upload user
    by (simp add: moved_def assms(2) ev_bytes_def)
  ultimately show ?thesis using assms(1,2) by (simp add: bytes_ok_def)
qed

lemma system_step_bytes:
  assumes "system_step n n1" and "bytes_ok s0 n"
  shows "bytes_ok s0 n1"
  using assms(1)
proof (cases rule: system_step.cases)
  case (sys_update full added modified deleted)
  then show ?thesis
    using bytes_ok_internal [OF assms(2) caddy_update [OF sys_update(2)]] by (simp add: bytes_ok_cut)
next
  case (sys_report ks m)
  show ?thesis unfolding sys_report(1)
    by (rule bytes_ok_ledger [OF assms(2)], rule ledger_report [of _ caddy_ops ks m, simplified])
       (simp_all add: sys_report)
next
  case (sys_accepted rep ks)
  show ?thesis unfolding sys_accepted(1)
    by (rule bytes_ok_ledger [OF assms(2)], rule ledger_accepted [of _ rep caddy_ops ks, simplified])
       (simp_all add: sys_accepted)
next
  case (sys_failed rep)
  show ?thesis unfolding sys_failed(1)
    by (rule bytes_ok_ledger [OF assms(2) ledger_failed]) (simp_all add: sys_failed)
qed (use assms(2) in \<open>auto intro: bytes_ok_open bytes_ok_copy bytes_ok_tick bytes_ok_close bytes_ok_read
      bytes_ok_internal caddy_internal.intros\<close>)

lemma system_bytes: "system_reachable s0 n \<Longrightarrow> bytes_ok s0 n"
proof (induction rule: system_reachable.induct)
  case system_new
  show ?case by (simp add: bytes_ok_def system_start_def ledger_start moved_def)
next
  case (system_next n n1)
  then show ?case by (blast intro: system_step_bytes)
qed

section \<open>The table of open tunnels\<close>

definition open_count :: "(tunnel_info \<times> streamStats) list \<Rightarrow> string \<Rightarrow> string \<Rightarrow> nat" where
  "open_count xs user ip = length (filter (\<lambda>t. ti_user t = user \<and> ti_ip t = ip) (map fst xs))"

definition table_ok :: "node_system \<Rightarrow> bool" where
  "table_ok n \<longleftrightarrow>
     (ns_read n < 2 ^ 62 \<longrightarrow>
        online_counts_ok (ns_engine n) \<and> counts_below (int (ns_read n) + 1) (ns_engine n) \<and>
        (\<forall>user ip. user \<notin> ns_cut n \<longrightarrow>
           fold spec_event (ns_pipe n) (abs_tunnels (ns_engine n)) user ip = open_count (ns_tunnels n) user ip))"

lemma spec_event_point: "c user ip = d user ip \<Longrightarrow> spec_event ev c user ip = spec_event ev d user ip"
  by (auto simp: spec_event_def)

lemma fold_spec_point:
  "c user ip = d user ip \<Longrightarrow> fold spec_event evs c user ip = fold spec_event evs d user ip"
proof (induction evs arbitrary: c d)
  case (Cons ev evs)
  have "spec_event ev c user ip = spec_event ev d user ip" by (rule spec_event_point) (rule Cons.prems)
  with Cons.IH [of "spec_event ev c" "spec_event ev d"] show ?case by simp
qed simp

lemma open_count_simps [simp]:
  "open_count [] user ip = 0"
  "open_count ((t, s) # xs) user ip = (if ti_user t = user \<and> ti_ip t = ip then 1 else 0) + open_count xs user ip"
  "open_count (xs @ ys) user ip = open_count xs user ip + open_count ys user ip"
  by (simp_all add: open_count_def)

lemma open_count_update:
  assumes "xs ! i = (t, s)"
  shows "open_count (xs[i := (t, s1)]) = open_count xs"
proof -
  have "map fst (xs[i := (t, s1)]) = map fst xs"
    using assms by (cases "i < length xs") (simp_all add: map_update list_update_same_conv list_update_beyond)
  then show ?thesis unfolding open_count_def [abs_def] by (simp only:)
qed

lemma open_count_remove:
  assumes "i < length xs" and "xs ! i = (t, s)"
  shows "open_count xs user ip =
     open_count (take i xs @ drop (Suc i) xs) user ip + (if ti_user t = user \<and> ti_ip t = ip then 1 else 0)"
proof -
  have "open_count xs user ip = open_count (take i xs @ [(t, s)] @ drop (Suc i) xs) user ip"
    using id_take_nth_drop [OF assms(1)] assms(2) by simp
  then show ?thesis by simp
qed

text \<open>Operations of the engine that leave the table alone, or drop users from it.\<close>

lemma handleAuthorize_online [simp]:
  "cs_online (snd (snd (handleAuthorize decode httpMethod body s))) = cs_online s"
  by (auto simp: handleAuthorize_def Let_def split: option.split prod.split)

lemma handleRelease_online [simp]: "cs_online (snd (handleRelease decode httpMethod body s)) = cs_online s"
  by (auto simp: handleRelease_def split: option.split)

lemma other_online [simp]:
  "cs_online (caddy_SetAliveList alive s) = cs_online s"
  "cs_online (caddy_ConfirmUserTraffic rep s) = cs_online s"
  by (simp_all add: caddy_SetAliveList_def caddy_ConfirmUserTraffic_def split: prod.split)

lemma update_online:
  "cs_online (caddy_UpdateUsers added deleted modified full s) user \<in> {None, cs_online s user}"
proof (cases full)
  case (Some users)
  then show ?thesis
    by (cases "cs_online s user") (auto simp: caddy_UpdateUsers_def Let_def replaceUsers_def range_update_def)
next
  case None
  then show ?thesis by (simp add: caddy_UpdateUsers_def Let_def applyUserDelta_online)
qed

lemma dropped_table:
  assumes "\<And>user. cs_online s1 user \<in> {None, cs_online s user}"
  shows "online_counts_ok s \<Longrightarrow> online_counts_ok s1"
    and "counts_below b s \<Longrightarrow> 0 < b \<Longrightarrow> counts_below b s1"
proof -
  show "online_counts_ok s \<Longrightarrow> online_counts_ok s1"
    unfolding online_counts_ok_def using assms by (metis empty_iff insertE option.distinct(1))
  have "tunnels s1 user ip = 0 \<or> tunnels s1 user ip = tunnels s user ip" for user ip
    using assms [of user] by (auto simp: tunnels_def map_get_def [of Map.empty])
  then show "counts_below b s \<Longrightarrow> 0 < b \<Longrightarrow> counts_below b s1" by (metis counts_below_def)
qed

lemma update_table:
  assumes "user \<notin> cut_users deleted full s"
  shows "abs_tunnels (caddy_UpdateUsers added deleted modified full s) user ip = abs_tunnels s user ip"
  using assms by (auto simp: update_keeps_tunnels cut_users_def split: option.splits)

text \<open>A state with the same tunnels, pipe and table.\<close>

lemma table_ok_frame:
  assumes "table_ok n" and "cs_online (ns_engine n1) = cs_online (ns_engine n)"
    and "ns_pipe n1 = ns_pipe n" and "open_count (ns_tunnels n1) = open_count (ns_tunnels n)"
    and "ns_cut n1 = ns_cut n" and "ns_read n1 = ns_read n"
  shows "table_ok n1"
proof -
  have "tunnels (ns_engine n1) = tunnels (ns_engine n)" by (rule tunnels_cong [OF assms(2)])
  then have "abs_tunnels (ns_engine n1) = abs_tunnels (ns_engine n)"
    "counts_below b (ns_engine n1) = counts_below b (ns_engine n)" for b
    by (simp_all add: abs_tunnels_def [abs_def] counts_below_def)
  then show ?thesis using assms online_counts_ok_cong [OF assms(2)] by (simp add: table_ok_def)
qed

lemma table_ok_pipe:
  assumes "table_ok n" and "\<forall>e\<in>set evs. ev_Type e = ''traffic''"
    and "open_count xs = open_count (ns_tunnels n)"
  shows "table_ok (n\<lparr>ns_tunnels := xs, ns_pipe := ns_pipe n @ evs\<rparr>)"
proof -
  have "fold spec_event evs c = c" for c
    using assms(2) by (induction evs) (auto simp: spec_event_def)
  then show ?thesis using assms(1,3) by (simp add: table_ok_def)
qed

lemma system_step_table:
  assumes "system_step n n1" and "bytes_ok s0 n" and "table_ok n"
  shows "table_ok n1"
  using assms(1)
proof (cases rule: system_step.cases)
  case (sys_open t)
  with assms(3) show ?thesis by (auto simp: table_ok_def spec_event_def)
next
  case (sys_copy i t s k upload s1)
  then show ?thesis by (auto intro: table_ok_frame [OF assms(3)] simp: open_count_update)
next
  case (sys_tick i t s authorized evs closed s1)
  have "\<forall>e\<in>set evs. ev_Type e = ''traffic''"
    using sys_tick(4) by (auto simp: reportActiveTunnel_tick_def split: prod.splits if_splits)
  then show ?thesis
    unfolding sys_tick(1) by (rule table_ok_pipe [OF assms(3)]) (rule open_count_update [OF sys_tick(3)])
next
  case (sys_close i t s ev stats)
  have ev: "ev_Type ev = ''close''" "ev_User ev = ti_user t" "ev_IP ev = ti_ip t"
    using sys_close(4) by (auto simp: close_event_def split: prod.splits)
  show ?thesis
    using assms(3) open_count_remove [OF sys_close(2,3)] by (auto simp: sys_close(1) table_ok_def spec_event_def ev)
next
  case (sys_read ev rest)
  show ?thesis
    unfolding table_ok_def
  proof (intro impI)
    assume small: "ns_read n1 < 2 ^ 62"
    then have t: "online_counts_ok (ns_engine n)" "counts_below (int (ns_read n) + 1) (ns_engine n)"
      and eq: "\<And>user ip. user \<notin> ns_cut n \<Longrightarrow>
        fold spec_event (ns_pipe n) (abs_tunnels (ns_engine n)) user ip = open_count (ns_tunnels n) user ip"
      using assms(3) by (auto simp: table_ok_def sys_read(1))
    have b: "int (ns_read n) + 1 < 2 ^ 63 - 1" using small by (simp add: sys_read(1))
    show "online_counts_ok (ns_engine n1) \<and> counts_below (int (ns_read n1) + 1) (ns_engine n1) \<and>
        (\<forall>user ip. user \<notin> ns_cut n1 \<longrightarrow>
           fold spec_event (ns_pipe n1) (abs_tunnels (ns_engine n1)) user ip = open_count (ns_tunnels n1) user ip)"
      using handleEvent_refines [OF t b, of ev] handleEvent_tunnels(2) [OF t b, of ev] eq
      by (simp add: sys_read(1,2) add.commute)
  qed
next
  case (sys_update full added modified deleted)
  let ?s1 = "caddy_UpdateUsers added deleted modified full (ns_engine n)"
  have "fold spec_event evs (abs_tunnels ?s1) user ip = fold spec_event evs (abs_tunnels (ns_engine n)) user ip"
    if "user \<notin> cut_users deleted full (ns_engine n)" for evs user ip
    by (rule fold_spec_point) (rule update_table [OF that])
  then show ?thesis
    using assms(3) dropped_table [OF update_online] by (auto simp: sys_update(1) table_ok_def with_engine_def)
qed (auto simp: with_engine_def intro: table_ok_frame [OF assms(3)])

lemma system_table:
  assumes "system_reachable (caddy_New node users alive runtime) n"
  shows "table_ok n"
  using assms
proof (induction rule: system_reachable.induct)
  case system_new
  have "cs_online (caddy_New node users alive runtime) = Map.empty"
    by (simp add: caddy_New_def replaceUsers_def Let_def range_update_def)
  then show ?case
    by (simp add: table_ok_def system_start_def online_counts_ok_def counts_below_def tunnels_def abs_tunnels_def)
next
  case (system_next n n1)
  then show ?case by (blast intro: system_step_table system_bytes)
qed

section \<open>Properties\<close>



section \<open>Witnesses\<close>

text \<open>A tunnel opens, copies 5 bytes up, reports them, copies 2 more; the open event is read.\<close>

definition st5 :: streamStats where
  "st5 = new_stats\<lparr>st_upload := 5\<rparr>"

definition st5r :: streamStats where
  "st5r = st5\<lparr>st_reportedUpload := 5\<rparr>"

definition busy :: "nat \<Rightarrow> node_system" where
  "busy k =
     (let n0 = system_start sample_engine;
          evs = [tunnel_event ''open'' sample_tunnel 0 0, tunnel_event ''traffic'' sample_tunnel 5 0] in
      if k = 0 then n0
      else if k = 1 then n0\<lparr>ns_tunnels := [(sample_tunnel, new_stats)], ns_pipe := take 1 evs\<rparr>
      else if k = 2 then n0\<lparr>ns_tunnels := [(sample_tunnel, st5)], ns_pipe := take 1 evs,
        ns_copied := add_copied True ''u'' 5 (ns_copied n0)\<rparr>
      else n0\<lparr>ns_tunnels := [(sample_tunnel, st5r)], ns_pipe := evs,
        ns_copied := add_copied True ''u'' 5 (ns_copied n0)\<rparr>)"

lemma busy_steps:
  "system_step (busy 0) (busy 1)" "system_step (busy 1) (busy 2)" "system_step (busy 2) (busy 3)"
proof -
  have u: "ti_user sample_tunnel = ''u''" by (simp add: sample_tunnel_def)
  have w: "wrap64 5 = 5" by (simp add: wrap64_def)
  show "system_step (busy 0) (busy 1)"
    using sys_open [of sample_tunnel "busy 0"] by (simp add: busy_def system_start_def u)
  have "add_count True 5 (Some new_stats) = Some st5"
    by (simp add: add_count_def AddUpload_def new_stats_def st5_def w)
  then show "system_step (busy 1) (busy 2)"
    using sys_copy [of 0 "busy 1" sample_tunnel new_stats 5 True st5]
    by (simp add: busy_def system_start_def u new_stats_def)
  have "reportActiveTunnel_tick sample_tunnel True (Some st5) =
      ([tunnel_event ''traffic'' sample_tunnel 5 0], False, Some st5r)"
    by (simp add: reportActiveTunnel_tick_def Delta_def deltaSinceLast_def st5_def st5r_def new_stats_def w)
  then show "system_step (busy 2) (busy 3)"
    using sys_tick [of 0 "busy 2" sample_tunnel st5 True _ False st5r] by (simp add: busy_def system_start_def u)
qed

lemma busy_reachable: "system_reachable sample_engine (busy 3)" "system_reachable sample_engine (busy 1)"
proof -
  have 0: "system_reachable sample_engine (busy 0)" using system_new [of sample_engine] by (simp add: busy_def)
  show 1: "system_reachable sample_engine (busy 1)" by (rule system_next [OF 0 busy_steps(1)])
  show "system_reachable sample_engine (busy 3)"
    by (rule system_next [OF system_next [OF 1 busy_steps(2)] busy_steps(3)])
qed



end
