(* ===== verification/LegacyAccounting.thy ===== *)
theory LegacyAccounting
  imports LegacyProxy CaddyAccounting
begin

text \<open>
  Traffic accounting of the built-in engine.  The counter table read through the store
  refines the plain table of the Caddy engine, which carries over the facts about
  pending bytes; the engine is an instance of the accounting contract as long as the
  counters a tunnel adds to are in the table; and what happens when they are not.
\<close>

section \<open>The counter table through the store\<close>

definition abs_stats :: "ProxyServer \<Rightarrow> (string \<rightharpoonup> trafficCounter)" where
  "abs_stats s = (\<lambda>uuid. map_option (px_heap s) (px_stats s uuid))"

text \<open>No two users share a counter, and every counter in the table is allocated.\<close>

definition heap_ok :: "ProxyServer \<Rightarrow> bool" where
  "heap_ok s \<longleftrightarrow>
     (\<forall>u v a. px_stats s u = Some a \<longrightarrow> px_stats s v = Some a \<longrightarrow> u = v) \<and>
     (\<forall>u a. px_stats s u = Some a \<longrightarrow> a < px_next s)"

lemma legacy_counter_eq:
  "legacy_snapshotIfAbove = snapshotIfAbove" "legacy_confirm = tc_confirm"
  "legacy_hasPending = hasPending" "legacy_currentUID = currentUID"
  "legacy_indexReportedTraffic = indexReportedTraffic"
proof -
  have "legacy_subtractReported = subtractReported"
    by (simp add: fun_eq_iff legacy_subtractReported_def subtractReported_def)
  then show "legacy_confirm = tc_confirm"
    by (simp add: fun_eq_iff legacy_confirm_def tc_confirm_def)
  show "legacy_snapshotIfAbove = snapshotIfAbove"
    by (simp add: fun_eq_iff legacy_snapshotIfAbove_def snapshotIfAbove_def)
  show "legacy_hasPending = hasPending" "legacy_currentUID = currentUID"
    by (simp_all add: fun_eq_iff legacy_hasPending_def hasPending_def legacy_currentUID_def currentUID_def)
  have ix: "legacy_index = index_traffic"
    unfolding legacy_index_def [abs_def] index_traffic_def [abs_def] ..
  show "legacy_indexReportedTraffic = indexReportedTraffic"
    unfolding legacy_indexReportedTraffic_def [abs_def] indexReportedTraffic_def [abs_def] ix ..
qed

lemma abs_stats_None [simp]: "abs_stats s uuid = None \<longleftrightarrow> px_stats s uuid = None"
  by (simp add: abs_stats_def)

lemma abs_stats_Some: "px_stats s uuid = Some a \<Longrightarrow> abs_stats s uuid = Some (px_heap s a)"
  by (simp add: abs_stats_def)

lemma abs_stats_cong:
  "px_stats s1 = px_stats s \<Longrightarrow> px_heap s1 = px_heap s \<Longrightarrow> abs_stats s1 = abs_stats s"
  by (simp add: abs_stats_def)

lemma heap_ok_cong: "px_stats s1 = px_stats s \<Longrightarrow> px_next s1 = px_next s \<Longrightarrow> heap_ok s1 = heap_ok s"
  by (simp add: heap_ok_def)

lemma update_counter_sel [simp]:
  "px_stats (update_counter f a s) = px_stats s" "px_next (update_counter f a s) = px_next s"
  "px_users (update_counter f a s) = px_users s" "px_limiter (update_counter f a s) = px_limiter s"
  "px_heap (update_counter f a s) = (px_heap s)(a := f (px_heap s a))"
  by (simp_all add: update_counter_def)

lemma heap_ok_update [simp]: "heap_ok (update_counter f a s) = heap_ok s"
  by (rule heap_ok_cong) simp_all

lemma abs_update_counter:
  assumes "heap_ok s" and "px_stats s uuid = Some a"
  shows "abs_stats (update_counter f a s) = (abs_stats s)(uuid \<mapsto> f (px_heap s a))"
proof
  fix v
  show "abs_stats (update_counter f a s) v = ((abs_stats s)(uuid \<mapsto> f (px_heap s a))) v"
    using assms by (cases "px_stats s v") (auto simp: abs_stats_def heap_ok_def)
qed

lemma abs_update_detached:
  assumes "a \<notin> ran (px_stats s)"
  shows "abs_stats (update_counter f a s) = abs_stats s"
proof
  fix v
  show "abs_stats (update_counter f a s) v = abs_stats s v"
    using assms by (cases "px_stats s v") (auto simp: abs_stats_def ran_def)
qed

lemma abs_new_counter:
  assumes "heap_ok s"
  shows "abs_stats (new_counter uuid uid s) =
      (abs_stats s)(uuid \<mapsto> \<lparr>tc_uid = uid, tc_up = 0, tc_down = 0\<rparr>)"
    and "heap_ok (new_counter uuid uid s)"
proof -
  have fresh: "px_stats s v \<noteq> Some (px_next s)" for v
    using assms by (auto simp: heap_ok_def)
  show "abs_stats (new_counter uuid uid s) =
      (abs_stats s)(uuid \<mapsto> \<lparr>tc_uid = uid, tc_up = 0, tc_down = 0\<rparr>)"
  proof
    fix v
    show "abs_stats (new_counter uuid uid s) v =
        ((abs_stats s)(uuid \<mapsto> \<lparr>tc_uid = uid, tc_up = 0, tc_down = 0\<rparr>)) v"
      using fresh [of v] by (cases "px_stats s v") (auto simp: abs_stats_def new_counter_def)
  qed
  show "heap_ok (new_counter uuid uid s)"
    using assms fresh by (auto simp: heap_ok_def new_counter_def less_Suc_eq)
qed

lemma drop_counter:
  "heap_ok s \<Longrightarrow> heap_ok (s\<lparr>px_stats := (px_stats s)(uuid := None)\<rparr>)"
  "abs_stats (s\<lparr>px_stats := (px_stats s)(uuid := None)\<rparr>) = (abs_stats s)(uuid := None)"
  by (auto simp: heap_ok_def abs_stats_def fun_eq_iff)

section \<open>Operations on pending bytes\<close>

text \<open>An operation that keeps the store in order and every user's pending bytes.\<close>

definition keeps_pending :: "ProxyServer \<Rightarrow> ProxyServer \<Rightarrow> bool" where
  "keeps_pending s s1 \<longleftrightarrow> heap_ok s1 \<and> same_pending (abs_stats s) (abs_stats s1)"

definition accounts_ok :: "ProxyServer \<Rightarrow> bool" where
  "accounts_ok s \<longleftrightarrow> heap_ok s \<and> stats_ok (abs_stats s)"

lemma keeps_trans: "keeps_pending s s1 \<Longrightarrow> keeps_pending s1 s2 \<Longrightarrow> keeps_pending s s2"
  by (auto simp: keeps_pending_def intro: same_pending_trans)

lemma keeps_ok: "keeps_pending s s1 \<Longrightarrow> accounts_ok s \<Longrightarrow> accounts_ok s1"
  by (simp add: keeps_pending_def accounts_ok_def same_pending_def)

lemma keeps_frame:
  "accounts_ok s \<Longrightarrow> px_stats s1 = px_stats s \<Longrightarrow> px_heap s1 = px_heap s \<Longrightarrow> px_next s1 = px_next s \<Longrightarrow>
     keeps_pending s s1"
  by (simp add: keeps_pending_def accounts_ok_def abs_stats_cong [of s1 s] heap_ok_cong [of s1 s])

lemma keeps_fold:
  assumes "accounts_ok s" and "\<And>x s. x \<in> set xs \<Longrightarrow> accounts_ok s \<Longrightarrow> keeps_pending s (f x s)"
  shows "keeps_pending s (fold f xs s)"
  using assms
proof (induction xs arbitrary: s)
  case Nil
  then show ?case by (simp add: keeps_pending_def accounts_ok_def)
next
  case (Cons x xs)
  have step: "keeps_pending s (f x s)" using Cons.prems by simp
  then have "keeps_pending (f x s) (fold f xs (f x s))"
    using Cons.prems by (intro Cons.IH keeps_ok [OF step]) simp_all
  with step show ?case by (simp add: keeps_trans)
qed

lemma set_uid_keeps:
  assumes "accounts_ok s" and "px_stats s uuid = Some a"
  shows "keeps_pending s (update_counter (legacy_setUID uid) a s)"
proof -
  have h: "heap_ok s" using assms(1) by (simp add: accounts_ok_def)
  have "same_pending (abs_stats s) ((abs_stats s)(uuid \<mapsto> legacy_setUID uid (px_heap s a)))"
    using abs_stats_Some [OF assms(2)] assms
    by (auto simp: same_pending_def pending_upd fun_eq_iff legacy_setUID_def pending_up_def
        pending_down_def stats_ok_def counter_ok_def accounts_ok_def)
  then show ?thesis by (simp add: keeps_pending_def abs_update_counter [OF h assms(2)] h)
qed

lemma new_counter_keeps:
  assumes "accounts_ok s" and "px_stats s uuid = None" and "uuid \<noteq> []"
  shows "keeps_pending s (new_counter uuid uid s)"
proof -
  have h: "heap_ok s" using assms(1) by (simp add: accounts_ok_def)
  show ?thesis
    using assms(2,3) by (simp add: keeps_pending_def abs_new_counter [OF h] new_counter_pending)
qed

lemma set_or_new_keeps:
  "accounts_ok s \<Longrightarrow> ui_Uuid user \<noteq> [] \<Longrightarrow> keeps_pending s (legacy_set_or_new user s)"
  by (auto simp: legacy_set_or_new_def set_uid_keeps new_counter_keeps split: option.split)

lemma enter_user_keeps: "accounts_ok s \<Longrightarrow> keeps_pending s (legacy_enter_user user s)"
  by (rule keeps_frame) (simp_all add: legacy_enter_user_def)

lemma delete_keeps:
  assumes "accounts_ok s"
  shows "keeps_pending s (legacy_delete user s)"
proof -
  let ?s1 = "s\<lparr>px_users := (px_users s)(ui_Uuid user := None)\<rparr>"
  have k1: "keeps_pending s ?s1" using assms by (rule keeps_frame) simp_all
  show ?thesis
  proof (cases "px_stats s (ui_Uuid user)")
    case None
    with k1 show ?thesis by (simp add: legacy_delete_def)
  next
    case (Some a)
    let ?s2 = "update_counter (legacy_setUID (ui_Id user)) a ?s1"
    let ?s3 = "?s2\<lparr>px_stats := (px_stats ?s2)(ui_Uuid user := None)\<rparr>"
    have k2: "keeps_pending ?s1 ?s2"
      using Some by (intro set_uid_keeps [OF keeps_ok [OF k1 assms]]) simp
    have ok2: "accounts_ok ?s2" by (rule keeps_ok [OF k2 keeps_ok [OF k1 assms]])
    have at: "abs_stats ?s2 (ui_Uuid user) = Some (px_heap ?s2 a)"
      using Some by (intro abs_stats_Some) simp
    have k3: "keeps_pending ?s2 ?s3" if "\<not> hasPending (px_heap ?s2 a)"
    proof -
      have "counter_ok (px_heap ?s2 a)" using ok2 at by (auto simp: accounts_ok_def intro: stats_okD)
      then have z: "tc_up (px_heap ?s2 a) = 0" "tc_down (px_heap ?s2 a) = 0"
        using that by (simp_all only: hasPending_iff) auto
      have "same_pending (abs_stats ?s2) ((abs_stats ?s2)(ui_Uuid user := None))"
        using z at by (auto simp: same_pending_def pending_upd fun_eq_iff pending_up_def pending_down_def
            intro: stats_ok_delete simp del: update_counter_sel)
      then show ?thesis
        using ok2 unfolding keeps_pending_def accounts_ok_def by (simp only: drop_counter simp_thms)
    qed
    have eq: "legacy_delete user s = (if \<not> hasPending (px_heap ?s2 a) then ?s3 else ?s2)"
      using Some unfolding legacy_delete_def legacy_counter_eq Let_def by simp
    show ?thesis
      unfolding eq using k3 keeps_trans [OF k1 k2] keeps_trans [OF keeps_trans [OF k1 k2]] by simp
  qed
qed

lemma add_keeps: "accounts_ok s \<Longrightarrow> ui_Uuid user \<noteq> [] \<Longrightarrow> keeps_pending s (legacy_add user s)"
  using enter_user_keeps [of s user] keeps_ok [OF enter_user_keeps [of s user]]
  by (auto simp: legacy_add_def Let_def intro: keeps_trans new_counter_keeps split: option.split)

lemma modify_keeps: "accounts_ok s \<Longrightarrow> ui_Uuid user \<noteq> [] \<Longrightarrow> keeps_pending s (legacy_modify user s)"
  using enter_user_keeps [of s user] keeps_ok [OF enter_user_keeps [of s user]]
  by (auto simp: legacy_modify_def intro: keeps_trans set_or_new_keeps)

lemma UpdateUsers_keeps:
  assumes "accounts_ok s" and "uuids_present added" and "uuids_present modified"
    and "\<And>users. full = Some users \<Longrightarrow> uuids_present users"
  shows "keeps_pending s (legacy_UpdateUsers added deleted modified full s)"
proof -
  let ?d = "fold legacy_delete deleted s"
  let ?a = "fold legacy_add added ?d"
  let ?m = "fold legacy_modify modified ?a"
  let ?f = "case full of None \<Rightarrow> ?m | Some users \<Rightarrow> fold legacy_set_or_new users ?m"
  have d: "keeps_pending s ?d"
    by (rule keeps_fold [OF assms(1)]) (rule delete_keeps)
  have a: "keeps_pending ?d ?a"
    using assms(2) by (intro keeps_fold [OF keeps_ok [OF d assms(1)]] add_keeps) (auto simp: uuids_present_def)
  note ok_a = keeps_ok [OF a keeps_ok [OF d assms(1)]]
  have m: "keeps_pending ?a ?m"
    using assms(3) by (intro keeps_fold [OF ok_a] modify_keeps) (auto simp: uuids_present_def)
  note ok_m = keeps_ok [OF m ok_a]
  have f: "keeps_pending ?m ?f"
  proof (cases full)
    case None
    then show ?thesis using ok_m by (simp add: keeps_pending_def accounts_ok_def)
  next
    case (Some users)
    have "keeps_pending ?m (fold legacy_set_or_new users ?m)"
      using assms(4) [OF Some] by (intro keeps_fold [OF ok_m] set_or_new_keeps) (auto simp: uuids_present_def)
    with Some show ?thesis by simp
  qed
  have "keeps_pending s ?f" using d a m f by (blast intro: keeps_trans)
  moreover have "keeps_pending ?f (legacy_UpdateUsers added deleted modified full s)"
    by (rule keeps_frame [OF keeps_ok [OF f ok_m]])
       (simp_all add: legacy_UpdateUsers_def Let_def)
  ultimately show ?thesis by (rule keeps_trans)
qed

lemma getCounter_keeps:
  assumes "accounts_ok s" and "uuid \<noteq> []"
  shows "keeps_pending s (snd (legacy_getCounter uuid s))"
    and "px_stats (snd (legacy_getCounter uuid s)) uuid = Some (fst (legacy_getCounter uuid s))"
  using assms new_counter_keeps [OF assms(1) _ assms(2)]
  by (auto simp: legacy_getCounter_def keeps_pending_def accounts_ok_def new_counter_def split: option.split)

text \<open>Bytes added to a counter of the table.\<close>

lemma attached_add:
  assumes "accounts_ok s" and "px_stats s uuid = Some a" and "0 \<le> n"
    and "(if upload then pending_up (abs_stats s) uuid else pending_down (abs_stats s) uuid) + n < 2 ^ 63"
  shows "accounts_ok (copyWithAccount n a upload s) \<and>
     pending_up (abs_stats (copyWithAccount n a upload s)) =
      (pending_up (abs_stats s))(uuid := pending_up (abs_stats s) uuid + (if upload then n else 0)) \<and>
     pending_down (abs_stats (copyWithAccount n a upload s)) =
      (pending_down (abs_stats s))(uuid := pending_down (abs_stats s) uuid + (if upload then 0 else n))"
proof -
  have h: "heap_ok s" and ok: "stats_ok (abs_stats s)" using assms(1) by (simp_all add: accounts_ok_def)
  let ?c = "px_heap s a"
  have at: "abs_stats s uuid = Some ?c" by (rule abs_stats_Some [OF assms(2)])
  then have c: "counter_ok ?c" and p: "pending_up (abs_stats s) uuid = tc_up ?c"
      "pending_down (abs_stats s) uuid = tc_down ?c"
    using ok by (auto simp: pending_up_def pending_down_def intro: stats_okD)
  let ?c1 = "if upload then legacy_addUpload n ?c else legacy_addDownload n ?c"
  have c1: "counter_ok ?c1 \<and> tc_up ?c1 = tc_up ?c + (if upload then n else 0) \<and>
      tc_down ?c1 = tc_down ?c + (if upload then 0 else n)"
    using c p assms(3,4)
    by (auto simp: legacy_addUpload_def legacy_addDownload_def counter_ok_def wrap64_id in64_def
        split: if_splits)
  have eq: "abs_stats (copyWithAccount n a upload s) = (abs_stats s)(uuid \<mapsto> ?c1)"
    by (simp add: copyWithAccount_def abs_update_counter [OF h assms(2)])
  have ne: "uuid \<noteq> []" using ok assms(2) by (auto simp: stats_ok_def)
  have "heap_ok (copyWithAccount n a upload s)" by (simp add: copyWithAccount_def h)
  moreover have "stats_ok ((abs_stats s)(uuid \<mapsto> ?c1))"
    by (rule stats_ok_upd [OF ok ne]) (use c1 in simp)
  ultimately show ?thesis
    unfolding accounts_ok_def eq pending_upd using c1 p by (simp add: fun_eq_iff)
qed

text \<open>Bytes added to a counter that is no longer in the table are in nobody's account.\<close>

lemma detached_add:
  "a \<notin> ran (px_stats s) \<Longrightarrow> abs_stats (copyWithAccount n a upload s) = abs_stats s"
  by (simp add: copyWithAccount_def abs_update_detached)

section \<open>Slices and confirmations\<close>

lemma legacy_slice_abs: "legacy_slice_entry m s = slice_entry m (abs_stats s)"
proof
  fix uuid
  show "legacy_slice_entry m s uuid = slice_entry m (abs_stats s) uuid"
    by (cases "px_stats s uuid")
       (simp_all add: legacy_slice_entry_def slice_entry_def abs_stats_def legacy_counter_eq)
qed

lemma legacy_range_order: "range_order (px_stats s) = range_order (abs_stats s)"
  by (simp add: fun_eq_iff range_order_def abs_stats_def dom_def)

lemma confirm_visit_abs:
  assumes "heap_ok s"
  shows "abs_stats (legacy_confirm_visit byUUID byUID uuid s) =
      visit_entry (confirm_entry byUUID byUID (px_users s)) uuid (abs_stats s)"
    and "heap_ok (legacy_confirm_visit byUUID byUID uuid s)"
    and "px_users (legacy_confirm_visit byUUID byUID uuid s) = px_users s"
proof -
  have "abs_stats (legacy_confirm_visit byUUID byUID uuid s) =
      visit_entry (confirm_entry byUUID byUID (px_users s)) uuid (abs_stats s) \<and>
    heap_ok (legacy_confirm_visit byUUID byUID uuid s) \<and>
    px_users (legacy_confirm_visit byUUID byUID uuid s) = px_users s"
  proof (cases "px_stats s uuid")
    case None
    then have "abs_stats s uuid = None" by simp
    then have "visit_entry (confirm_entry byUUID byUID (px_users s)) uuid (abs_stats s) = abs_stats s"
      by (auto simp: visit_entry_def fun_eq_iff simp del: abs_stats_None)
    with None assms show ?thesis by (simp add: legacy_confirm_visit_def)
  next
    case (Some a)
    define f where "f = (case byUUID uuid of Some traffic \<Rightarrow> tc_confirm traffic
      | None \<Rightarrow> (case byUID (tc_uid (px_heap s a)) of Some traffic \<Rightarrow> tc_confirm traffic | None \<Rightarrow> id))"
    let ?s1 = "update_counter f a s"
    have idu: "update_counter id a s = s" by (simp add: update_counter_def)
    have visit: "legacy_confirm_visit byUUID byUID uuid s =
        (if px_users s uuid = None \<and> \<not> hasPending (f (px_heap s a))
         then ?s1\<lparr>px_stats := (px_stats ?s1)(uuid := None)\<rparr> else ?s1)"
      using Some idu
      by (auto simp: legacy_confirm_visit_def legacy_counter_eq f_def currentUID_def Let_def split: option.split)
    have entry: "confirm_entry byUUID byUID (px_users s) uuid (px_heap s a) =
        (if px_users s uuid = None \<and> \<not> hasPending (f (px_heap s a)) then None else Some (f (px_heap s a)))"
      by (auto simp: confirm_entry_def f_def currentUID_def Let_def split: option.split)
    show ?thesis
      unfolding visit visit_entry_def
      using abs_update_counter [OF assms Some, of f] assms abs_stats_Some [OF Some] entry
        drop_counter [of ?s1 uuid]
      by (simp del: update_counter_sel(1,5))
  qed
  then show "abs_stats (legacy_confirm_visit byUUID byUID uuid s) =
      visit_entry (confirm_entry byUUID byUID (px_users s)) uuid (abs_stats s)"
    and "heap_ok (legacy_confirm_visit byUUID byUID uuid s)"
    and "px_users (legacy_confirm_visit byUUID byUID uuid s) = px_users s" by blast+
qed

lemma confirm_fold_abs:
  assumes "heap_ok s"
  shows "abs_stats (fold (legacy_confirm_visit byUUID byUID) ks s) =
      fold (visit_entry (confirm_entry byUUID byUID (px_users s))) ks (abs_stats s) \<and>
    heap_ok (fold (legacy_confirm_visit byUUID byUID) ks s)"
  using assms
proof (induction ks arbitrary: s)
  case Nil
  then show ?case by simp
next
  case (Cons k ks)
  then show ?case
    using Cons.IH [OF confirm_visit_abs(2) [OF Cons.prems, of byUUID byUID k]]
    by (simp add: confirm_visit_abs(1,3) [OF Cons.prems])
qed

lemma legacy_confirm_pending:
  assumes "accounts_ok s" and "range_order (px_stats s) ks"
    and "covered (pending_up (abs_stats s)) (pending_down (abs_stats s)) rep"
  shows "accounts_ok (legacy_ConfirmUserTraffic ks rep s) \<and>
     pending_up (abs_stats (legacy_ConfirmUserTraffic ks rep s)) uuid =
       pending_up (abs_stats s) uuid - reported_up rep uuid \<and>
     pending_down (abs_stats (legacy_ConfirmUserTraffic ks rep s)) uuid =
       pending_down (abs_stats s) uuid - reported_down rep uuid"
proof (cases "rep = []")
  case True
  with assms show ?thesis
    by (simp add: legacy_ConfirmUserTraffic_def reported_up_def reported_down_def)
next
  case False
  have h: "heap_ok s" and ok: "stats_ok (abs_stats s)" using assms(1) by (simp_all add: accounts_ok_def)
  let ?idx = "\<lambda>uuid. find (\<lambda>t. ut_UUID t = uuid) rep"
  have ord: "range_order (abs_stats s) ks" using assms(2) by (simp add: legacy_range_order)
  have ix: "indexReportedTraffic rep = (?idx, Map.empty)"
    using index_of_covered [OF assms(3)] pending_bound [OF ok] by blast
  have run: "legacy_ConfirmUserTraffic ks rep s = fold (legacy_confirm_visit ?idx Map.empty) ks s"
    using False by (simp add: legacy_ConfirmUserTraffic_def legacy_counter_eq ix)
  have "abs_stats (legacy_ConfirmUserTraffic ks rep s) = confirmed_stats rep (px_users s) (abs_stats s)"
    using confirm_fold_abs [OF h] range_loop_eq_update [OF ord] by (simp add: run confirmed_stats_def)
  moreover have "heap_ok (legacy_ConfirmUserTraffic ks rep s)"
    using confirm_fold_abs [OF h] by (simp add: run)
  ultimately show ?thesis
    using confirmed_pending [OF ok assms(3)] by (simp add: accounts_ok_def)
qed

section \<open>The engine under the accounting contract\<close>

text \<open>A copy or a body read adds bytes to the counter that is the user's at that moment.\<close>

inductive legacy_traffic :: "string \<Rightarrow> int \<Rightarrow> int \<Rightarrow> ProxyServer \<Rightarrow> ProxyServer \<Rightarrow> bool" where
  legacy_upload: "px_stats s uuid = Some a \<Longrightarrow> legacy_traffic uuid n 0 s (copyWithAccount n a True s)"
| legacy_download: "px_stats s uuid = Some a \<Longrightarrow> legacy_traffic uuid 0 n s (copyWithAccount n a False s)"

inductive legacy_internal :: "ProxyServer \<Rightarrow> ProxyServer \<Rightarrow> bool" where
  legacy_update:
    "uuids_present added \<Longrightarrow> uuids_present modified \<Longrightarrow>
     (\<And>users. full = Some users \<Longrightarrow> uuids_present users) \<Longrightarrow>
     legacy_internal s (legacy_UpdateUsers added deleted modified full s)"
| legacy_alive: "legacy_internal s (legacy_SetAliveList alive s)"
| legacy_request: "legacy_internal s (snd (legacy_ServeHTTP r s))"
| legacy_counter: "uuid \<noteq> [] \<Longrightarrow> legacy_internal s (snd (legacy_getCounter uuid s))"
| legacy_devices: "legacy_internal s (snd (legacy_GetOnlineDevice ks ips s))"

definition legacy_ops :: "ProxyServer traffic_ops" where
  "legacy_ops =
     \<lparr>op_up = (\<lambda>s. pending_up (abs_stats s)), op_down = (\<lambda>s. pending_down (abs_stats s)),
      op_order = (\<lambda>s. range_order (px_stats s)), op_traffic = legacy_traffic,
      op_internal = legacy_internal, op_slice = legacy_GetUserTrafficSlice,
      op_confirm = legacy_ConfirmUserTraffic\<rparr>"

lemma legacy_ops_sel [simp]:
  "op_up legacy_ops s = pending_up (abs_stats s)"
  "op_down legacy_ops s = pending_down (abs_stats s)"
  "op_order legacy_ops s = range_order (px_stats s)"
  "op_traffic legacy_ops = legacy_traffic"
  "op_internal legacy_ops = legacy_internal"
  "op_slice legacy_ops = legacy_GetUserTrafficSlice"
  "op_confirm legacy_ops = legacy_ConfirmUserTraffic"
  by (simp_all add: legacy_ops_def)

lemma legacy_ServeHTTP_frame [simp]:
  "px_stats (snd (legacy_ServeHTTP r s)) = px_stats s"
  "px_heap (snd (legacy_ServeHTTP r s)) = px_heap s"
  "px_next (snd (legacy_ServeHTTP r s)) = px_next s"
proof -
  obtain res s1 where a: "authenticate r s = (res, s1)" by (cases "authenticate r s")
  then have "s1 = s \<or> (\<exists>l. s1 = s\<lparr>px_limiter := l\<rparr>)"
    unfolding authenticate_def Let_def by (auto split: option.splits prod.splits if_splits)
  moreover have "snd (legacy_ServeHTTP r s) = s1"
    by (cases res) (auto simp: legacy_ServeHTTP_def a split: auth_error.split)
  ultimately show "px_stats (snd (legacy_ServeHTTP r s)) = px_stats s"
    "px_heap (snd (legacy_ServeHTTP r s)) = px_heap s"
    "px_next (snd (legacy_ServeHTTP r s)) = px_next s" by auto
qed

lemma legacy_internal_keeps:
  assumes "legacy_internal s s1" and "accounts_ok s"
  shows "keeps_pending s s1"
  using assms
proof (cases rule: legacy_internal.cases)
  case (legacy_update added modified full deleted)
  then show ?thesis using UpdateUsers_keeps [OF assms(2)] by blast
next
  case (legacy_counter uuid)
  then show ?thesis using getCounter_keeps [OF assms(2)] by simp
qed (auto simp: legacy_SetAliveList_def legacy_GetOnlineDevice_def split: prod.split
    intro!: keeps_frame [OF assms(2)])

interpretation legacy_store: traffic_store legacy_ops accounts_ok
proof unfold_locales
  fix s s1 :: ProxyServer and uuid u d
  assume "accounts_ok s" "uuid \<noteq> []" "0 \<le> u" "0 \<le> d"
    and "op_up legacy_ops s uuid + u < 2 ^ 63" "op_down legacy_ops s uuid + d < 2 ^ 63"
    and "op_traffic legacy_ops uuid u d s s1"
  then show "accounts_ok s1 \<and>
      op_up legacy_ops s1 = (op_up legacy_ops s)(uuid := op_up legacy_ops s uuid + u) \<and>
      op_down legacy_ops s1 = (op_down legacy_ops s)(uuid := op_down legacy_ops s uuid + d)"
    using attached_add [of s uuid _ u True] attached_add [of s uuid _ d False]
    by (auto elim!: legacy_traffic.cases)
next
  fix s s1 :: ProxyServer
  assume "accounts_ok s" "op_internal legacy_ops s s1"
  then show "accounts_ok s1 \<and> op_up legacy_ops s1 = op_up legacy_ops s \<and>
      op_down legacy_ops s1 = op_down legacy_ops s"
    using legacy_internal_keeps [of s s1] keeps_ok [of s s1]
    by (simp add: keeps_pending_def same_pending_def)
next
  fix s :: ProxyServer and ks m
  assume "accounts_ok s" "op_order legacy_ops s ks"
  then show "covered (op_up legacy_ops s) (op_down legacy_ops s) (op_slice legacy_ops ks m s)"
    using slice_covered [of "abs_stats s" ks m]
    by (simp add: legacy_GetUserTrafficSlice_def legacy_slice_abs accounts_ok_def legacy_range_order)
next
  fix s :: ProxyServer and ks rep uuid
  assume "accounts_ok s" "op_order legacy_ops s ks"
    "covered (op_up legacy_ops s) (op_down legacy_ops s) rep"
  then show "accounts_ok (op_confirm legacy_ops ks rep s) \<and>
      op_up legacy_ops (op_confirm legacy_ops ks rep s) uuid = op_up legacy_ops s uuid - reported_up rep uuid \<and>
      op_down legacy_ops (op_confirm legacy_ops ks rep s) uuid = op_down legacy_ops s uuid - reported_down rep uuid"
    by (simp add: legacy_confirm_pending)
qed

section \<open>Properties\<close>

lemma legacy_New_ok:
  assumes "uuids_present users"
  shows "accounts_ok (legacy_New node users alive)"
    and "pending_up (abs_stats (legacy_New node users alive)) uuid = 0"
    and "pending_down (abs_stats (legacy_New node users alive)) uuid = 0"
proof -
  obtain s0 where s0: "legacy_New node users alive = legacy_replaceUsers users s0"
    and empty: "px_stats s0 = Map.empty"
    by (simp add: legacy_New_def)
  have ok0: "accounts_ok s0" and abs0: "abs_stats s0 = Map.empty"
    using empty by (auto simp: accounts_ok_def heap_ok_def stats_ok_def abs_stats_def)
  have e: "keeps_pending s0 (fold legacy_enter_user users s0)"
    by (rule keeps_fold [OF ok0]) (rule enter_user_keeps)
  have "keeps_pending (fold legacy_enter_user users s0) (legacy_New node users alive)"
    unfolding s0 legacy_replaceUsers_def
    using assms by (intro keeps_fold [OF keeps_ok [OF e ok0]] set_or_new_keeps) (auto simp: uuids_present_def)
  then have k: "keeps_pending s0 (legacy_New node users alive)" by (rule keeps_trans [OF e])
  show "accounts_ok (legacy_New node users alive)" by (rule keeps_ok [OF k ok0])
  show "pending_up (abs_stats (legacy_New node users alive)) uuid = 0"
    "pending_down (abs_stats (legacy_New node users alive)) uuid = 0"
    using k by (simp_all add: keeps_pending_def same_pending_def abs0 pending_up_def pending_down_def)
qed

text \<open>
  The built-in engine bills what it counts: from a fresh engine, through any
  interleaving of user updates, requests, device reports and report cycles whose posts
  succeed or fail, the bytes added to users' counters while these are in the table are
  exactly the bytes the panel accepted plus the bytes still pending.
\<close>

theorem legacy_traffic_conserved:
  assumes "uuids_present users"
    and "ledger_reachable legacy_ops (legacy_New node users alive) l"
  shows "moved_up l uuid = billed_up l uuid + pending_up (abs_stats (engine l)) uuid \<and>
     moved_down l uuid = billed_down l uuid + pending_down (abs_stats (engine l)) uuid"
proof -
  have "legacy_store.balanced l"
    by (rule legacy_store.reachable_balanced [OF assms(2)]) (simp_all add: legacy_New_ok assms(1))
  then show ?thesis by (simp add: legacy_store.balanced_def)
qed

theorem legacy_traffic_conserved_witness:
  "\<exists>l. ledger_reachable legacy_ops (legacy_New sample_node [sample_user] Map.empty) l \<and>
     moved_up l ''u'' = 5 \<and> 5 = billed_up l ''u'' + pending_up (abs_stats (engine l)) ''u''"
proof -
  let ?s0 = "legacy_New sample_node [sample_user] Map.empty"
  let ?l0 = "\<lparr>engine = ?s0, in_flight = None, moved_up = (\<lambda>_. 0), moved_down = (\<lambda>_. 0),
      billed_up = (\<lambda>_. 0), billed_down = (\<lambda>_. 0)\<rparr> :: ProxyServer ledger"
  let ?l1 = "?l0\<lparr>engine := copyWithAccount 5 0 True ?s0,
      moved_up := (moved_up ?l0)(''u'' := moved_up ?l0 ''u'' + 5),
      moved_down := (moved_down ?l0)(''u'' := moved_down ?l0 ''u'' + 0)\<rparr>"
  have present: "uuids_present [sample_user]"
    by (simp add: uuids_present_def sample_user_def)
  have "px_stats ?s0 ''u'' = Some 0"
    by (simp add: legacy_New_def legacy_replaceUsers_def legacy_enter_user_def legacy_set_or_new_def
        new_counter_def sample_user_def)
  then have "legacy_traffic ''u'' 5 0 ?s0 (copyWithAccount 5 0 True ?s0)" by (rule legacy_upload)
  then have "ledger_step legacy_ops ?l0 ?l1"
    by (intro ledger_step.ledger_traffic) (simp_all add: legacy_New_ok [OF present])
  then have reach: "ledger_reachable legacy_ops ?s0 ?l1"
    by (blast intro: ledger_reachable.intros)
  have "moved_up ?l1 ''u'' = billed_up ?l1 ''u'' + pending_up (abs_stats (engine ?l1)) ''u''"
    using legacy_traffic_conserved [OF present reach, of "''u''"] by blast
  with reach show ?thesis by (intro exI [of _ ?l1]) simp
qed

lemma legacy_delete_idle:
  assumes "px_stats s (ui_Uuid user) = Some a" and "\<not> legacy_hasPending (px_heap s a)"
  shows "px_stats (legacy_delete user s) = (px_stats s)(ui_Uuid user := None)"
  using assms by (simp add: legacy_delete_def Let_def legacy_hasPending_def legacy_setUID_def)

text \<open>
  A tunnel outlives its user's account: when a user is deleted while a tunnel runs and
  the counter has nothing pending (bytes are only added when a copy ends, so this is the
  normal case), the counter leaves the table, and what the tunnel adds to it afterwards
  changes no user's pending bytes: it is never reported.
\<close>

theorem legacy_deleted_user_traffic_lost:
  assumes "accounts_ok s" and "px_stats s (ui_Uuid user) = Some a"
    and "\<not> legacy_hasPending (px_heap s a)"
  shows "abs_stats (copyWithAccount n a upload (legacy_UpdateUsers [] [user] [] (Some []) s)) =
     abs_stats (legacy_UpdateUsers [] [user] [] (Some []) s) \<and>
     px_stats (legacy_UpdateUsers [] [user] [] (Some []) s) (ui_Uuid user) = None"
proof -
  have st: "px_stats (legacy_UpdateUsers [] [user] [] (Some []) s) = (px_stats s)(ui_Uuid user := None)"
    using legacy_delete_idle [OF assms(2,3)] by (simp add: legacy_UpdateUsers_def Let_def)
  moreover have "a \<notin> ran ((px_stats s)(ui_Uuid user := None))"
    using assms(1,2) by (auto simp: ran_def accounts_ok_def heap_ok_def split: if_splits)
  ultimately show ?thesis by (simp add: detached_add)
qed

theorem legacy_deleted_user_traffic_lost_witness:
  "abs_stats (copyWithAccount 1000000 0 False
     (legacy_UpdateUsers [] [sample_user] [] (Some []) (legacy_New sample_node [sample_user] Map.empty))) =
   abs_stats (legacy_UpdateUsers [] [sample_user] [] (Some []) (legacy_New sample_node [sample_user] Map.empty))"
proof -
  let ?s = "legacy_New sample_node [sample_user] Map.empty"
  have ok: "accounts_ok ?s"
    by (rule legacy_New_ok) (simp add: uuids_present_def sample_user_def)
  have at: "px_stats ?s (ui_Uuid sample_user) = Some 0" and idle: "\<not> legacy_hasPending (px_heap ?s 0)"
    by (simp_all add: legacy_New_def legacy_replaceUsers_def legacy_enter_user_def legacy_set_or_new_def
        new_counter_def sample_user_def legacy_hasPending_def)
  from legacy_deleted_user_traffic_lost [OF ok at idle] show ?thesis by blast
qed

end
