(* ===== verification/NodeLife.thy ===== *)
theory NodeLife
  imports CaddyAccounting LegacyAccounting
begin

text \<open>
  Traffic over the whole life of a node.  At every reload \<^verbatim>\<open>runNode\<close> (\<^verbatim>\<open>main.go\<close>) closes
  the controller, drops it with its engine, and makes a new one.  A life is the list of the
  ledgers of all engines so far, the current one first; a retired engine may still finish a
  report that was under way and read the last events, but starts no further report.
\<close>

section \<open>Lives\<close>

definition new_ledger :: "'s \<Rightarrow> 's ledger" where
  "new_ledger s0 =
     \<lparr>engine = s0, in_flight = None, moved_up = (\<lambda>_. 0), moved_down = (\<lambda>_. 0),
      billed_up = (\<lambda>_. 0), billed_down = (\<lambda>_. 0)\<rparr>"

definition late_step :: "'s traffic_ops \<Rightarrow> 's ledger \<Rightarrow> 's ledger \<Rightarrow> bool" where
  "late_step ops l l1 \<longleftrightarrow> ledger_step ops l l1 \<and> (in_flight l = None \<longrightarrow> in_flight l1 = None)"

inductive life_step :: "'s traffic_ops \<Rightarrow> ('s \<Rightarrow> bool) \<Rightarrow> 's ledger list \<Rightarrow> 's ledger list \<Rightarrow> bool"
  for ops fresh where
  life_now: "ledger_step ops l l1 \<Longrightarrow> life_step ops fresh (l # past) (l1 # past)"
| life_late: "i < length past \<Longrightarrow> late_step ops (past ! i) l1 \<Longrightarrow> life_step ops fresh (l # past) (l # past[i := l1])"
| life_reload: "fresh s0 \<Longrightarrow> life_step ops fresh ls (new_ledger s0 # ls)"

inductive life_steps :: "'s traffic_ops \<Rightarrow> ('s \<Rightarrow> bool) \<Rightarrow> 's ledger list \<Rightarrow> 's ledger list \<Rightarrow> bool"
  for ops fresh ls where
  life_refl: "life_steps ops fresh ls ls"
| life_more: "life_steps ops fresh ls ls1 \<Longrightarrow> life_step ops fresh ls1 ls2 \<Longrightarrow> life_steps ops fresh ls ls2"

inductive_cases life_stepE [consumes 1, case_names now late reload]: "life_step ops fresh ls ls1"

lemma life_steps_trans:
  assumes "life_steps ops fresh ls ls1" and "life_steps ops fresh ls1 ls2"
  shows "life_steps ops fresh ls ls2"
  using assms(2,1) by (induction rule: life_steps.induct) (auto intro: life_more)

text \<open>What all engines together have moved, billed, and still hold.\<close>

definition total :: "('s ledger \<Rightarrow> string \<Rightarrow> int) \<Rightarrow> 's ledger list \<Rightarrow> string \<Rightarrow> int" where
  "total f ls uuid = sum_list (map (\<lambda>l. f l uuid) ls)"

section \<open>What the contract gives over a life\<close>

context traffic_store
begin

definition starts_empty :: "('s \<Rightarrow> bool) \<Rightarrow> bool" where
  "starts_empty fresh \<longleftrightarrow> (\<forall>s. fresh s \<longrightarrow> ok s \<and> (\<forall>uuid. op_up ops s uuid = 0 \<and> op_down ops s uuid = 0))"

lemma new_ledger_balanced: "starts_empty fresh \<Longrightarrow> fresh s \<Longrightarrow> balanced (new_ledger s)"
  by (simp add: starts_empty_def balanced_def new_ledger_def)

lemma life_step_balanced:
  assumes "life_step ops fresh ls ls1" and "starts_empty fresh" and "\<forall>l\<in>set ls. balanced l"
  shows "\<forall>l\<in>set ls1. balanced l"
  using assms(1)
proof (cases rule: life_stepE)
  case (now l l1 past)
  with assms(3) show ?thesis by (auto intro: step_balanced)
next
  case (late i past l1 l)
  with assms(3) have "balanced l1" by (auto simp: late_step_def intro: step_balanced)
  with late assms(3) show ?thesis by (auto dest: set_update_subset_insert [THEN subsetD])
next
  case (reload s0)
  with assms(2,3) show ?thesis by (simp add: new_ledger_balanced)
qed

lemma life_balanced:
  assumes "life_steps ops fresh [new_ledger s0] ls" and "fresh s0" and "starts_empty fresh"
  shows "\<forall>l\<in>set ls. balanced l"
  using assms(1)
proof (induction rule: life_steps.induct)
  case life_refl
  then show ?case using new_ledger_balanced [OF assms(3,2)] by simp
next
  case (life_more ls1 ls2)
  then show ?case using life_step_balanced [OF _ assms(3)] by blast
qed

lemma life_totals:
  assumes "\<forall>l\<in>set ls. balanced l"
  shows "total moved_up ls uuid = total billed_up ls uuid + total (\<lambda>l. op_up ops (engine l)) ls uuid"
    and "total moved_down ls uuid = total billed_down ls uuid + total (\<lambda>l. op_down ops (engine l)) ls uuid"
  using assms by (induction ls) (auto simp: total_def balanced_def)

end

section \<open>Retired engines\<close>

text \<open>Reading the list from its end, an engine keeps its place.\<close>

lemma late_bill:
  assumes "late_step ops l l1" and "in_flight l = None"
  shows "billed_up l1 = billed_up l \<and> billed_down l1 = billed_down l \<and> in_flight l1 = None"
proof -
  have "ledger_step ops l l1" "in_flight l1 = None" using assms by (auto simp: late_step_def)
  then show ?thesis using assms(2) by (cases rule: ledger_step.cases) auto
qed

lemma moved_grows: "ledger_step ops l l1 \<Longrightarrow> moved_up l \<le> moved_up l1 \<and> moved_down l \<le> moved_down l1"
  by (cases rule: ledger_step.cases) (auto simp: le_fun_def)

definition closed_bill :: "nat \<Rightarrow> 's ledger \<Rightarrow> 's ledger list \<Rightarrow> bool" where
  "closed_bill n l ls \<longleftrightarrow>
     Suc n < length ls \<and> in_flight (rev ls ! n) = None \<and>
     billed_up (rev ls ! n) = billed_up l \<and> billed_down (rev ls ! n) = billed_down l \<and>
     moved_up l \<le> moved_up (rev ls ! n) \<and> moved_down l \<le> moved_down (rev ls ! n)"

lemma closed_bill_step:
  assumes "life_step ops fresh ls ls1" and "closed_bill n l ls"
  shows "closed_bill n l ls1"
  using assms(1)
proof (cases rule: life_stepE)
  case (now k k1 past)
  with assms(2) show ?thesis by (auto simp: closed_bill_def nth_append)
next
  case (late i past k1 k)
  then have past: "Suc n < Suc (length past)" "rev ls ! n = rev past ! n" "rev ls1 ! n = rev (past[i := k1]) ! n"
    using assms(2) by (auto simp: closed_bill_def nth_append)
  show ?thesis
  proof (cases "length past - Suc n = i")
    case True
    then have "rev past ! n = past ! i" "rev (past[i := k1]) ! n = k1"
      using past(1) late by (simp_all add: rev_nth)
    moreover have "moved_up (past ! i) \<le> moved_up k1 \<and> moved_down (past ! i) \<le> moved_down k1"
      using late(4) by (auto simp: late_step_def dest: moved_grows)
    ultimately show ?thesis
      using late_bill [OF late(4)] assms(2) past late by (auto simp: closed_bill_def intro: order_trans)
  next
    case False
    then have "rev (past[i := k1]) ! n = rev past ! n" using past(1) by (simp add: rev_nth)
    with assms(2) past late show ?thesis by (simp add: closed_bill_def)
  qed
next
  case (reload s0)
  with assms(2) show ?thesis by (auto simp: closed_bill_def nth_append)
qed

lemma closed_bill_steps:
  "life_steps ops fresh ls ls1 \<Longrightarrow> closed_bill n l ls \<Longrightarrow> closed_bill n l ls1"
  by (induction rule: life_steps.induct) (auto intro: closed_bill_step)

section \<open>Properties\<close>

definition fresh_caddy :: "CaddyServer \<Rightarrow> bool" where
  "fresh_caddy s \<longleftrightarrow> (\<exists>node users alive runtime. uuids_present users \<and> s = caddy_New node users alive runtime)"

definition fresh_legacy :: "ProxyServer \<Rightarrow> bool" where
  "fresh_legacy s \<longleftrightarrow> (\<exists>node users alive. uuids_present users \<and> s = legacy_New node users alive)"

lemma fresh_caddy_empty: "caddy_store.starts_empty fresh_caddy"
  by (auto simp: caddy_store.starts_empty_def fresh_caddy_def caddy_New_pending)

lemma fresh_legacy_empty: "legacy_store.starts_empty fresh_legacy"
  by (auto simp: legacy_store.starts_empty_def fresh_legacy_def legacy_New_ok)



section \<open>Witnesses\<close>

text \<open>A user's tunnel moves 5 bytes up and 6 down; nothing is reported yet.\<close>

definition sample_ledger :: "CaddyServer ledger" where
  "sample_ledger =
     (new_ledger sample_engine)\<lparr>engine := snd (handleEvent (sample_event ''traffic'') sample_engine),
       moved_up := (\<lambda>_. 0)(''u'' := 5), moved_down := (\<lambda>_. 0)(''u'' := 6)\<rparr>"

lemma sample_present: "uuids_present [sample_user]"
  by (simp add: uuids_present_def sample_user_def)

lemma sample_fresh: "fresh_caddy sample_engine"
  using sample_present by (auto simp: fresh_caddy_def sample_engine_def)

lemma sample_moves: "ledger_step caddy_ops (new_ledger sample_engine) sample_ledger"
proof -
  let ?ev = "sample_event ''traffic''"
  have "caddy_traffic (ev_User ?ev) (ev_Upload ?ev) (ev_Download ?ev) sample_engine (snd (handleEvent ?ev sample_engine))"
    by (rule caddy_traffic.intros) (simp add: sample_event_def)
  then have "caddy_traffic ''u'' 5 6 sample_engine (snd (handleEvent ?ev sample_engine))"
    by (simp add: sample_event_def)
  then have "op_traffic caddy_ops ''u'' 5 6 (engine (new_ledger sample_engine))
      (snd (handleEvent ?ev sample_engine))"
    by (simp add: new_ledger_def)
  from ledger_traffic [OF _ _ _ _ _ this]
  show ?thesis
    by (simp add: sample_ledger_def new_ledger_def sample_engine_def caddy_New_pending [OF sample_present])
qed

lemma sample_life: "life_steps caddy_ops fresh_caddy [new_ledger sample_engine] [sample_ledger]"
  by (rule life_more [OF life_refl life_now [OF sample_moves]])



end
