(* ===== verification/LostAnswers.thy ===== *)
theory LostAnswers
  imports NodeLife
begin

text \<open>
  Reports whose answer is lost.  The client posts a report with retries
  (\<^verbatim>\<open>SetRetryCount\<close> in \<^verbatim>\<open>internal/panel/client.go\<close>), and the controller
  (\<^verbatim>\<open>reportUserTrafficTask\<close> of \<^verbatim>\<open>main.go\<close>) confirms it only if the post succeeded.  The panel
  may have taken a report although the agent saw an error: then the same bytes are
  sent again, by a retry or in the next round, and the request carries nothing by which
  the panel could tell.  The ledger of \<open>Ledger\<close> is extended by this step.
\<close>

section \<open>The ledger with lost answers\<close>

text \<open>\<open>twice_up\<close> and \<open>twice_down\<close>: what the panel took from reports whose answer was lost.\<close>

record 's lossy_ledger =
  book :: "'s ledger"
  twice_up :: "string \<Rightarrow> int"
  twice_down :: "string \<Rightarrow> int"

inductive lossy_step :: "'s traffic_ops \<Rightarrow> 's lossy_ledger \<Rightarrow> 's lossy_ledger \<Rightarrow> bool" for ops where
  lossy_plain: "ledger_step ops (book p) l1 \<Longrightarrow> lossy_step ops p (p\<lparr>book := l1\<rparr>)"
| lossy_taken:
    "in_flight (book p) = Some rep \<Longrightarrow>
     lossy_step ops p
       (p\<lparr>book := (book p)\<lparr>billed_up := (\<lambda>uuid. billed_up (book p) uuid + reported_up rep uuid),
            billed_down := (\<lambda>uuid. billed_down (book p) uuid + reported_down rep uuid)\<rparr>,
          twice_up := (\<lambda>uuid. twice_up p uuid + reported_up rep uuid),
          twice_down := (\<lambda>uuid. twice_down p uuid + reported_down rep uuid)\<rparr>)"

inductive lossy_reachable :: "'s traffic_ops \<Rightarrow> 's \<Rightarrow> 's lossy_ledger \<Rightarrow> bool" for ops s0 where
  lossy_start: "lossy_reachable ops s0 \<lparr>book = new_ledger s0, twice_up = (\<lambda>_. 0), twice_down = (\<lambda>_. 0)\<rparr>"
| lossy_next: "lossy_reachable ops s0 p \<Longrightarrow> lossy_step ops p p1 \<Longrightarrow> lossy_reachable ops s0 p1"

text \<open>The ledger as the agent sees it, without the bytes of lost answers.\<close>

definition agent_view :: "'s lossy_ledger \<Rightarrow> 's ledger" where
  "agent_view p =
     \<lparr>engine = engine (book p), in_flight = in_flight (book p),
      moved_up = moved_up (book p), moved_down = moved_down (book p),
      billed_up = (\<lambda>uuid. billed_up (book p) uuid - twice_up p uuid),
      billed_down = (\<lambda>uuid. billed_down (book p) uuid - twice_down p uuid)\<rparr>"

lemma agent_view_sel [simp]:
  "engine (agent_view p) = engine (book p)" "in_flight (agent_view p) = in_flight (book p)"
  "moved_up (agent_view p) = moved_up (book p)" "moved_down (agent_view p) = moved_down (book p)"
  by (simp_all add: agent_view_def)

text \<open>For the agent a lost answer changes nothing.\<close>

lemma lossy_agent_view:
  assumes "lossy_step ops p p1"
  shows "agent_view p1 = agent_view p \<or> ledger_step ops (agent_view p) (agent_view p1)"
  using assms
proof (cases rule: lossy_step.cases)
  case (lossy_plain l1)
  from lossy_plain(2) show ?thesis
  proof (cases rule: ledger_step.cases)
    case (ledger_traffic uuid u d s1)
    with ledger_step.ledger_traffic [of uuid u d ops "agent_view p" s1] show ?thesis
      by (simp add: lossy_plain(1) agent_view_def)
  next
    case (ledger_internal s1)
    with ledger_step.ledger_internal [of ops "agent_view p" s1] show ?thesis
      by (simp add: lossy_plain(1) agent_view_def)
  next
    case (ledger_report ks m)
    with ledger_step.ledger_report [of "agent_view p" ops ks m] show ?thesis
      by (simp add: lossy_plain(1) agent_view_def)
  next
    case (ledger_accepted rep ks)
    with ledger_step.ledger_accepted [of "agent_view p" rep ops ks] show ?thesis
      by (simp add: lossy_plain(1) agent_view_def algebra_simps)
  next
    case (ledger_failed rep)
    with ledger_step.ledger_failed [of "agent_view p" rep ops] show ?thesis
      by (simp add: lossy_plain(1) agent_view_def)
  qed
next
  case (lossy_taken rep)
  then show ?thesis by (simp add: agent_view_def)
qed

context traffic_store
begin

lemma lossy_balanced:
  assumes "lossy_reachable ops s0 p" and "fresh s0" and "starts_empty fresh"
  shows "balanced (agent_view p)"
  using assms(1)
proof (induction rule: lossy_reachable.induct)
  case lossy_start
  then show ?case using new_ledger_balanced [OF assms(3,2)] by (simp add: agent_view_def new_ledger_def)
next
  case (lossy_next p p1)
  then show ?case using lossy_agent_view [OF lossy_next(2)] step_balanced by fastforce
qed

lemma lossy_totals:
  assumes "lossy_reachable ops s0 p" and "fresh s0" and "starts_empty fresh"
  shows "moved_up (book p) uuid + twice_up p uuid = billed_up (book p) uuid + op_up ops (engine (book p)) uuid"
    and "moved_down (book p) uuid + twice_down p uuid = billed_down (book p) uuid + op_down ops (engine (book p)) uuid"
  using lossy_balanced [OF assms] by (auto simp: balanced_def agent_view_def algebra_simps)

lemma lossy_twice:
  assumes "lossy_reachable ops s0 p" and "fresh s0" and "starts_empty fresh"
  shows "0 \<le> twice_up p uuid \<and> 0 \<le> twice_down p uuid"
  using assms(1)
proof (induction rule: lossy_reachable.induct)
  case (lossy_next p p1)
  from lossy_next(2) show ?case
  proof (cases rule: lossy_step.cases)
    case (lossy_taken rep)
    have "covered (op_up ops (engine (book p))) (op_down ops (engine (book p))) rep"
      using lossy_balanced [OF lossy_next(1) assms(2,3)] lossy_taken(2) by (simp add: balanced_def)
    then have "0 \<le> reported_up rep uuid" "0 \<le> reported_down rep uuid"
      by (auto simp: covered_def reported_up_def reported_down_def split: option.split dest: find_Some_mem)
    with lossy_next.IH show ?thesis by (simp add: lossy_taken(1))
  qed (use lossy_next.IH in simp)
qed simp

end

section \<open>Properties\<close>


text \<open>
  The user of \<open>sample_ledger\<close> has moved 5 bytes up; the panel takes the report of them twice,
  and only the second answer arrives.
\<close>

lemma sample_stats: "cs_stats (engine sample_ledger) = [''u'' \<mapsto> \<lparr>tc_uid = 7, tc_up = 5, tc_down = 6\<rparr>]"
  by (simp add: sample_ledger_def new_ledger_def sample_engine_def caddy_New_def sample_event_def handleEvent_stats
     replaceUsers_def Let_def count_event_def ensure_counter_def range_update_def sample_user_def
     getCounterForEvent_def getCounterWithUID_def tc_add_def setUID_def wrap64_def)

lemma sample_report:
  "caddy_GetUserTrafficSlice [''u''] 0 (engine sample_ledger) =
     [\<lparr>ut_UID = 7, ut_Upload = 5, ut_Download = 6, ut_UUID = ''u''\<rparr>]"
  by (simp add: caddy_GetUserTrafficSlice_def slice_entry_def sample_stats snapshotIfAbove_def Let_def wrap64_def)


end
