(* ===== verification/LimiterRaces.thy ===== *)
theory LimiterRaces
  imports Limiter
begin

text \<open>
  The limiter under concurrent calls (\<^verbatim>\<open>internal/limiter/limiter.go\<close>).  \<open>Limiter\<close> takes each
  method as one step; the code takes no lock in \<open>admit\<close>, \<open>ReleaseIP\<close> and \<open>GetOnlineDevice\<close>
  but does one operation on a \<^verbatim>\<open>sync.Map\<close> after the other, and the engines call them from the
  goroutine of every connection.  Here every such operation is a step of its own, and the
  sets of addresses are objects that a call may hold on to after they left the table.
\<close>

section \<open>The shared state\<close>

text \<open>\<open>sh_table\<close> is \<^verbatim>\<open>UserOnlineIP\<close>; its values are numbers of inner maps in \<open>sh_maps\<close>.\<close>

record shared =
  sh_info :: "string \<rightharpoonup> UserLimitInfo"
  sh_alive :: "int \<rightharpoonup> int"
  sh_table :: "string \<rightharpoonup> nat"
  sh_maps :: "(string \<rightharpoonup> int) list"
  sh_old :: "string \<rightharpoonup> int"

definition put_ip :: "nat \<Rightarrow> string \<Rightarrow> int option \<Rightarrow> shared \<Rightarrow> shared" where
  "put_ip m ip v sh = sh\<lparr>sh_maps := (sh_maps sh)[m := (sh_maps sh ! m)(ip := v)]\<rparr>"

section \<open>admit\<close>

text \<open>
  Where a call is.  \<open>AdmitUnseen\<close> and \<open>AdmitUndo\<close> carry the shared map the address went into,
  or \<open>None\<close> if it is the call's own new map.
\<close>

datatype admit_pc =
    AdmitStart
  | AdmitInfo UserLimitInfo
  | AdmitAlive UserLimitInfo int
  | AdmitShared UserLimitInfo int nat
  | AdmitUnseen UserLimitInfo int "nat option"
  | AdmitForget UserLimitInfo
  | AdmitUndo "nat option"
  | AdmitDone "UserLimitInfo option"

fun admit_step :: "string \<Rightarrow> string \<Rightarrow> admit_pc \<Rightarrow> shared \<Rightarrow> admit_pc \<times> shared" where
  "admit_step uuid ip AdmitStart sh =
     (case sh_info sh uuid of None \<Rightarrow> (AdmitDone None, sh) | Some info \<Rightarrow> (AdmitInfo info, sh))"
| "admit_step uuid ip (AdmitInfo info) sh = (AdmitAlive info (map_get 0 (sh_alive sh) (li_UID info)), sh)"
| "admit_step uuid ip (AdmitAlive info aliveIP) sh =
     (case sh_table sh uuid of
        Some m \<Rightarrow> (AdmitShared info aliveIP m, sh)
      | None \<Rightarrow> (AdmitUnseen info aliveIP None,
                 sh\<lparr>sh_table := (sh_table sh)(uuid \<mapsto> length (sh_maps sh)),
                    sh_maps := sh_maps sh @ [[ip \<mapsto> li_UID info]]\<rparr>))"
| "admit_step uuid ip (AdmitShared info aliveIP m) sh =
     (if (sh_maps sh ! m) ip \<noteq> None then (AdmitDone (Some info), sh)
      else (AdmitUnseen info aliveIP (Some m), put_ip m ip (Some (li_UID info)) sh))"
| "admit_step uuid ip (AdmitUnseen info aliveIP own) sh =
     (case sh_old sh ip of
        Some cachedUID \<Rightarrow> (if cachedUID = li_UID info then AdmitForget info else AdmitDone (Some info), sh)
      | None \<Rightarrow>
          (if li_DeviceLimit info > 0 \<and> li_DeviceLimit info \<le> aliveIP then AdmitUndo own
           else AdmitDone (Some info), sh))"
| "admit_step uuid ip (AdmitForget info) sh = (AdmitDone (Some info), sh\<lparr>sh_old := (sh_old sh)(ip := None)\<rparr>)"
| "admit_step uuid ip (AdmitUndo (Some m)) sh = (AdmitDone None, put_ip m ip None sh)"
| "admit_step uuid ip (AdmitUndo None) sh = (AdmitDone None, sh\<lparr>sh_table := (sh_table sh)(uuid := None)\<rparr>)"
| "admit_step uuid ip (AdmitDone res) sh = (AdmitDone res, sh)"

section \<open>ReleaseIP\<close>

datatype release_pc =
    ReleaseStart
  | ReleaseMap nat
  | ReleaseRange nat
  | ReleaseEmpty
  | ReleaseOld
  | ReleaseInfo int
  | ReleaseForget
  | ReleaseDone

fun release_step :: "string \<Rightarrow> string \<Rightarrow> release_pc \<Rightarrow> shared \<Rightarrow> release_pc \<times> shared" where
  "release_step uuid ip ReleaseStart sh =
     (case sh_table sh uuid of None \<Rightarrow> (ReleaseOld, sh) | Some m \<Rightarrow> (ReleaseMap m, sh))"
| "release_step uuid ip (ReleaseMap m) sh = (ReleaseRange m, put_ip m ip None sh)"
| "release_step uuid ip (ReleaseRange m) sh =
     (if sh_maps sh ! m = Map.empty then ReleaseEmpty else ReleaseOld, sh)"
| "release_step uuid ip ReleaseEmpty sh = (ReleaseOld, sh\<lparr>sh_table := (sh_table sh)(uuid := None)\<rparr>)"
| "release_step uuid ip ReleaseOld sh =
     (case sh_old sh ip of None \<Rightarrow> (ReleaseDone, sh) | Some cachedUID \<Rightarrow> (ReleaseInfo cachedUID, sh))"
| "release_step uuid ip (ReleaseInfo cachedUID) sh =
     (case sh_info sh uuid of
        None \<Rightarrow> (ReleaseDone, sh)
      | Some info \<Rightarrow> (if cachedUID = li_UID info then ReleaseForget else ReleaseDone, sh))"
| "release_step uuid ip ReleaseForget sh = (ReleaseDone, sh\<lparr>sh_old := (sh_old sh)(ip := None)\<rparr>)"
| "release_step uuid ip ReleaseDone sh = (ReleaseDone, sh)"

section \<open>GetOnlineDevice\<close>

text \<open>
  The two Range loops visit users and addresses in orders of their own, here the lists of the
  call; what has gone when its turn comes is passed over.
\<close>

datatype report_pc =
    ReportStart "string list"
  | ReportKeys "OnlineUser list" "string list"
  | ReportIn "OnlineUser list" string nat "string list" "string list"
  | ReportDone "OnlineUser list"

fun report_step :: "(string \<Rightarrow> string list) \<Rightarrow> report_pc \<Rightarrow> shared \<Rightarrow> report_pc \<times> shared" where
  "report_step ips (ReportStart ks) sh = (ReportKeys [] ks, sh\<lparr>sh_old := Map.empty\<rparr>)"
| "report_step ips (ReportKeys users []) sh = (ReportDone users, sh)"
| "report_step ips (ReportKeys users (k # ks)) sh =
     (case sh_table sh k of
        None \<Rightarrow> (ReportKeys users ks, sh)
      | Some m \<Rightarrow> (ReportIn users k m (ips k) ks, sh))"
| "report_step ips (ReportIn users k m [] ks) sh =
     (ReportKeys users ks, sh\<lparr>sh_table := (sh_table sh)(k := None)\<rparr>)"
| "report_step ips (ReportIn users k m (ip # rest) ks) sh =
     (case (sh_maps sh ! m) ip of
        None \<Rightarrow> (ReportIn users k m rest ks, sh)
      | Some uid \<Rightarrow> (ReportIn (users @ [\<lparr>ou_UID = uid, ou_IP = ip\<rparr>]) k m rest ks,
                     sh\<lparr>sh_old := (sh_old sh)(ip \<mapsto> uid)\<rparr>))"
| "report_step ips (ReportDone users) sh = (ReportDone users, sh)"

section \<open>Calls in any interleaving\<close>

datatype limiter_call =
    Admit string string admit_pc
  | Release string string release_pc
  | Report "string \<Rightarrow> string list" report_pc

fun call_step :: "limiter_call \<Rightarrow> shared \<Rightarrow> limiter_call \<times> shared" where
  "call_step (Admit uuid ip pc) sh = (case admit_step uuid ip pc sh of (pc1, sh1) \<Rightarrow> (Admit uuid ip pc1, sh1))"
| "call_step (Release uuid ip pc) sh = (case release_step uuid ip pc sh of (pc1, sh1) \<Rightarrow> (Release uuid ip pc1, sh1))"
| "call_step (Report ips pc) sh = (case report_step ips pc sh of (pc1, sh1) \<Rightarrow> (Report ips pc1, sh1))"

inductive starting :: "limiter_call \<Rightarrow> bool" where
  "starting (Admit uuid (plain_ip ip) AdmitStart)"
| "starting (Release uuid (plain_ip ip) ReleaseStart)"
| "starting (Report ips (ReportStart ks))"

text \<open>
  A user may be deleted meanwhile: \<open>race_forget\<close> and \<open>race_drop\<close> are the two deletions of
  \<open>UpdateUsers\<close>.  The panel's counts stay, as between two polls.
\<close>

inductive race_step :: "shared \<times> limiter_call list \<Rightarrow> shared \<times> limiter_call list \<Rightarrow> bool" where
  race_call: "i < length cs \<Longrightarrow> call_step (cs ! i) sh = (c, sh1) \<Longrightarrow> race_step (sh, cs) (sh1, cs[i := c])"
| race_begin: "starting c \<Longrightarrow> race_step (sh, cs) (sh, cs @ [c])"
| race_forget: "race_step (sh, cs) (sh\<lparr>sh_info := (sh_info sh)(uuid := None)\<rparr>, cs)"
| race_drop: "race_step (sh, cs) (sh\<lparr>sh_table := (sh_table sh)(uuid := None)\<rparr>, cs)"

definition race_start :: "(string \<rightharpoonup> UserLimitInfo) \<Rightarrow> (int \<rightharpoonup> int) \<Rightarrow> shared" where
  "race_start info alive =
     \<lparr>sh_info = info, sh_alive = alive, sh_table = Map.empty, sh_maps = [], sh_old = Map.empty\<rparr>"

inductive race_reachable ::
  "(string \<rightharpoonup> UserLimitInfo) \<Rightarrow> (int \<rightharpoonup> int) \<Rightarrow> shared \<times> limiter_call list \<Rightarrow> bool" for info alive where
  race_new: "race_reachable info alive (race_start info alive, [])"
| race_next: "race_reachable info alive r \<Longrightarrow> race_step r r1 \<Longrightarrow> race_reachable info alive r1"

section \<open>What every interleaving keeps\<close>

text \<open>\<open>full\<close>: the panel counts as many devices of the user as are allowed.\<close>

definition full :: "(int \<rightharpoonup> int) \<Rightarrow> UserLimitInfo \<Rightarrow> bool" where
  "full alive info \<longleftrightarrow> 0 < li_DeviceLimit info \<and> li_DeviceLimit info \<le> map_get 0 alive (li_UID info)"

definition asked_for :: "(string \<rightharpoonup> UserLimitInfo) \<Rightarrow> limiter_call list \<Rightarrow> string \<Rightarrow> int \<Rightarrow> bool" where
  "asked_for info cs ip uid \<longleftrightarrow>
     (\<exists>uuid i pc. info uuid = Some i \<and> li_UID i = uid \<and> Admit uuid ip pc \<in> set cs)"

fun admit_ok :: "(string \<rightharpoonup> UserLimitInfo) \<Rightarrow> (int \<rightharpoonup> int) \<Rightarrow> shared \<Rightarrow> string \<Rightarrow> admit_pc \<Rightarrow> bool" where
  "admit_ok info alive sh uuid AdmitStart \<longleftrightarrow> True"
| "admit_ok info alive sh uuid (AdmitInfo i) \<longleftrightarrow> info uuid = Some i"
| "admit_ok info alive sh uuid (AdmitAlive i n) \<longleftrightarrow> info uuid = Some i \<and> n = map_get 0 alive (li_UID i)"
| "admit_ok info alive sh uuid (AdmitShared i n m) \<longleftrightarrow>
     info uuid = Some i \<and> n = map_get 0 alive (li_UID i) \<and> m < length (sh_maps sh)"
| "admit_ok info alive sh uuid (AdmitUnseen i n own) \<longleftrightarrow>
     info uuid = Some i \<and> n = map_get 0 alive (li_UID i) \<and> (\<forall>m. own = Some m \<longrightarrow> m < length (sh_maps sh))"
| "admit_ok info alive sh uuid (AdmitForget i) \<longleftrightarrow> info uuid = Some i"
| "admit_ok info alive sh uuid (AdmitUndo own) \<longleftrightarrow>
     (\<exists>i. info uuid = Some i \<and> full alive i) \<and> (\<forall>m. own = Some m \<longrightarrow> m < length (sh_maps sh))"
| "admit_ok info alive sh uuid (AdmitDone (Some i)) \<longleftrightarrow> info uuid = Some i"
| "admit_ok info alive sh uuid (AdmitDone None) \<longleftrightarrow> sh_info sh uuid = None \<or> (\<exists>i. info uuid = Some i \<and> full alive i)"

fun call_ok :: "(string \<rightharpoonup> UserLimitInfo) \<Rightarrow> (int \<rightharpoonup> int) \<Rightarrow> shared \<Rightarrow> limiter_call list \<Rightarrow> limiter_call \<Rightarrow> bool" where
  "call_ok info alive sh cs (Admit uuid ip pc) \<longleftrightarrow> admit_ok info alive sh uuid pc"
| "call_ok info alive sh cs (Release uuid ip pc) \<longleftrightarrow>
     (\<forall>m. pc = ReleaseMap m \<or> pc = ReleaseRange m \<longrightarrow> m < length (sh_maps sh))"
| "call_ok info alive sh cs (Report ips pc) \<longleftrightarrow>
     (case pc of
        ReportStart ks \<Rightarrow> True
      | ReportKeys us ks \<Rightarrow> \<forall>u\<in>set us. asked_for info cs (ou_IP u) (ou_UID u)
      | ReportIn us k m rest ks \<Rightarrow> m < length (sh_maps sh) \<and> (\<forall>u\<in>set us. asked_for info cs (ou_IP u) (ou_UID u))
      | ReportDone us \<Rightarrow> \<forall>u\<in>set us. asked_for info cs (ou_IP u) (ou_UID u))"

definition race_ok :: "(string \<rightharpoonup> UserLimitInfo) \<Rightarrow> (int \<rightharpoonup> int) \<Rightarrow> shared \<Rightarrow> limiter_call list \<Rightarrow> bool" where
  "race_ok info alive sh cs \<longleftrightarrow>
     (\<forall>uuid. sh_info sh uuid = None \<or> sh_info sh uuid = info uuid) \<and> sh_alive sh = alive \<and>
     (\<forall>uuid m. sh_table sh uuid = Some m \<longrightarrow> m < length (sh_maps sh)) \<and>
     (\<forall>m<length (sh_maps sh). \<forall>ip uid. (sh_maps sh ! m) ip = Some uid \<longrightarrow> asked_for info cs ip uid) \<and>
     (\<forall>c\<in>set cs. call_ok info alive sh cs c)"

lemma put_ip_sel [simp]:
  "sh_info (put_ip m ip v sh) = sh_info sh" "sh_alive (put_ip m ip v sh) = sh_alive sh"
  "sh_table (put_ip m ip v sh) = sh_table sh" "sh_old (put_ip m ip v sh) = sh_old sh"
  "length (sh_maps (put_ip m ip v sh)) = length (sh_maps sh)"
  by (simp_all add: put_ip_def)

lemma put_ip_at:
  "n < length (sh_maps sh) \<Longrightarrow>
     sh_maps (put_ip m ip v sh) ! n = (if n = m then (sh_maps sh ! m)(ip := v) else sh_maps sh ! n)"
  by (auto simp: put_ip_def nth_list_update)

text \<open>More calls, fewer known users, more maps: what a call relies on stays.\<close>

definition later :: "shared \<Rightarrow> limiter_call list \<Rightarrow> shared \<Rightarrow> limiter_call list \<Rightarrow> bool" where
  "later sh cs sh1 cs1 \<longleftrightarrow>
     (\<forall>uuid. sh_info sh uuid = None \<longrightarrow> sh_info sh1 uuid = None) \<and> length (sh_maps sh) \<le> length (sh_maps sh1) \<and>
     (\<forall>uuid ip pc. Admit uuid ip pc \<in> set cs \<longrightarrow> (\<exists>pc1. Admit uuid ip pc1 \<in> set cs1))"

lemma asked_for_later: "asked_for info cs ip uid \<Longrightarrow> later sh cs sh1 cs1 \<Longrightarrow> asked_for info cs1 ip uid"
  unfolding asked_for_def later_def by blast

lemma admit_ok_later:
  "admit_ok info alive sh uuid pc \<Longrightarrow> later sh cs sh1 cs1 \<Longrightarrow> admit_ok info alive sh1 uuid pc"
  by (induction info alive sh uuid pc rule: admit_ok.induct) (auto simp: later_def)

lemma call_ok_later:
  assumes "call_ok info alive sh cs c" and "later sh cs sh1 cs1"
  shows "call_ok info alive sh1 cs1 c"
proof -
  have "m < length (sh_maps sh) \<Longrightarrow> m < length (sh_maps sh1)" for m using assms(2) by (auto simp: later_def)
  with assms show ?thesis
    by (cases c) (auto intro: admit_ok_later asked_for_later split: report_pc.splits)
qed

text \<open>What a step of a call does to the shared state.\<close>

definition entries_ok :: "(string \<rightharpoonup> UserLimitInfo) \<Rightarrow> shared \<Rightarrow> limiter_call list \<Rightarrow> bool" where
  "entries_ok info sh cs \<longleftrightarrow>
     (\<forall>uuid m. sh_table sh uuid = Some m \<longrightarrow> m < length (sh_maps sh)) \<and>
     (\<forall>m<length (sh_maps sh). \<forall>ip uid. (sh_maps sh ! m) ip = Some uid \<longrightarrow> asked_for info cs ip uid)"

lemma admit_step_ok:
  assumes "admit_step uuid ip pc sh = (pc1, sh1)" and "admit_ok info alive sh uuid pc" and "entries_ok info sh cs"
    and "sh_info sh uuid = None \<or> sh_info sh uuid = info uuid" and "sh_alive sh = alive" and "Admit uuid ip pc \<in> set cs"
  shows "admit_ok info alive sh1 uuid pc1 \<and> entries_ok info sh1 cs \<and> sh_info sh1 = sh_info sh \<and> sh_alive sh1 = alive \<and>
     length (sh_maps sh) \<le> length (sh_maps sh1)"
proof -
  have asked: "info uuid = Some i \<Longrightarrow> asked_for info cs ip (li_UID i)" for i
    using assms(6) by (auto simp: asked_for_def)
  show ?thesis
    using assms(1-5)
    by (cases "(uuid, ip, pc, sh)" rule: admit_step.cases)
      (auto simp: entries_ok_def put_ip_at nth_append full_def asked less_Suc_eq
        split: option.splits if_splits)
qed

lemma release_step_ok:
  assumes "release_step uuid ip pc sh = (pc1, sh1)" and "call_ok info alive sh cs (Release uuid ip pc)"
    and "entries_ok info sh cs"
  shows "call_ok info alive sh1 cs (Release uuid ip pc1) \<and> entries_ok info sh1 cs \<and> sh_info sh1 = sh_info sh \<and>
     sh_alive sh1 = sh_alive sh \<and> length (sh_maps sh) \<le> length (sh_maps sh1)"
  using assms
  by (cases "(uuid, ip, pc, sh)" rule: release_step.cases)
    (auto simp: entries_ok_def put_ip_at split: option.splits if_splits)

lemma report_step_ok:
  assumes "report_step ips pc sh = (pc1, sh1)" and "call_ok info alive sh cs (Report ips pc)"
    and "entries_ok info sh cs"
  shows "call_ok info alive sh1 cs (Report ips pc1) \<and> entries_ok info sh1 cs \<and> sh_info sh1 = sh_info sh \<and>
     sh_alive sh1 = sh_alive sh \<and> length (sh_maps sh) \<le> length (sh_maps sh1)"
  using assms
  by (cases "(ips, pc, sh)" rule: report_step.cases)
    (auto simp: entries_ok_def split: option.splits if_splits)

lemma call_step_ok:
  assumes "call_step c sh = (c1, sh1)" and "race_ok info alive sh cs" and "c \<in> set cs"
  shows "call_ok info alive sh1 cs c1 \<and> entries_ok info sh1 cs \<and> sh_info sh1 = sh_info sh \<and>
     sh_alive sh1 = alive \<and> length (sh_maps sh) \<le> length (sh_maps sh1)"
proof -
  have ok: "call_ok info alive sh cs c" "entries_ok info sh cs" "sh_alive sh = alive"
    "\<And>uuid. sh_info sh uuid = None \<or> sh_info sh uuid = info uuid"
    using assms(2,3) by (auto simp: race_ok_def entries_ok_def)
  show ?thesis
  proof (cases c)
    case (Admit uuid ip pc)
    obtain pc1 where st: "admit_step uuid ip pc sh = (pc1, sh1)" "c1 = Admit uuid ip pc1"
      using assms(1) Admit by (auto split: prod.splits)
    have "admit_ok info alive sh uuid pc" "Admit uuid ip pc \<in> set cs" using ok(1) assms(3) by (simp_all add: Admit)
    from admit_step_ok [OF st(1) this(1) ok(2,4,3) this(2)] show ?thesis by (simp add: st(2))
  next
    case (Release uuid ip pc)
    obtain pc1 where st: "release_step uuid ip pc sh = (pc1, sh1)" "c1 = Release uuid ip pc1"
      using assms(1) Release by (auto split: prod.splits)
    from release_step_ok [OF st(1) ok(1) [unfolded Release] ok(2)] show ?thesis by (simp add: st(2) ok(3))
  next
    case (Report ips pc)
    obtain pc1 where st: "report_step ips pc sh = (pc1, sh1)" "c1 = Report ips pc1"
      using assms(1) Report by (auto split: prod.splits)
    from report_step_ok [OF st(1) ok(1) [unfolded Report] ok(2)] show ?thesis by (simp add: st(2) ok(3))
  qed
qed

lemma call_step_same:
  "call_step (Admit uuid ip pc) sh = (c1, sh1) \<Longrightarrow> \<exists>pc1. c1 = Admit uuid ip pc1"
  by (auto split: prod.splits)

lemma race_step_ok:
  assumes "race_step (sh, cs) (sh1, cs1)" and "race_ok info alive sh cs"
  shows "race_ok info alive sh1 cs1"
  using assms(1)
proof (cases rule: race_step.cases)
  case (race_call i c)
  have mem: "cs ! i \<in> set cs" using race_call(2) by simp
  note st = call_step_ok [OF race_call(3) assms(2) mem]
  have lat: "later sh cs sh1 cs1"
    unfolding later_def
  proof (intro conjI allI impI)
    fix uuid ip pc assume "Admit uuid ip pc \<in> set cs"
    then obtain j where j: "j < length cs" "cs ! j = Admit uuid ip pc" by (auto simp: in_set_conv_nth)
    then have "\<exists>pc1. cs1 ! j = Admit uuid ip pc1"
      using race_call(1,3) call_step_same by (cases "j = i") auto
    moreover have "cs1 ! j \<in> set cs1" using j(1) race_call(1) by simp
    ultimately show "\<exists>pc1. Admit uuid ip pc1 \<in> set cs1" by metis
  qed (use st in auto)
  then have "later sh1 cs sh1 cs1" by (simp add: later_def)
  with st have l1: "call_ok info alive sh1 cs1 c" by (blast intro: call_ok_later)
  have l: "\<And>c. call_ok info alive sh cs c \<Longrightarrow> call_ok info alive sh1 cs1 c"
    "\<And>ip uid. asked_for info cs ip uid \<Longrightarrow> asked_for info cs1 ip uid"
    using lat by (blast intro: call_ok_later asked_for_later)+
  have "\<forall>d\<in>set cs1. call_ok info alive sh1 cs1 d"
    using l(1) l1 assms(2) set_update_subset_insert [of cs i c] race_call(1) by (auto simp: race_ok_def)
  with st l(2) assms(2) show ?thesis by (auto simp: race_ok_def entries_ok_def)
next
  case (race_begin c)
  have "later sh cs sh1 cs1" using race_begin by (auto simp: later_def)
  then have "\<And>d. call_ok info alive sh cs d \<Longrightarrow> call_ok info alive sh1 cs1 d"
    "\<And>ip uid. asked_for info cs ip uid \<Longrightarrow> asked_for info cs1 ip uid"
    by (auto intro: call_ok_later asked_for_later)
  moreover have "call_ok info alive sh1 cs1 c" using race_begin(3) by (cases rule: starting.cases) auto
  ultimately show ?thesis using assms(2) race_begin(1,2) by (auto simp: race_ok_def)
next
  case (race_forget uuid)
  have "later sh cs sh1 cs1" using race_forget by (auto simp: later_def)
  with call_ok_later [OF _ this] assms(2) show ?thesis by (auto simp: race_ok_def race_forget)
next
  case (race_drop uuid)
  have "later sh cs sh1 cs1" using race_drop by (auto simp: later_def)
  with call_ok_later [OF _ this] assms(2) show ?thesis by (auto simp: race_ok_def race_drop split: if_splits)
qed

lemma race_reachable_ok: "race_reachable info alive r \<Longrightarrow> race_ok info alive (fst r) (snd r)"
proof (induction rule: race_reachable.induct)
  case race_new
  then show ?case by (simp add: race_ok_def race_start_def)
next
  case (race_next r r1)
  then show ?case using race_step_ok by (cases r; cases r1) auto
qed

section \<open>A call that runs alone\<close>

primrec alone :: "nat \<Rightarrow> limiter_call \<times> shared \<Rightarrow> limiter_call \<times> shared" where
  "alone 0 s = s"
| "alone (Suc n) s = alone n (call_step (fst s) (snd s))"

lemma alone_add: "alone (n + m) s = alone m (alone n s)"
  by (induction n arbitrary: s) auto

text \<open>The state of \<open>Limiter\<close> that the tables amount to; every user has a map of his own.\<close>

definition represents :: "shared \<Rightarrow> Limiter \<Rightarrow> bool" where
  "represents sh l \<longleftrightarrow>
     sh_info sh = LimitInfo l \<and> sh_alive sh = AliveList l \<and> sh_old sh = OldUserOnline l \<and>
     (\<forall>uuid. UserOnlineIP l uuid = map_option (\<lambda>m. sh_maps sh ! m) (sh_table sh uuid)) \<and>
     (\<forall>uuid m. sh_table sh uuid = Some m \<longrightarrow> m < length (sh_maps sh)) \<and>
     (\<forall>u v m. sh_table sh u = Some m \<longrightarrow> sh_table sh v = Some m \<longrightarrow> u = v)"

lemma represents_table: "represents sh l \<Longrightarrow> UserOnlineIP l uuid = map_option (\<lambda>m. sh_maps sh ! m) (sh_table sh uuid)"
  by (simp add: represents_def)

lemma represents_sel:
  "represents sh l \<Longrightarrow> sh_info sh = LimitInfo l" "represents sh l \<Longrightarrow> sh_alive sh = AliveList l"
  "represents sh l \<Longrightarrow> sh_old sh = OldUserOnline l"
  by (simp_all add: represents_def)

lemma represents_put:
  assumes "represents sh l" and "sh_table sh uuid = Some m"
  shows "represents (put_ip m ip v sh) (l\<lparr>UserOnlineIP := (UserOnlineIP l)(uuid \<mapsto> (sh_maps sh ! m)(ip := v))\<rparr>)"
  using assms by (auto simp: represents_def put_ip_at option.map_sel split: option.splits)
    (auto simp: option.map_comp put_ip_at map_option_case split: option.splits)

lemma represents_new:
  "represents sh l \<Longrightarrow>
     represents (sh\<lparr>sh_table := (sh_table sh)(uuid \<mapsto> length (sh_maps sh)), sh_maps := sh_maps sh @ [f]\<rparr>)
       (l\<lparr>UserOnlineIP := (UserOnlineIP l)(uuid \<mapsto> f)\<rparr>)"
  by (auto simp: represents_def nth_append map_option_case less_Suc_eq split: option.splits)

lemma represents_drop:
  "represents sh l \<Longrightarrow>
     represents (sh\<lparr>sh_table := (sh_table sh)(uuid := None)\<rparr>) (l\<lparr>UserOnlineIP := (UserOnlineIP l)(uuid := None)\<rparr>)"
  by (auto simp: represents_def)

lemma represents_old:
  "represents sh l \<Longrightarrow> represents (sh\<lparr>sh_old := m\<rparr>) (l\<lparr>OldUserOnline := m\<rparr>)"
  by (auto simp: represents_def)

lemma alone_admit:
  fixes uuid ip :: string
  assumes r: "represents sh l"
  defines "res \<equiv> alone 6 (Admit uuid (plain_ip ip) AdmitStart, sh)"
  shows "fst res = Admit uuid (plain_ip ip) (AdmitDone (fst (admit uuid ip l))) \<and> represents (snd res) (snd (admit uuid ip l))"
proof (cases "LimitInfo l uuid")
  case None
  with r show ?thesis by (simp add: res_def admit_def eval_nat_numeral represents_sel)
next
  case (Some i)
  note sel = represents_sel [OF r] and tab = represents_table [OF r, of uuid]
  let ?ip = "plain_ip ip"
  have count: "map_get 0 (AliveList l) (li_UID i) = aliveCount (li_UID i) l" by (simp add: aliveCount_def)
  show ?thesis
  proof (cases "sh_table sh uuid")
    case None
    let ?sh1 = "sh\<lparr>sh_table := (sh_table sh)(uuid \<mapsto> length (sh_maps sh)), sh_maps := sh_maps sh @ [[?ip \<mapsto> li_UID i]]\<rparr>"
    let ?l1 = "l\<lparr>UserOnlineIP := (UserOnlineIP l)(uuid \<mapsto> [?ip \<mapsto> li_UID i])\<rparr>"
    have r1: "represents ?sh1 ?l1" using r by (rule represents_new)
    then show ?thesis
      using represents_drop [OF r1, of uuid] represents_old [OF r1] tab None Some
      by (auto simp: res_def admit_def eval_nat_numeral sel count Let_def split: option.split)
  next
    case (Some m)
    show ?thesis
    proof (cases "(sh_maps sh ! m) ?ip")
      case (Some v)
      with r tab \<open>sh_table sh uuid = Some m\<close> \<open>LimitInfo l uuid = Some i\<close> show ?thesis
        by (simp add: res_def admit_def eval_nat_numeral sel count Let_def)
    next
      case None
      let ?sh1 = "put_ip m ?ip (Some (li_UID i)) sh"
      let ?l1 = "l\<lparr>UserOnlineIP := (UserOnlineIP l)(uuid \<mapsto> (sh_maps sh ! m)(?ip \<mapsto> li_UID i))\<rparr>"
      have r1: "represents ?sh1 ?l1" using represents_put [OF r Some] .
      have m: "m < length (sh_maps sh)" using r Some by (auto simp: represents_def)
      have "represents (put_ip m ?ip None ?sh1) (?l1\<lparr>UserOnlineIP := (UserOnlineIP ?l1)(uuid \<mapsto>
          ((sh_maps sh ! m)(?ip \<mapsto> li_UID i))(?ip := None))\<rparr>)"
        using represents_put [OF r1, of uuid m ?ip None] Some m by (simp add: put_ip_at)
      with r1 show ?thesis
        using represents_old [OF r1] tab None Some \<open>LimitInfo l uuid = Some i\<close>
        by (auto simp: res_def admit_def eval_nat_numeral sel count Let_def split: option.split)
    qed
  qed
qed

lemma alone_done [simp]: "alone n (Release uuid ip ReleaseDone, sh) = (Release uuid ip ReleaseDone, sh)"
  by (induction n) auto

lemma alone_release_old:
  assumes "represents sh l"
  shows "fst (alone (3 + n) (Release uuid ip ReleaseOld, sh)) = Release uuid ip ReleaseDone \<and>
     represents (snd (alone (3 + n) (Release uuid ip ReleaseOld, sh))) (release_old uuid ip l)"
  using assms represents_old [OF assms]
  by (auto simp: eval_nat_numeral release_old_def represents_sel split: option.splits)

lemma alone_release:
  fixes uuid ip :: string
  assumes r: "represents sh l"
  defines "res \<equiv> alone 7 (Release uuid (plain_ip ip) ReleaseStart, sh)"
  shows "fst res = Release uuid (plain_ip ip) ReleaseDone \<and> represents (snd res) (ReleaseIP uuid ip l)"
proof (cases "sh_table sh uuid")
  case None
  then have "res = alone (3 + 3) (Release uuid (plain_ip ip) ReleaseOld, sh)"
    by (simp add: res_def eval_nat_numeral)
  moreover have "release_online uuid (plain_ip ip) l = l"
    using None represents_table [OF r, of uuid] by (simp add: release_online_def)
  ultimately show ?thesis using alone_release_old [OF r, of 3 uuid "plain_ip ip"] by (simp add: ReleaseIP_def Let_def)
next
  case (Some m)
  let ?ip = "plain_ip ip" and ?map = "(sh_maps sh ! m)(plain_ip ip := None)"
  let ?sh1 = "put_ip m ?ip None sh" and ?l1 = "l\<lparr>UserOnlineIP := (UserOnlineIP l)(uuid \<mapsto> ?map)\<rparr>"
  have m: "m < length (sh_maps sh)" using r Some by (auto simp: represents_def)
  have r1: "represents ?sh1 ?l1" by (rule represents_put [OF r Some])
  have tab: "UserOnlineIP l uuid = Some (sh_maps sh ! m)" using represents_table [OF r] Some by simp
  show ?thesis
  proof (cases "?map = Map.empty")
    case True
    have "res = alone (3 + 0) (Release uuid ?ip ReleaseOld, ?sh1\<lparr>sh_table := (sh_table ?sh1)(uuid := None)\<rparr>)"
      using Some True m by (simp add: res_def eval_nat_numeral put_ip_at)
    moreover have "release_online uuid ?ip l = l\<lparr>UserOnlineIP := (UserOnlineIP l)(uuid := None)\<rparr>"
      using tab True by (simp add: release_online_def Let_def)
    moreover have "represents (?sh1\<lparr>sh_table := (sh_table ?sh1)(uuid := None)\<rparr>) (l\<lparr>UserOnlineIP := (UserOnlineIP l)(uuid := None)\<rparr>)"
      using represents_drop [OF r1, of uuid] by simp
    ultimately show ?thesis
      using alone_release_old [where n = 0 and uuid = uuid and ip = ?ip] by (simp add: ReleaseIP_def Let_def)
  next
    case False
    have "res = alone (3 + 1) (Release uuid ?ip ReleaseOld, ?sh1)"
      using Some False m by (simp add: res_def eval_nat_numeral put_ip_at)
    moreover have "release_online uuid ?ip l = ?l1" using tab False by (simp add: release_online_def Let_def)
    ultimately show ?thesis 
      using alone_release_old [OF r1, where n = 1 and uuid = uuid and ip = ?ip] by (simp add: ReleaseIP_def Let_def)
  qed
qed

lemma store_old_record [simp]: "store_old \<lparr>ou_UID = uid, ou_IP = ip\<rparr> m = m(ip \<mapsto> uid)"
  by (simp add: store_old_def)

lemma alone_inner:
  assumes "\<forall>ip\<in>set rest. (sh_maps sh ! m) ip \<noteq> None"
  shows "alone (length rest) (Report ips (ReportIn us k m rest ks), sh) =
     (Report ips (ReportIn (us @ online_of_user (sh_maps sh ! m) rest) k m [] ks),
      sh\<lparr>sh_old := fold store_old (online_of_user (sh_maps sh ! m) rest) (sh_old sh)\<rparr>)"
  using assms
proof (induction rest arbitrary: us sh)
  case (Cons ip rest)
  then obtain uid where "(sh_maps sh ! m) ip = Some uid" by auto
  with Cons.IH [of "sh\<lparr>sh_old := (sh_old sh)(ip \<mapsto> uid)\<rparr>"] Cons.prems show ?case
    by (simp add: online_of_user_def map_get_def fun_upd_def)
qed (simp add: online_of_user_def)

text \<open>The order of the inner loop finds only addresses that are there.\<close>

definition found_in :: "(string \<Rightarrow> string list) \<Rightarrow> Limiter \<Rightarrow> bool" where
  "found_in ips l \<longleftrightarrow> (\<forall>k m. UserOnlineIP l k = Some m \<longrightarrow> set (ips k) \<subseteq> dom m)"

lemma alone_keys:
  assumes "represents sh l" and "found_in ips l"
  shows "\<exists>n sh1. alone n (Report ips (ReportKeys us ks), sh) =
      (Report ips (ReportDone (fst (fold (collect_user ips) ks (us, l)))), sh1) \<and>
      represents sh1 (snd (fold (collect_user ips) ks (us, l)))"
  using assms
proof (induction ks arbitrary: us sh l)
  case Nil
  then show ?case by (intro exI [of _ 1] exI [of _ sh]) simp
next
  case (Cons k ks)
  show ?case
  proof (cases "sh_table sh k")
    case None
    then have c: "collect_user ips k (us, l) = (us, l)"
      using represents_table [OF Cons.prems(1), of k] by (simp add: collect_user_def)
    obtain n sh1 where "alone n (Report ips (ReportKeys us ks), sh) =
        (Report ips (ReportDone (fst (fold (collect_user ips) ks (us, l)))), sh1)"
      "represents sh1 (snd (fold (collect_user ips) ks (us, l)))"
      using Cons.IH [OF Cons.prems] by blast
    with None show ?thesis by (intro exI [of _ "Suc n"] exI [of _ sh1]) (simp add: c)
  next
    case (Some m)
    let ?found = "online_of_user (sh_maps sh ! m) (ips k)"
    let ?sh1 = "sh\<lparr>sh_old := fold store_old ?found (sh_old sh), sh_table := (sh_table sh)(k := None)\<rparr>"
    let ?l1 = "l\<lparr>OldUserOnline := fold store_old ?found (OldUserOnline l), UserOnlineIP := (UserOnlineIP l)(k := None)\<rparr>"
    have tab: "UserOnlineIP l k = Some (sh_maps sh ! m)" using represents_table [OF Cons.prems(1)] Some by simp
    have "\<forall>ip\<in>set (ips k). (sh_maps sh ! m) ip \<noteq> None" using Cons.prems(2) tab by (auto simp: found_in_def)
    from alone_inner [OF this, where ips = ips and us = us and k = k and ks = ks] have st:
      "alone (Suc (length (ips k) + 1)) (Report ips (ReportKeys us (k # ks)), sh) = (Report ips (ReportKeys (us @ ?found) ks), ?sh1)"
      using Some by (simp add: alone_add del: add_Suc_right)
    have c: "collect_user ips k (us, l) = (us @ ?found, ?l1)" by (simp add: collect_user_def tab Let_def)
    have r1: "represents ?sh1 ?l1"
      using represents_drop [OF represents_old [OF Cons.prems(1)], where uuid = k] represents_sel(3) [OF Cons.prems(1)] by simp
    have "found_in ips ?l1" using Cons.prems(2) by (auto simp: found_in_def split: if_splits)
    from Cons.IH [OF r1 this, of "us @ ?found"] obtain n sh2 where n:
      "alone n (Report ips (ReportKeys (us @ ?found) ks), ?sh1) =
         (Report ips (ReportDone (fst (fold (collect_user ips) ks (us @ ?found, ?l1)))), sh2)"
      "represents sh2 (snd (fold (collect_user ips) ks (us @ ?found, ?l1)))"
      by blast
    have "alone (Suc (length (ips k) + 1) + n) (Report ips (ReportKeys us (k # ks)), sh) =
       (Report ips (ReportDone (fst (fold (collect_user ips) (k # ks) (us, l)))), sh2)"
      unfolding alone_add [of "Suc (length (ips k) + 1)"] st n(1) by (simp add: c)
    then show ?thesis using n(2) c by (metis fold_simps(2))
  qed
qed

section \<open>Schedules\<close>

text \<open>The calls take steps in the order of a list of their numbers.\<close>

primrec run_sched :: "nat list \<Rightarrow> shared \<times> limiter_call list \<Rightarrow> shared \<times> limiter_call list" where
  "run_sched [] r = r"
| "run_sched (i # is) r =
     run_sched is (case call_step (snd r ! i) (fst r) of (c, sh) \<Rightarrow> (sh, (snd r)[i := c]))"

lemma run_sched_reachable:
  "race_reachable info alive r \<Longrightarrow> \<forall>i\<in>set is. i < length (snd r) \<Longrightarrow> race_reachable info alive (run_sched is r)"
proof (induction "is" arbitrary: r)
  case (Cons i "is")
  obtain sh cs where r: "r = (sh, cs)" by fastforce
  obtain c sh1 where st: "call_step (cs ! i) sh = (c, sh1)" by fastforce
  have "race_reachable info alive (sh1, cs[i := c])"
    using race_next [OF Cons.prems(1) [unfolded r] race_call [OF _ st]] Cons.prems(2) by (simp add: r)
  from Cons.IH [OF this] Cons.prems(2) show ?case by (simp add: r st)
qed simp

lemma begin_reachable:
  "race_reachable info alive (sh, cs) \<Longrightarrow> starting c \<Longrightarrow> race_reachable info alive (sh, cs @ [c])"
  by (rule race_next [OF _ race_begin])

section \<open>Properties\<close>

text \<open>
  C2. What survives every interleaving of admissions, releases, device reports and deletions
  of users: a call is admitted only as a user that was known, with that user's settings; it
  is refused only if the user is gone or as many devices of the user are alive as are
  allowed, so a user below the limit is never refused; and a device report names an
  address under a user's id only if it was asked for in the name of a user with that id.
\<close>

theorem race_verdicts:
  assumes "race_reachable info alive (sh, cs)"
  shows "(\<forall>uuid ip i. Admit uuid ip (AdmitDone (Some i)) \<in> set cs \<longrightarrow> info uuid = Some i) \<and>
     (\<forall>uuid ip. Admit uuid ip (AdmitDone None) \<in> set cs \<longrightarrow>
        sh_info sh uuid = None \<or> (\<exists>i. info uuid = Some i \<and> full alive i)) \<and>
     (\<forall>ips us. Report ips (ReportDone us) \<in> set cs \<longrightarrow> (\<forall>u\<in>set us. asked_for info cs (ou_IP u) (ou_UID u)))"
proof -
  have "\<forall>c\<in>set cs. call_ok info alive sh cs c" using race_reachable_ok [OF assms] by (simp add: race_ok_def)
  then show ?thesis by fastforce
qed

text \<open>
  C27. The methods of the limiter taken as single steps are what the calls do when nothing
  interferes: from tables that amount to a limiter, the operations of an admission, a
  release or a device report, one after the other, give the answer of \<open>admit\<close>, \<open>ReleaseIP\<close> and
  \<open>GetOnlineDevice\<close> and tables that amount to the limiter they leave.
\<close>

theorem calls_alone_refine:
  assumes "represents sh l"
  shows "(\<exists>sh1. alone 6 (Admit uuid (plain_ip ip) AdmitStart, sh) =
        (Admit uuid (plain_ip ip) (AdmitDone (fst (admit uuid ip l))), sh1) \<and> represents sh1 (snd (admit uuid ip l))) \<and>
     (\<exists>sh1. alone 7 (Release uuid (plain_ip ip) ReleaseStart, sh) = (Release uuid (plain_ip ip) ReleaseDone, sh1) \<and>
        represents sh1 (ReleaseIP uuid ip l)) \<and>
     (found_in ips l \<longrightarrow> (\<exists>n sh1. alone n (Report ips (ReportStart ks), sh) =
        (Report ips (ReportDone (fst (GetOnlineDevice ks ips l))), sh1) \<and> represents sh1 (snd (GetOnlineDevice ks ips l))))"
proof -
  have "\<exists>n sh1. alone n (Report ips (ReportStart ks), sh) =
      (Report ips (ReportDone (fst (GetOnlineDevice ks ips l))), sh1) \<and> represents sh1 (snd (GetOnlineDevice ks ips l))"
    if "found_in ips l"
  proof -
    have "found_in ips (l\<lparr>OldUserOnline := Map.empty\<rparr>)" using that by (simp add: found_in_def)
    from alone_keys [OF represents_old [OF assms] this, of "[]" ks] obtain n sh1 where
      "alone n (Report ips (ReportKeys [] ks), sh\<lparr>sh_old := Map.empty\<rparr>) =
         (Report ips (ReportDone (fst (GetOnlineDevice ks ips l))), sh1)"
      "represents sh1 (snd (GetOnlineDevice ks ips l))"
      by (auto simp: GetOnlineDevice_def)
    then show ?thesis by (intro exI [of _ "Suc n"] exI [of _ sh1]) simp
  qed
  then show ?thesis
    using alone_admit [OF assms, of uuid ip] alone_release [OF assms, of uuid ip] by (metis prod.collapse)
qed

text \<open>
  C28. The device limit can be passed by connecting twice at once.  Of two calls for the same
  new address of a user at the limit, each of which would be refused alone, one can be
  admitted: it finds the address the other has entered and not yet taken out again.  When both
  are through, the admitted address is in no table, so the device report misses it.
\<close>

theorem race_bypasses_device_limit:
  assumes "info uuid = Some i" and "full alive i"
  shows "(\<exists>sh. race_reachable info alive (sh, [Admit uuid (plain_ip ip) (AdmitDone None),
        Admit uuid (plain_ip ip) (AdmitDone (Some i))]) \<and> sh_table sh uuid = None) \<and>
     (\<forall>l. represents (race_start info alive) l \<longrightarrow> fst (admit uuid ip l) = None)"
proof
  let ?c = "Admit uuid (plain_ip ip) AdmitStart"
  have "race_reachable info alive (race_start info alive, [] @ [?c] @ [?c])"
    using begin_reachable [OF begin_reachable [OF race_new starting.intros(1)] starting.intros(1)] by simp
  then have "race_reachable info alive (run_sched [0, 0, 0, 1, 1, 1, 1, 0, 0] (race_start info alive, [?c, ?c]))"
    by (intro run_sched_reachable) auto
  then show "\<exists>sh. race_reachable info alive (sh, [Admit uuid (plain_ip ip) (AdmitDone None),
        Admit uuid (plain_ip ip) (AdmitDone (Some i))]) \<and> sh_table sh uuid = None"
    using assms by (auto simp: race_start_def full_def)
  show "\<forall>l. represents (race_start info alive) l \<longrightarrow> fst (admit uuid ip l) = None"
  proof (intro allI impI)
    fix l assume r: "represents (race_start info alive) l"
    then have "OldUserOnline l = Map.empty" "UserOnlineIP l uuid = None" "LimitInfo l = info" "AliveList l = alive"
      by (auto simp: represents_def race_start_def)
    then show "fst (admit uuid ip l) = None"
      using assms by (simp add: admit_def aliveCount_def full_def Let_def)
  qed
qed

section \<open>Witnesses\<close>

definition full_user :: UserLimitInfo where
  "full_user = \<lparr>li_UID = 7, li_SpeedLimit = 0, li_DeviceLimit = 1, li_DynamicSpeedLimit = 0, li_ExpireTime = 0\<rparr>"

theorem race_bypasses_device_limit_witness:
  "\<exists>sh. race_reachable [''u'' \<mapsto> full_user] [7 \<mapsto> 1] (sh, [Admit ''u'' (plain_ip ''1'') (AdmitDone None),
     Admit ''u'' (plain_ip ''1'') (AdmitDone (Some full_user))]) \<and> sh_table sh ''u'' = None"
proof -
  have "[''u'' \<mapsto> full_user] ''u'' = Some full_user" "full [7 \<mapsto> 1] full_user"
    by (simp_all add: full_def full_user_def map_get_def)
  from race_bypasses_device_limit [where info = "[''u'' \<mapsto> full_user]" and uuid = "''u''" and ip = "''1''", OF this]
  show ?thesis by blast
qed

text \<open>A call of an unknown user beside one of a known user.\<close>

theorem race_verdicts_witness:
  "\<exists>sh cs. race_reachable [''u'' \<mapsto> full_user] Map.empty (sh, cs) \<and>
     Admit ''u'' (plain_ip ''1'') (AdmitDone (Some full_user)) \<in> set cs \<and>
     Admit ''v'' (plain_ip ''1'') (AdmitDone None) \<in> set cs \<and> sh_info sh ''v'' = None"
proof -
  let ?info = "[''u'' \<mapsto> full_user]" and ?cs = "[Admit ''u'' (plain_ip ''1'') AdmitStart, Admit ''v'' (plain_ip ''1'') AdmitStart]"
  let ?r = "run_sched [0, 1, 0, 0, 0] (race_start ?info Map.empty, ?cs)"
  have "race_reachable ?info Map.empty (race_start ?info Map.empty, [] @ [?cs ! 0] @ [?cs ! 1])"
    using begin_reachable [OF begin_reachable [OF race_new starting.intros(1)] starting.intros(1)] by simp
  then have r: "race_reachable ?info Map.empty ?r" by (intro run_sched_reachable) auto
  have cs: "Admit ''u'' (plain_ip ''1'') (AdmitDone (Some full_user)) \<in> set (snd ?r)"
    "Admit ''v'' (plain_ip ''1'') (AdmitDone None) \<in> set (snd ?r)"
    by (simp_all add: race_start_def full_user_def map_get_def)
  have no: "\<nexists>i. ?info ''v'' = Some i" by simp
  obtain sh cs where run: "?r = (sh, cs)" by (metis surj_pair)
  note r1 = r [unfolded run] and cs1 = cs [unfolded run snd_conv]
  have "sh_info sh ''v'' = None" using race_verdicts [OF r1] cs1(2) no by blast
  with r1 cs1 show ?thesis by blast
qed

theorem calls_alone_refine_witness:
  "\<exists>sh1. alone 6 (Admit ''u'' (plain_ip ''1'') AdmitStart, race_start [''u'' \<mapsto> full_user] Map.empty) =
     (Admit ''u'' (plain_ip ''1'') (AdmitDone (Some full_user)), sh1)"
proof -
  let ?l = "\<lparr>NodeSpeedLimit = 0, AliveList = Map.empty, UserOnlineIP = Map.empty, OldUserOnline = Map.empty,
      LimitInfo = [''u'' \<mapsto> full_user], SpeedLimiter = Map.empty, next_bucket = 0\<rparr>"
  have "represents (race_start [''u'' \<mapsto> full_user] Map.empty) ?l" by (simp add: represents_def race_start_def)
  moreover have "fst (admit ''u'' ''1'' ?l) = Some full_user"
    by (simp add: admit_def aliveCount_def map_get_def full_user_def Let_def)
  ultimately show ?thesis using calls_alone_refine [of _ ?l "''u''" "''1''"] by metis
qed

end
