(* ===== verification/CoverStyle.thy ===== *)
theory CoverStyle
  imports Go_Strings
begin

text \<open>The style sheet of the cover site, a constant of \<^verbatim>\<open>internal/caddyproc/server.go\<close>.\<close>

definition join_lines :: "string list \<Rightarrow> string" where
  "join_lines ls = join [CHR 0x0A] ls"

definition coverStylesCSS :: string where
  \<open>coverStylesCSS = join_lines
     ['':root {'',
      ''  color-scheme: light;'',
      ''  --bg: #f4f7fb;'',
      ''  --panel: #ffffff;'',
      ''  --muted: #607086;'',
      ''  --text: #122033;'',
      ''  --line: #d9e2ec;'',
      ''  --accent: #1f6feb;'',
      ''  --accent-soft: rgba(31, 111, 235, 0.12);'',
      ''  --good: #157347;'',
      ''}'',
      [],
      ''* {'',
      ''  box-sizing: border-box;'',
      ''}'',
      [],
      ''html, body {'',
      ''  margin: 0;'',
      ''  padding: 0;'',
      ''  background: linear-gradient(180deg, #f8fbff 0%, var(--bg) 100%);'',
      ''  color: var(--text);'',
      ''  font-family: Inter, -apple-system, BlinkMacSystemFont, "Segoe UI", sans-serif;'',
      ''}'',
      [],
      ''a {'',
      ''  color: inherit;'',
      ''  text-decoration: none;'',
      ''}'',
      [],
      ''body {'',
      ''  min-height: 100vh;'',
      ''}'',
      [],
      ''.shell {'',
      ''  width: min(1120px, calc(100% - 40px));'',
      ''  margin: 0 auto;'',
      ''}'',
      [],
      ''.site-header {'',
      ''  padding: 24px 0 12px;'',
      ''}'',
      [],
      ''.header-row {'',
      ''  display: flex;'',
      ''  align-items: center;'',
      ''  justify-content: space-between;'',
      ''  gap: 24px;'',
      ''}'',
      [],
      ''.brand {'',
      ''  display: flex;'',
      ''  align-items: center;'',
      ''  gap: 14px;'',
      ''  min-width: 0;'',
      ''}'',
      [],
      ''.brand-mark {'',
      ''  width: 42px;'',
      ''  height: 42px;'',
      ''  border-radius: 10px;'',
      ''  display: grid;'',
      ''  place-items: center;'',
      ''  background: linear-gradient(135deg, #0f5bd8 0%, #3b82f6 100%);'',
      ''  color: #fff;'',
      ''  font-size: 15px;'',
      ''  font-weight: 700;'',
      ''}'',
      [],
      ''.brand-copy {'',
      ''  min-width: 0;'',
      ''}'',
      [],
      ''.brand-copy strong,'',
      ''.brand-copy span {'',
      ''  display: block;'',
      ''}'',
      [],
      ''.brand-copy strong {'',
      ''  font-size: 17px;'',
      ''  font-weight: 600;'',
      ''}'',
      [],
      ''.brand-copy span {'',
      ''  color: var(--muted);'',
      ''  font-size: 13px;'',
      ''  margin-top: 2px;'',
      ''}'',
      [],
      ''.nav {'',
      ''  display: flex;'',
      ''  gap: 18px;'',
      ''  flex-wrap: wrap;'',
      ''  justify-content: flex-end;'',
      ''}'',
      [],
      ''.nav a {'',
      ''  color: var(--muted);'',
      ''  font-size: 14px;'',
      ''}'',
      [],
      ''.nav a.active,'',
      ''.nav a:hover {'',
      ''  color: var(--text);'',
      ''}'',
      [],
      ''.hero {'',
      ''  padding: 28px 0 36px;'',
      ''}'',
      [],
      ''.hero-grid {'',
      ''  display: grid;'',
      ''  grid-template-columns: minmax(0, 1.2fr) minmax(280px, 0.8fr);'',
      ''  gap: 22px;'',
      ''}'',
      [],
      ''.panel {'',
      ''  background: var(--panel);'',
      ''  border: 1px solid var(--line);'',
      ''  border-radius: 8px;'',
      ''  box-shadow: 0 8px 30px rgba(16, 24, 40, 0.04);'',
      ''}'',
      [],
      ''.hero-copy {'',
      ''  padding: 34px;'',
      ''}'',
      [],
      ''.eyebrow {'',
      ''  display: inline-flex;'',
      ''  align-items: center;'',
      ''  gap: 8px;'',
      ''  font-size: 12px;'',
      ''  font-weight: 600;'',
      ''  color: var(--accent);'',
      ''  background: var(--accent-soft);'',
      ''  border-radius: 999px;'',
      ''  padding: 8px 12px;'',
      ''}'',
      [],
      ''.hero h1 {'',
      ''  margin: 18px 0 14px;'',
      ''  font-size: clamp(34px, 4vw, 52px);'',
      ''  line-height: 1.04;'',
      ''  font-weight: 650;'',
      ''}'',
      [],
      ''.hero p {'',
      ''  margin: 0;'',
      ''  color: var(--muted);'',
      ''  font-size: 16px;'',
      ''  line-height: 1.75;'',
      ''  max-width: 60ch;'',
      ''}'',
      [],
      ''.metrics {'',
      ''  margin-top: 28px;'',
      ''  display: grid;'',
      ''  grid-template-columns: repeat(3, minmax(0, 1fr));'',
      ''  gap: 12px;'',
      ''}'',
      [],
      ''.metric {'',
      ''  border: 1px solid var(--line);'',
      ''  border-radius: 8px;'',
      ''  padding: 16px 18px;'',
      ''}'',
      [],
      ''.metric strong,'',
      ''.metric span {'',
      ''  display: block;'',
      ''}'',
      [],
      ''.metric strong {'',
      ''  font-size: 24px;'',
      ''  font-weight: 650;'',
      ''}'',
      [],
      ''.metric span {'',
      ''  margin-top: 5px;'',
      ''  color: var(--muted);'',
      ''  font-size: 13px;'',
      ''}'',
      [],
      ''.hero-side {'',
      ''  padding: 28px;'',
      ''}'',
      [],
      ''.side-title {'',
      ''  margin: 0;'',
      ''  font-size: 18px;'',
      ''  font-weight: 600;'',
      ''}'',
      [],
      ''.side-copy {'',
      ''  margin: 10px 0 0;'',
      ''  color: var(--muted);'',
      ''  font-size: 14px;'',
      ''  line-height: 1.7;'',
      ''}'',
      [],
      ''.status-list {'',
      ''  margin: 22px 0 0;'',
      ''  padding: 0;'',
      ''  list-style: none;'',
      ''  display: grid;'',
      ''  gap: 12px;'',
      ''}'',
      [],
      ''.status-item {'',
      ''  border: 1px solid var(--line);'',
      ''  border-radius: 8px;'',
      ''  padding: 14px 16px;'',
      ''  display: flex;'',
      ''  align-items: center;'',
      ''  justify-content: space-between;'',
      ''  gap: 14px;'',
      ''}'',
      [],
      ''.status-item strong,'',
      ''.status-item span {'',
      ''  display: block;'',
      ''}'',
      [],
      ''.status-item strong {'',
      ''  font-size: 14px;'',
      ''  font-weight: 600;'',
      ''}'',
      [],
      ''.status-item span {'',
      ''  color: var(--muted);'',
      ''  font-size: 12px;'',
      ''  margin-top: 3px;'',
      ''}'',
      [],
      ''.pill {'',
      ''  border-radius: 999px;'',
      ''  padding: 7px 11px;'',
      ''  font-size: 12px;'',
      ''  font-weight: 600;'',
      ''}'',
      [],
      ''.pill.good {'',
      ''  color: var(--good);'',
      ''  background: rgba(21, 115, 71, 0.12);'',
      ''}'',
      [],
      ''.sections {'',
      ''  padding-bottom: 48px;'',
      ''}'',
      [],
      ''.section-grid {'',
      ''  display: grid;'',
      ''  grid-template-columns: repeat(3, minmax(0, 1fr));'',
      ''  gap: 16px;'',
      ''}'',
      [],
      ''.section-card {'',
      ''  padding: 22px;'',
      ''}'',
      [],
      ''.section-card h2 {'',
      ''  margin: 0 0 10px;'',
      ''  font-size: 18px;'',
      ''}'',
      [],
      ''.section-card p {'',
      ''  margin: 0;'',
      ''  color: var(--muted);'',
      ''  font-size: 14px;'',
      ''  line-height: 1.75;'',
      ''}'',
      [],
      ''.section-card ul {'',
      ''  margin: 16px 0 0;'',
      ''  padding-left: 18px;'',
      ''  color: var(--muted);'',
      ''  font-size: 14px;'',
      ''  line-height: 1.75;'',
      ''}'',
      [],
      ''.page {'',
      ''  padding: 24px 0 56px;'',
      ''}'',
      [],
      ''.page-hero {'',
      ''  padding: 28px 30px;'',
      ''  margin-bottom: 18px;'',
      ''}'',
      [],
      ''.page-hero h1 {'',
      ''  margin: 0 0 10px;'',
      ''  font-size: 30px;'',
      ''}'',
      [],
      ''.page-hero p {'',
      ''  margin: 0;'',
      ''  color: var(--muted);'',
      ''  font-size: 15px;'',
      ''  line-height: 1.75;'',
      ''}'',
      [],
      ''.status-table,'',
      ''.docs-grid {'',
      ''  display: grid;'',
      ''  gap: 16px;'',
      ''}'',
      [],
      ''.status-row,'',
      ''.doc-card {'',
      ''  padding: 20px 22px;'',
      ''}'',
      [],
      ''.status-row {'',
      ''  display: grid;'',
      ''  grid-template-columns: minmax(0, 1.2fr) minmax(120px, 0.7fr) minmax(160px, 0.8fr);'',
      ''  gap: 14px;'',
      ''  align-items: center;'',
      ''}'',
      [],
      ''.status-row strong,'',
      ''.status-row span {'',
      ''  display: block;'',
      ''}'',
      [],
      ''.status-row strong {'',
      ''  font-size: 15px;'',
      ''  font-weight: 600;'',
      ''}'',
      [],
      ''.status-row span {'',
      ''  color: var(--muted);'',
      ''  font-size: 13px;'',
      ''  margin-top: 4px;'',
      ''}'',
      [],
      ''.doc-card h2 {'',
      ''  margin: 0 0 10px;'',
      ''  font-size: 18px;'',
      ''}'',
      [],
      ''.doc-card p {'',
      ''  margin: 0;'',
      ''  color: var(--muted);'',
      ''  font-size: 14px;'',
      ''  line-height: 1.75;'',
      ''}'',
      [],
      ''.doc-card code {'',
      ''  display: block;'',
      ''  margin-top: 14px;'',
      ''  padding: 14px 16px;'',
      ''  border-radius: 8px;'',
      ''  border: 1px solid var(--line);'',
      ''  background: #f7f9fc;'',
      ''  font-family: ui-monospace, SFMono-Regular, Menlo, monospace;'',
      ''  font-size: 13px;'',
      ''  color: #334155;'',
      ''  white-space: pre-wrap;'',
      ''  word-break: break-word;'',
      ''}'',
      [],
      ''.footer {'',
      ''  padding: 22px 0 36px;'',
      ''  color: var(--muted);'',
      ''  font-size: 13px;'',
      ''}'',
      [],
      ''.footer-row {'',
      ''  display: flex;'',
      ''  align-items: center;'',
      ''  justify-content: space-between;'',
      ''  gap: 14px;'',
      ''  flex-wrap: wrap;'',
      ''}'',
      [],
      ''@media (max-width: 960px) {'',
      ''  .hero-grid,'',
      ''  .section-grid {'',
      ''    grid-template-columns: 1fr;'',
      ''  }'',
      [],
      ''  .status-row {'',
      ''    grid-template-columns: 1fr;'',
      ''  }'',
      ''}'',
      [],
      ''@media (max-width: 640px) {'',
      ''  .shell {'',
      ''    width: min(100% - 24px, 1120px);'',
      ''  }'',
      [],
      ''  .header-row,'',
      ''  .metrics {'',
      ''    grid-template-columns: 1fr;'',
      ''  }'',
      [],
      ''  .hero-copy,'',
      ''  .hero-side,'',
      ''  .page-hero,'',
      ''  .section-card,'',
      ''  .status-row,'',
      ''  .doc-card {'',
      ''    padding: 20px;'',
      ''  }'',
      [],
      ''  .metrics {'',
      ''    display: grid;'',
      ''  }'',
      ''}'']\<close>

end
