(* ===== verification/Go_OS.thy ===== *)
theory Go_OS
  imports Go_Net
begin

text \<open>
  What the program uses of Go's \<^verbatim>\<open>os\<close> and \<^verbatim>\<open>path/filepath\<close> packages on the disk.  A disk is
  a map from paths to entries.  Whether a call is refused by the system, and how much of a
  file a failing write leaves, are arguments.
\<close>

datatype entry = File string | Directory

type_synonym disk = "string \<rightharpoonup> entry"

datatype write_outcome = Written | Refused string | Torn nat string

text \<open>\<^verbatim>\<open>filepath.Dir\<close>, and the paths MkdirAll walks through.\<close>

definition path_Dir :: "string \<Rightarrow> string" where
  "path_Dir path = Clean (rev (dropWhile (\<lambda>c. c \<noteq> CHR ''/'') (rev path)))"

definition ancestors :: "string \<Rightarrow> string list" where
  "ancestors dir =
     (let parts = split_char (CHR ''/'') dir
      in filter (\<lambda>p. p \<noteq> []) (map (\<lambda>n. join ''/'' (take n parts)) [1..<Suc (length parts)]))"

definition make_dir :: "string \<Rightarrow> disk \<Rightarrow> disk" where
  "make_dir dir fs = (if fs dir = None then fs(dir \<mapsto> Directory) else fs)"

definition holds_file :: "disk \<Rightarrow> string \<Rightarrow> bool" where
  "holds_file fs p = (case fs p of Some (File _) \<Rightarrow> True | _ \<Rightarrow> False)"

text \<open>\<open>refused\<close> is the error of MkdirAll, if any, with the number of ancestors made before it.\<close>

definition os_MkdirAll :: "(string \<Rightarrow> (nat \<times> string) option) \<Rightarrow> string \<Rightarrow> disk \<Rightarrow> string option \<times> disk" where
  "os_MkdirAll refused dir fs =
     (if list_ex (holds_file fs) (ancestors dir) then (Some ''not a directory'', fs)
      else (case refused dir of
         Some (made, err) \<Rightarrow> (Some err, fold make_dir (take made (ancestors dir)) fs)
       | None \<Rightarrow> (None, fold make_dir (ancestors dir) fs)))"

definition os_WriteFile :: "(string \<Rightarrow> write_outcome) \<Rightarrow> string \<Rightarrow> string \<Rightarrow> disk \<Rightarrow> string option \<times> disk" where
  "os_WriteFile outcome path data fs =
     (if path = [] then (Some ''no such file or directory'', fs)
      else if fs path = Some Directory then (Some ''is a directory'', fs)
      else (case outcome path of
         Refused err \<Rightarrow> (Some err, fs)
       | Torn n err \<Rightarrow> (Some err, fs(path \<mapsto> File (take n data)))
       | Written \<Rightarrow> (None, fs(path \<mapsto> File data))))"

text \<open>Running one action after another, unless it fails.\<close>

definition and_then ::
  "('w \<Rightarrow> string option \<times> 'w) \<Rightarrow> ('w \<Rightarrow> string option \<times> 'w) \<Rightarrow> 'w \<Rightarrow> string option \<times> 'w" where
  "and_then f g w = (case f w of (Some err, w1) \<Rightarrow> (Some err, w1) | (None, w1) \<Rightarrow> g w1)"

section \<open>Lemmas\<close>

lemma and_then_None:
  "and_then f g w = (None, w2) \<longleftrightarrow> (\<exists>w1. f w = (None, w1) \<and> g w1 = (None, w2))"
  by (auto simp: and_then_def split: prod.split option.split)

lemma make_dir_keeps: "fs p \<noteq> None \<Longrightarrow> make_dir d fs p = fs p"
  by (auto simp: make_dir_def)

lemma fold_make_dir_keeps: "fs p \<noteq> None \<Longrightarrow> fold make_dir ds fs p = fs p"
proof (induction ds arbitrary: fs)
  case (Cons d ds)
  have "make_dir d fs p = fs p" using Cons.prems by (rule make_dir_keeps)
  with Cons show ?case by simp
qed simp

lemma fold_make_dir_Some: "fs p = Some e \<Longrightarrow> fold make_dir ds fs p = Some e"
  by (simp add: fold_make_dir_keeps)

lemma fold_make_dir_file: "fold make_dir ds fs p = Some (File d) \<longleftrightarrow> fs p = Some (File d)"
  by (induction ds arbitrary: fs) (auto simp: make_dir_def)

lemma MkdirAll_keeps_files: "os_MkdirAll refused dir fs = (err, fs1) \<Longrightarrow> fs1 p = Some (File d) \<longleftrightarrow> fs p = Some (File d)"
  by (auto simp: os_MkdirAll_def fold_make_dir_file split: if_splits option.splits)

lemma WriteFile_written:
  "os_WriteFile outcome path data fs = (None, fs1) \<Longrightarrow> fs1 = fs(path \<mapsto> File data)"
  by (auto simp: os_WriteFile_def split: if_splits write_outcome.splits)

lemma WriteFile_other: "os_WriteFile outcome path data fs = (err, fs1) \<Longrightarrow> p \<noteq> path \<Longrightarrow> fs1 p = fs p"
  by (auto simp: os_WriteFile_def split: if_splits write_outcome.splits)

text \<open>Joining a plain name to a directory gives a path that ends in the name.\<close>

lemma split_char_snoc: "c \<notin> set b \<Longrightarrow> split_char c (a @ c # b) = split_char c a @ [b]"
  by (induction a) (auto simp: split_char_single split: list.split)

lemma join_snoc: "join sep (xs @ [x]) = (if xs = [] then x else join sep xs @ sep @ x)"
  by (induction sep xs rule: join.induct) auto

definition plain_name :: "string \<Rightarrow> bool" where
  "plain_name n \<longleftrightarrow> n \<noteq> [] \<and> n \<noteq> ''.'' \<and> n \<noteq> ''..'' \<and> CHR ''/'' \<notin> set n"

lemma path_Join_last:
  assumes "plain_name n"
  shows "\<exists>p. path_Join [d, n] = p @ n"
proof -
  have clean: "\<exists>p. Clean path = p @ n" if "split_char (CHR ''/'') path = pre @ [n]" for path pre
    using assms that by (auto simp: Clean_def Let_def clean_component_def plain_name_def join_snoc)
  have "path_Join [d, n] = Clean (if d = [] then n else d @ ''/'' @ n)"
    using assms by (auto simp: path_Join_def plain_name_def)
  moreover have "split_char (CHR ''/'') (if d = [] then n else d @ ''/'' @ n) =
      (if d = [] then [] else split_char (CHR ''/'') d) @ [n]"
    using assms by (simp add: plain_name_def split_char_single split_char_snoc)
  ultimately show ?thesis using clean by simp
qed

end
