(* ===== verification/CoverSite.thy ===== *)
theory CoverSite
  imports CaddyConfig CoverStyle Go_OS
begin

text \<open>
  The cover site a stranger sees (\<^verbatim>\<open>internal/caddyproc/server.go\<close>): the page templates, the
  replacement of their placeholders by a loop over a map, and the files written to the disk.
\<close>

section \<open>The templates\<close>

definition coverIndexHTML :: string where
  \<open>coverIndexHTML = join_lines
     [''<!doctype html>'',
      ''<html lang="en">'',
      ''<head>'',
      ''  <meta charset="utf-8">'',
      ''  <meta name="viewport" content="width=device-width, initial-scale=1">'',
      ''  <title>{{TITLE}}</title>'',
      ''  <link rel="stylesheet" href="/styles.css">'',
      ''</head>'',
      ''<body>'',
      ''  <header class="site-header">'',
      ''    <div class="shell header-row">'',
      ''      <div class="brand">'',
      ''        <div class="brand-mark">SE</div>'',
      ''        <div class="brand-copy">'',
      ''          <strong>SSW Edge</strong>'',
      ''          <span>{{REGION_LABEL}}</span>'',
      ''        </div>'',
      ''      </div>'',
      ''      <nav class="nav">'',
      ''        <a class="active" href="/">Overview</a>'',
      ''        <a href="/status.html">Status</a>'',
      ''        <a href="/docs.html">Docs</a>'',
      ''      </nav>'',
      ''    </div>'',
      ''  </header>'',
      [],
      ''  <main class="hero">'',
      ''    <div class="shell hero-grid">'',
      ''      <section class="panel hero-copy">'',
      ''        <div class="eyebrow">Regional edge access</div>'',
      ''        <h1>Fast ingress for multi-region transport and API delivery.</h1>'',
      ''        <p>'',
      ''          {{HOSTNAME}} is part of the SSW Edge network, a regional ingress layer built for'',
      ''          low-latency transport, resilient session handoff, and stable access across distributed'',
      ''          points of presence.'',
      ''        </p>'',
      ''        <div class="metrics">'',
      ''          <div class="metric">'',
      ''            <strong>4</strong>'',
      ''            <span>regional edge zones</span>'',
      ''          </div>'',
      ''          <div class="metric">'',
      ''            <strong>99.95%</strong>'',
      ''            <span>network availability target</span>'',
      ''          </div>'',
      ''          <div class="metric">'',
      ''            <strong>24x7</strong>'',
      ''            <span>traffic and health monitoring</span>'',
      ''          </div>'',
      ''        </div>'',
      ''      </section>'',
      [],
      ''      <aside class="panel hero-side">'',
      ''        <h2 class="side-title">Current ingress profile</h2>'',
      ''        <p class="side-copy">'',
      ''          This edge hostname is currently serving the {{REGION_LABEL}} region and participating in'',
      ''          cross-region ingress balancing for the wider SSW Edge fabric.'',
      ''        </p>'',
      ''        <ul class="status-list">'',
      ''          <li class="status-item">'',
      ''            <div>'',
      ''              <strong>{{REGION_LABEL}}</strong>'',
      ''              <span>primary regional ingress</span>'',
      ''            </div>'',
      ''            <span class="pill good">Operational</span>'',
      ''          </li>'',
      ''          <li class="status-item">'',
      ''            <div>'',
      ''              <strong>Protocol stack</strong>'',
      ''              <span>HTTP, TLS, edge transport</span>'',
      ''            </div>'',
      ''            <span class="pill good">Healthy</span>'',
      ''          </li>'',
      ''          <li class="status-item">'',
      ''            <div>'',
      ''              <strong>Routing profile</strong>'',
      ''              <span>multi-entry SNI dispatch enabled</span>'',
      ''            </div>'',
      ''            <span class="pill good">Stable</span>'',
      ''          </li>'',
      ''        </ul>'',
      ''      </aside>'',
      ''    </div>'',
      ''  </main>'',
      [],
      ''  <section class="sections">'',
      ''    <div class="shell section-grid">'',
      ''      <article class="panel section-card">'',
      ''        <h2>Edge routing</h2>'',
      ''        <p>'',
      ''          Regional hostnames are announced through separate ingress entries and routed by SNI to'',
      ''          the appropriate backend handling plane.'',
      ''        </p>'',
      ''      </article>'',
      ''      <article class="panel section-card">'',
      ''        <h2>Transport continuity</h2>'',
      ''        <p>'',
      ''          Session handling is optimized for consistent behavior across regional front doors, even'',
      ''          when user traffic enters through different geographic access points.'',
      ''        </p>'',
      ''      </article>'',
      ''      <article class="panel section-card">'',
      ''        <h2>Operational visibility</h2>'',
      ''        <p>'',
      ''          Edge availability, ingress health, and transport telemetry are monitored continuously with'',
      ''          region-aware reporting.'',
      ''        </p>'',
      ''      </article>'',
      ''    </div>'',
      ''  </section>'',
      [],
      ''  <footer class="footer">'',
      ''    <div class="shell footer-row">'',
      ''      <span>SSW Edge</span>'',
      ''      <span>{{HOSTNAME}}</span>'',
      ''    </div>'',
      ''  </footer>'',
      ''</body>'',
      ''</html>'']\<close>

definition coverStatusHTML :: string where
  \<open>coverStatusHTML = join_lines
     [''<!doctype html>'',
      ''<html lang="en">'',
      ''<head>'',
      ''  <meta charset="utf-8">'',
      ''  <meta name="viewport" content="width=device-width, initial-scale=1">'',
      ''  <title>SSW Edge Status</title>'',
      ''  <link rel="stylesheet" href="/styles.css">'',
      ''</head>'',
      ''<body>'',
      ''  <header class="site-header">'',
      ''    <div class="shell header-row">'',
      ''      <div class="brand">'',
      ''        <div class="brand-mark">SE</div>'',
      ''        <div class="brand-copy">'',
      ''          <strong>SSW Edge</strong>'',
      ''          <span>{{REGION_LABEL}}</span>'',
      ''        </div>'',
      ''      </div>'',
      ''      <nav class="nav">'',
      ''        <a href="/">Overview</a>'',
      ''        <a class="active" href="/status.html">Status</a>'',
      ''        <a href="/docs.html">Docs</a>'',
      ''      </nav>'',
      ''    </div>'',
      ''  </header>'',
      [],
      ''  <main class="page">'',
      ''    <div class="shell">'',
      ''      <section class="panel page-hero">'',
      ''        <h1>Network status</h1>'',
      ''        <p>'',
      ''          Current status for regional ingress and edge services. Last updated {{UPDATED_AT}}.'',
      ''        </p>'',
      ''      </section>'',
      [],
      ''      <section class="status-table">'',
      ''        <div class="panel status-row">'',
      ''          <div>'',
      ''            <strong>Hong Kong ingress</strong>'',
      ''            <span>Regional access and transport handoff</span>'',
      ''          </div>'',
      ''          <span class="pill good">Operational</span>'',
      ''          <span>{{UPDATED_AT}}</span>'',
      ''        </div>'',
      ''        <div class="panel status-row">'',
      ''          <div>'',
      ''            <strong>Singapore ingress</strong>'',
      ''            <span>Regional access and transport handoff</span>'',
      ''          </div>'',
      ''          <span class="pill good">Operational</span>'',
      ''          <span>{{UPDATED_AT}}</span>'',
      ''        </div>'',
      ''        <div class="panel status-row">'',
      ''          <div>'',
      ''            <strong>Japan ingress</strong>'',
      ''            <span>Regional access and transport handoff</span>'',
      ''          </div>'',
      ''          <span class="pill good">Operational</span>'',
      ''          <span>{{UPDATED_AT}}</span>'',
      ''        </div>'',
      ''        <div class="panel status-row">'',
      ''          <div>'',
      ''            <strong>United States ingress</strong>'',
      ''            <span>Regional access and transport handoff</span>'',
      ''          </div>'',
      ''          <span class="pill good">Operational</span>'',
      ''          <span>{{UPDATED_AT}}</span>'',
      ''        </div>'',
      ''      </section>'',
      ''    </div>'',
      ''  </main>'',
      [],
      ''  <footer class="footer">'',
      ''    <div class="shell footer-row">'',
      ''      <span>SSW Edge status</span>'',
      ''      <span>{{HOSTNAME}}</span>'',
      ''    </div>'',
      ''  </footer>'',
      ''</body>'',
      ''</html>'']\<close>

definition coverDocsHTML :: string where
  \<open>coverDocsHTML = join_lines
     [''<!doctype html>'',
      ''<html lang="en">'',
      ''<head>'',
      ''  <meta charset="utf-8">'',
      ''  <meta name="viewport" content="width=device-width, initial-scale=1">'',
      ''  <title>SSW Edge Docs</title>'',
      ''  <link rel="stylesheet" href="/styles.css">'',
      ''</head>'',
      ''<body>'',
      ''  <header class="site-header">'',
      ''    <div class="shell header-row">'',
      ''      <div class="brand">'',
      ''        <div class="brand-mark">SE</div>'',
      ''        <div class="brand-copy">'',
      ''          <strong>SSW Edge</strong>'',
      ''          <span>{{REGION_LABEL}}</span>'',
      ''        </div>'',
      ''      </div>'',
      ''      <nav class="nav">'',
      ''        <a href="/">Overview</a>'',
      ''        <a href="/status.html">Status</a>'',
      ''        <a class="active" href="/docs.html">Docs</a>'',
      ''      </nav>'',
      ''    </div>'',
      ''  </header>'',
      [],
      ''  <main class="page">'',
      ''    <div class="shell">'',
      ''      <section class="panel page-hero">'',
      ''        <h1>Integration notes</h1>'',
      ''        <p>'',
      ''          This hostname belongs to the SSW Edge regional ingress layer. Service consumers typically'',
      ''          connect using region-specific hostnames with transport parameters negotiated over TLS.'',
      ''        </p>'',
      ''      </section>'',
      [],
      ''      <section class="docs-grid">'',
      ''        <article class="panel doc-card">'',
      ''          <h2>Regional addressing</h2>'',
      ''          <p>'',
      ''            Use the region-specific hostname assigned to your ingress profile. Multiple front-door'',
      ''            entries may terminate on different regions while still dispatching based on SNI.'',
      ''          </p>'',
      ''          <code>endpoint = "{{HOSTNAME}}"</code>'',
      ''        </article>'',
      [],
      ''        <article class="panel doc-card">'',
      ''          <h2>Transport expectations</h2>'',
      ''          <p>'',
      ''            Edge listeners accept standard TLS traffic and maintain compatibility with multi-region'',
      ''            ingress balancing. Health and routing policies are applied by the transport layer.'',
      ''          </p>'',
      ''          <code>tls = enabled'',
      ''sni = "{{HOSTNAME}}"'',
      ''region = "{{REGION_LABEL}}"</code>'',
      ''        </article>'',
      [],
      ''        <article class="panel doc-card">'',
      ''          <h2>Status workflow</h2>'',
      ''          <p>'',
      ''            Regional health changes are propagated through ingress monitoring and surfaced through'',
      ''            internal telemetry channels on a rolling basis.'',
      ''          </p>'',
      ''          <code>status: operational'',
      ''updated_at: {{UPDATED_AT}}</code>'',
      ''        </article>'',
      ''      </section>'',
      ''    </div>'',
      ''  </main>'',
      [],
      ''  <footer class="footer">'',
      ''    <div class="shell footer-row">'',
      ''      <span>SSW Edge docs</span>'',
      ''      <span>{{HOSTNAME}}</span>'',
      ''    </div>'',
      ''  </footer>'',
      ''</body>'',
      ''</html>'']\<close>

section \<open>Filling the templates\<close>

definition coverRegionLabel :: "string \<Rightarrow> string" where
  "coverRegionLabel host0 =
     (let host = ToLower (TrimSpace host0) in
      if HasPrefix host ''hk.'' then ''Hong Kong Edge''
      else if HasPrefix host ''jp.'' then ''Japan Edge''
      else if HasPrefix host ''sg.'' then ''Singapore Edge''
      else if HasPrefix host ''us.'' then ''United States Edge''
      else ''Global Edge'')"

text \<open>\<^verbatim>\<open>strings.ReplaceAll\<close> for a non-empty old text.\<close>

function ReplaceAll :: "string \<Rightarrow> string \<Rightarrow> string \<Rightarrow> string" where
  "ReplaceAll s old new =
     (if s = [] \<or> old = [] then s
      else if HasPrefix s old then new @ ReplaceAll (drop (length old) s) old new
      else hd s # ReplaceAll (tl s) old new)"
  by pat_completeness auto
termination
  by (relation "measure (\<lambda>(s, old, new). length s)") auto

declare ReplaceAll.simps [simp del]

text \<open>\<open>ks\<close>: the order the loop over the map of replacements takes.\<close>

definition applyCoverTemplate :: "string list \<Rightarrow> (string \<rightharpoonup> string) \<Rightarrow> string \<Rightarrow> string" where
  "applyCoverTemplate ks replacements template =
     fold (\<lambda>key t. ReplaceAll t key (map_get [] replacements key)) ks template"

definition coverPageData :: "NodeInfo \<Rightarrow> string \<Rightarrow> (string \<rightharpoonup> string)" where
  "coverPageData node statusUpdatedAt =
     (let label = coverRegionLabel (ni_Host node);
          host = (if TrimSpace (ni_Host node) = [] then ''edge.sswnat.com''
                  else TrimSpace (ni_Host node))
      in [''{{TITLE}}'' \<mapsto> ''SSW Edge'', ''{{REGION_LABEL}}'' \<mapsto> label, ''{{HOSTNAME}}'' \<mapsto> host,
          ''{{UPDATED_AT}}'' \<mapsto> statusUpdatedAt])"

text \<open>\<open>order\<close> gives the order of the loop for each of the three pages.\<close>

definition coverSiteFiles ::
  "(string \<Rightarrow> string list) \<Rightarrow> string \<Rightarrow> NodeInfo \<Rightarrow> (string \<rightharpoonup> string)" where
  "coverSiteFiles order statusUpdatedAt node =
     (let pageData = coverPageData node statusUpdatedAt in
      [''index.html'' \<mapsto> applyCoverTemplate (order ''index.html'') pageData coverIndexHTML,
       ''status.html'' \<mapsto> applyCoverTemplate (order ''status.html'') pageData coverStatusHTML,
       ''docs.html'' \<mapsto> applyCoverTemplate (order ''docs.html'') pageData coverDocsHTML,
       ''styles.css'' \<mapsto> coverStylesCSS])"

section \<open>Writing the files\<close>

text \<open>What the disk answers.\<close>

record disk_env =
  de_mkdir :: "string \<Rightarrow> (nat \<times> string) option"
  de_write :: "string \<Rightarrow> write_outcome"

fun write_files :: "disk_env \<Rightarrow> string \<Rightarrow> (string \<rightharpoonup> string) \<Rightarrow> string list \<Rightarrow> disk \<Rightarrow> string option \<times> disk" where
  "write_files env dir files [] fs = (None, fs)"
| "write_files env dir files (relativePath # ks) fs =
     (let fullPath = path_Join [dir, relativePath] in
      and_then (os_MkdirAll (de_mkdir env) (path_Dir fullPath))
        (and_then (os_WriteFile (de_write env) fullPath (map_get [] files relativePath))
          (write_files env dir files ks)) fs)"

text \<open>\<open>ks\<close>: the order of the loop over the files.\<close>

definition writeCoverSite ::
  "disk_env \<Rightarrow> string list \<Rightarrow> (string \<rightharpoonup> string) \<Rightarrow> CaddyServer \<Rightarrow> disk \<Rightarrow> string option \<times> disk" where
  "writeCoverSite env ks files s fs = write_files env (coverDir s) files ks fs"

section \<open>Templates as pieces\<close>

text \<open>A template read as fixed characters and slots for the four placeholders.\<close>

datatype piece = Fixed char | Slot string

definition cover_keys :: "string list" where
  "cover_keys = [''{{TITLE}}'', ''{{REGION_LABEL}}'', ''{{HOSTNAME}}'', ''{{UPDATED_AT}}'']"

function cut_slots :: "string \<Rightarrow> piece list" where
  "cut_slots [] = []"
| "cut_slots (c # s) =
     (if c \<noteq> CHR ''{'' then Fixed c # cut_slots s
      else (case find (HasPrefix (c # s)) cover_keys of
         None \<Rightarrow> Fixed c # cut_slots s
       | Some k \<Rightarrow> Slot k # cut_slots (drop (length k - 1) s)))"
  by pat_completeness auto
termination
  by (relation "measure length") auto

text \<open>The text of the pieces when the slots of \<open>m\<close> are filled and the others left as they are.\<close>

definition piece_text :: "(string \<rightharpoonup> string) \<Rightarrow> piece \<Rightarrow> string" where
  "piece_text m p = (case p of Fixed c \<Rightarrow> [c] | Slot k \<Rightarrow> map_get k m k)"

definition render :: "(string \<rightharpoonup> string) \<Rightarrow> piece list \<Rightarrow> string" where
  "render m ps = concat (map (piece_text m) ps)"

definition tidy :: "piece list \<Rightarrow> bool" where
  "tidy ps \<longleftrightarrow> list_all (\<lambda>p. case p of Fixed c \<Rightarrow> c \<noteq> CHR ''{'' | Slot k \<Rightarrow> k \<in> set cover_keys) ps"

lemma render_simps [simp]:
  "render m [] = []" "render m (p # ps) = piece_text m p @ render m ps"
  by (simp_all add: render_def)

lemma render_cut_slots: "render Map.empty (cut_slots s) = s"
proof (induction s rule: cut_slots.induct)
  case (2 c s)
  show ?case
  proof (cases "find (HasPrefix (c # s)) cover_keys")
    case None
    with 2 show ?thesis by (auto simp: piece_text_def)
  next
    case (Some k)
    then have "k \<in> set cover_keys" and k: "HasPrefix (c # s) k" by (auto simp: find_Some_iff)
    then have "k \<noteq> []" by (auto simp: cover_keys_def)
    from k obtain t where "c # s = k @ t" by (auto simp: HasPrefix_iff)
    with \<open>k \<noteq> []\<close> have "k @ drop (length k - 1) s = c # s" by (cases k) auto
    with 2 Some show ?thesis by (auto simp: piece_text_def)
  qed
qed simp

section \<open>Replacing one placeholder\<close>

lemma ReplaceAll_skip: "\<not> HasPrefix (c # s) old \<Longrightarrow> ReplaceAll (c # s) old new = c # ReplaceAll s old new"
  by (subst ReplaceAll.simps) (cases "old = []"; simp add: ReplaceAll.simps [of s "[]"])

lemma ReplaceAll_hit: "old \<noteq> [] \<Longrightarrow> ReplaceAll (old @ s) old new = new @ ReplaceAll s old new"
  by (subst ReplaceAll.simps) (simp add: HasPrefix_iff)

lemma ReplaceAll_plain:
  "CHR ''{'' \<notin> set w \<Longrightarrow> ReplaceAll (w @ s) (CHR ''{'' # old) new = w @ ReplaceAll s (CHR ''{'' # old) new"
  by (induction w) (auto simp: ReplaceAll_skip HasPrefix_def)

lemma key_shapes:
  "list_all (\<lambda>k. take 2 k = ''{{'' \<and> drop 2 k \<noteq> [] \<and> CHR ''{'' \<notin> set (drop 2 k)) cover_keys"
  by code_simp

lemma key_shape:
  assumes "k \<in> set cover_keys"
  shows "\<exists>c b. k = CHR ''{'' # CHR ''{'' # c # b \<and> CHR ''{'' \<notin> set (c # b)"
proof -
  from assms key_shapes have k: "take 2 k = ''{{''" "drop 2 k \<noteq> []" "CHR ''{'' \<notin> set (drop 2 k)"
    by (auto simp: list_all_iff)
  then obtain c b where "drop 2 k = c # b" by (cases "drop 2 k") auto
  with k show ?thesis by (metis append_take_drop_id append_Cons append_Nil)
qed

lemma key_letters: "list_all (\<lambda>k. list_all (\<lambda>key. k ! 2 = key ! 2 \<longrightarrow> k = key) cover_keys) cover_keys"
  by code_simp

lemma key_letter: "k \<in> set cover_keys \<Longrightarrow> key \<in> set cover_keys \<Longrightarrow> k ! 2 = key ! 2 \<Longrightarrow> k = key"
  using key_letters by (simp add: list_all_iff)

lemma key_clash:
  "k \<in> set cover_keys \<Longrightarrow> key \<in> set cover_keys \<Longrightarrow> k \<noteq> key \<Longrightarrow> \<not> HasPrefix (k @ s) key"
  using key_letter [of k key] key_shape [of k] key_shape [of key] by (auto simp: HasPrefix_def)

lemma ReplaceAll_other_key:
  assumes "k \<in> set cover_keys" and "key \<in> set cover_keys" and "k \<noteq> key"
  shows "ReplaceAll (k @ s) key new = k @ ReplaceAll s key new"
proof -
  obtain c b where k: "k = CHR ''{'' # CHR ''{'' # c # b" "CHR ''{'' \<notin> set (c # b)"
    using key_shape [OF assms(1)] by blast
  obtain d e where key: "key = CHR ''{'' # CHR ''{'' # d # e"
    using key_shape [OF assms(2)] by blast
  have "ReplaceAll (k @ s) key new = CHR ''{'' # ReplaceAll (CHR ''{'' # (c # b) @ s) key new"
    using key_clash [OF assms, of s] by (simp add: k ReplaceAll_skip)
  also have "ReplaceAll (CHR ''{'' # (c # b) @ s) key new = CHR ''{'' # ReplaceAll ((c # b) @ s) key new"
    using k by (intro ReplaceAll_skip) (auto simp: key HasPrefix_def)
  also have "ReplaceAll ((c # b) @ s) key new = (c # b) @ ReplaceAll s key new"
    unfolding key using k(2) by (rule ReplaceAll_plain)
  finally show ?thesis by (simp add: k)
qed

lemma ReplaceAll_render:
  assumes "tidy ps" and "key \<in> set cover_keys" and "m key = None"
    and "\<forall>w\<in>ran m. CHR ''{'' \<notin> set w"
  shows "ReplaceAll (render m ps) key new = render (m(key \<mapsto> new)) ps"
  using assms(1)
proof (induction ps)
  case Nil
  then show ?case by (simp add: ReplaceAll.simps)
next
  case (Cons p ps)
  obtain old where key: "key = CHR ''{'' # old" using key_shape [OF assms(2)] by blast
  have IH: "ReplaceAll (render m ps) key new = render (m(key \<mapsto> new)) ps"
    using Cons unfolding tidy_def by (simp only: list.pred_inject simp_thms)
  have "ReplaceAll (piece_text m p @ render m ps) key new =
      piece_text (m(key \<mapsto> new)) p @ ReplaceAll (render m ps) key new"
  proof (cases p)
    case (Fixed c)
    with Cons.prems ReplaceAll_plain [of "[c]"] show ?thesis by (auto simp: key tidy_def piece_text_def)
  next
    case (Slot k)
    with Cons.prems have k: "k \<in> set cover_keys" by (simp add: tidy_def)
    consider "k = key" | w where "k \<noteq> key" "m k = Some w" | "k \<noteq> key" "m k = None"
      by (cases "m k") auto
    then show ?thesis
    proof cases
      case 1
      with Slot assms(3) ReplaceAll_hit [of key] show ?thesis by (simp add: piece_text_def key)
    next
      case 2
      then have "CHR ''{'' \<notin> set w" using assms(4) by (auto intro: ranI)
      with 2 Slot show ?thesis by (simp add: piece_text_def ReplaceAll_plain key)
    next
      case 3
      with Slot show ?thesis by (simp add: piece_text_def ReplaceAll_other_key [OF k assms(2)])
    qed
  qed
  with IH show ?case by (simp del: fun_upd_apply)
qed

section \<open>Replacing all of them\<close>

lemma fold_ReplaceAll_render:
  assumes "tidy ps" and "distinct ks" and "set ks \<subseteq> set cover_keys" and "\<forall>k\<in>set ks. m k = None"
    and "\<forall>w\<in>ran m. CHR ''{'' \<notin> set w" and "\<forall>k\<in>set ks. CHR ''{'' \<notin> set (value k)"
  shows "fold (\<lambda>key t. ReplaceAll t key (value key)) ks (render m ps) =
     render (\<lambda>k. if k \<in> set ks then Some (value k) else m k) ps"
  using assms(2-)
proof (induction ks arbitrary: m)
  case (Cons k ks)
  have "ReplaceAll (render m ps) k (value k) = render (m(k \<mapsto> value k)) ps"
    using Cons.prems by (intro ReplaceAll_render assms(1)) auto
  moreover have "fold (\<lambda>key t. ReplaceAll t key (value key)) ks (render (m(k \<mapsto> value k)) ps) =
      render (\<lambda>j. if j \<in> set ks then Some (value j) else (m(k \<mapsto> value k)) j) ps"
    using Cons.prems by (intro Cons.IH) (auto simp: ran_def)
  moreover have "(\<lambda>j. if j \<in> set ks then Some (value j) else (m(k \<mapsto> value k)) j) =
      (\<lambda>j. if j \<in> set (k # ks) then Some (value j) else m j)"
    by auto
  ultimately show ?case by simp
qed simp

lemma applyCoverTemplate_render:
  assumes "tidy (cut_slots template)" and "range_order replacements ks"
    and "dom replacements \<subseteq> set cover_keys" and "\<forall>w\<in>ran replacements. CHR ''{'' \<notin> set w"
  shows "applyCoverTemplate ks replacements template = render replacements (cut_slots template)"
proof -
  have ks: "distinct ks" "set ks = dom replacements" using assms(2) by (auto simp: range_order_def)
  have "CHR ''{'' \<notin> set (map_get [] replacements k)" for k
    using assms(4) by (cases "replacements k") (auto intro: ranI)
  then have "applyCoverTemplate ks replacements template =
      render (\<lambda>k. if k \<in> set ks then Some (map_get [] replacements k) else None) (cut_slots template)"
    using fold_ReplaceAll_render [OF assms(1) ks(1), of Map.empty "map_get [] replacements"] ks(2) assms(3)
    by (simp add: applyCoverTemplate_def render_cut_slots)
  moreover have "(\<lambda>k. if k \<in> set ks then Some (map_get [] replacements k) else None) = replacements"
    using ks(2) by (auto simp: fun_eq_iff map_get_def dom_def split: option.split)
  ultimately show ?thesis by simp
qed

lemma render_no_brace:
  assumes "tidy ps" and "set cover_keys \<subseteq> dom m" and "\<forall>w\<in>ran m. CHR ''{'' \<notin> set w"
  shows "CHR ''{'' \<notin> set (render m ps)"
proof -
  have "CHR ''{'' \<notin> set (piece_text m p)" if "p \<in> set ps" for p
  proof (cases p)
    case (Fixed c)
    with that assms(1) show ?thesis by (auto simp: tidy_def list_all_iff piece_text_def)
  next
    case (Slot k)
    with that assms(1,2) obtain w where "m k = Some w" by (fastforce simp: tidy_def list_all_iff)
    with Slot assms(3) show ?thesis by (auto simp: piece_text_def ran_def)
  qed
  then show ?thesis by (auto simp: render_def)
qed

text \<open>A template is cut line by line.\<close>

lemma find_key:
  assumes "k \<in> set cover_keys"
  shows "find (HasPrefix (k @ s)) cover_keys = Some k"
proof -
  obtain j where "find (HasPrefix (k @ s)) cover_keys = Some j"
    using assms by (cases "find (HasPrefix (k @ s)) cover_keys") (auto simp: find_None_iff)
  then have "j \<in> set cover_keys" "HasPrefix (k @ s) j" by (auto simp: find_Some_iff)
  with assms key_clash have "j = k" by blast
  with \<open>find (HasPrefix (k @ s)) cover_keys = Some j\<close> show ?thesis by simp
qed

lemma cut_slots_append: "tidy (cut_slots a) \<Longrightarrow> cut_slots (a @ b) = cut_slots a @ cut_slots b"
proof (induction a rule: cut_slots.induct)
  case (2 c s)
  show ?case
  proof (cases "c = CHR ''{''")
    case False
    with 2 show ?thesis by (simp add: tidy_def)
  next
    case True
    with 2(4) obtain k where f: "find (HasPrefix (c # s)) cover_keys = Some k"
      by (cases "find (HasPrefix (c # s)) cover_keys") (auto simp: tidy_def)
    then have k: "k \<in> set cover_keys" "HasPrefix (c # s) k" by (auto simp: find_Some_iff)
    then obtain t where t: "c # s = k @ t" by (auto simp: HasPrefix_iff)
    from key_shape [OF k(1)] t obtain k1 where k1: "k = c # k1" by auto
    with t have s: "s = k1 @ t" by simp
    have "tidy (cut_slots t)" using 2(4) True f s k1 by (simp add: tidy_def)
    then have "cut_slots (t @ b) = cut_slots t @ cut_slots b" using 2(3) [of k] True f s k1 by simp
    moreover have "find (HasPrefix (c # s @ b)) cover_keys = Some k"
      using find_key [OF k(1), of "t @ b"] by (simp add: s k1)
    ultimately show ?thesis using True f s k1 by simp
  qed
qed simp

lemma tidy_append: "tidy (cut_slots a) \<Longrightarrow> tidy (cut_slots b) \<Longrightarrow> tidy (cut_slots (a @ b))"
  by (simp add: cut_slots_append) (simp add: tidy_def)

lemma tidy_join_lines: "list_all (\<lambda>l. tidy (cut_slots l)) ls \<Longrightarrow> tidy (cut_slots (join_lines ls))"
  unfolding join_lines_def
proof (induction "[CHR 0x0A]" ls rule: join.induct)
  case (3 x y xs)
  have "tidy (cut_slots [CHR 0x0A])" by code_simp
  with 3 have "tidy (cut_slots ([CHR 0x0A] @ join [CHR 0x0A] (y # xs)))" by (intro tidy_append) simp_all
  with 3 show ?case by (simp add: tidy_append)
qed (simp_all add: tidy_def)

text \<open>The three templates.\<close>

lemma coverIndexHTML_tidy: "tidy (cut_slots coverIndexHTML)"
  unfolding coverIndexHTML_def by (rule tidy_join_lines) code_simp

lemma coverStatusHTML_tidy: "tidy (cut_slots coverStatusHTML)"
  unfolding coverStatusHTML_def by (rule tidy_join_lines) code_simp

lemma coverDocsHTML_tidy: "tidy (cut_slots coverDocsHTML)"
  unfolding coverDocsHTML_def by (rule tidy_join_lines) code_simp

lemmas templates_tidy = coverIndexHTML_tidy coverStatusHTML_tidy coverDocsHTML_tidy

lemma TrimLeftSpace_subset: "set (TrimLeftSpace s) \<subseteq> set s"
proof (induction s rule: TrimLeftSpace.induct)
  case (1 s)
  then show ?case
    by (subst TrimLeftSpace.simps) (auto dest: set_drop_subset [THEN subsetD])
qed

lemma TrimRightSpace_subset: "set (TrimRightSpace s) \<subseteq> set s"
proof (induction s rule: TrimRightSpace.induct)
  case (1 s)
  then show ?case
    by (subst TrimRightSpace.simps) (auto dest: set_take_subset [THEN subsetD])
qed

lemma TrimSpace_subset: "set (TrimSpace s) \<subseteq> set s"
  using TrimLeftSpace_subset TrimRightSpace_subset by (fastforce simp: TrimSpace_def)

lemma coverPageData_dom: "dom (coverPageData node updated) = set cover_keys"
  by (auto simp: coverPageData_def cover_keys_def Let_def)

lemma ran_four: "ran [k1 \<mapsto> x1, k2 \<mapsto> x2, k3 \<mapsto> x3, k4 \<mapsto> x4] \<subseteq> {x1, x2, x3, x4}"
  by (auto simp: ran_def split: if_splits)

lemma region_label_plain: "CHR ''{'' \<notin> set (coverRegionLabel host)"
  unfolding coverRegionLabel_def Let_def by (simp split: if_split)

lemma coverPageData_plain:
  assumes "CHR ''{'' \<notin> set (ni_Host node)" and "CHR ''{'' \<notin> set updated"
  shows "\<forall>w\<in>ran (coverPageData node updated). CHR ''{'' \<notin> set w"
proof -
  have "CHR ''{'' \<notin> set (TrimSpace (ni_Host node))" using assms(1) TrimSpace_subset by blast
  then have plain: "\<forall>w\<in>{''SSW Edge'', coverRegionLabel (ni_Host node),
      if TrimSpace (ni_Host node) = [] then ''edge.sswnat.com'' else TrimSpace (ni_Host node), updated}.
      CHR ''{'' \<notin> set w"
    using assms(2) region_label_plain by simp
  have "ran (coverPageData node updated) \<subseteq> {''SSW Edge'', coverRegionLabel (ni_Host node),
      if TrimSpace (ni_Host node) = [] then ''edge.sswnat.com'' else TrimSpace (ni_Host node), updated}"
    unfolding coverPageData_def Let_def by (rule ran_four)
  then show ?thesis by (intro ballI bspec [OF plain]) (erule subsetD)
qed

section \<open>Properties\<close>

lemma cover_template_tidy:
  "template \<in> {coverIndexHTML, coverStatusHTML, coverDocsHTML} \<Longrightarrow> tidy (cut_slots template)"
  using templates_tidy by (elim insertE emptyE) simp_all

text \<open>
  The pages come out the same whatever order the loop over the map of replacements takes,
  and no placeholder is left in them: every slot of a template holds the title, the region,
  the host name or the time, and everything else is as in the template.  (A host name
  with a brace in it could name a placeholder itself, and is excluded.)
\<close>

theorem cover_pages_any_order:
  assumes "template \<in> {coverIndexHTML, coverStatusHTML, coverDocsHTML}"
    and "range_order (coverPageData node updated) ks"
    and "CHR ''{'' \<notin> set (ni_Host node)" and "CHR ''{'' \<notin> set updated"
  shows "applyCoverTemplate ks (coverPageData node updated) template =
       render (coverPageData node updated) (cut_slots template) \<and>
     CHR ''{'' \<notin> set (applyCoverTemplate ks (coverPageData node updated) template)"
proof -
  note tidy = cover_template_tidy [OF assms(1)] and plain = coverPageData_plain [OF assms(3,4)]
  have "applyCoverTemplate ks (coverPageData node updated) template =
      render (coverPageData node updated) (cut_slots template)"
    by (rule applyCoverTemplate_render [OF tidy assms(2) _ plain]) (simp add: coverPageData_dom)
  then show ?thesis using render_no_brace [OF tidy _ plain] by (simp add: coverPageData_dom)
qed

theorem cover_pages_any_order_witness:
  "CHR ''{'' \<notin> set (applyCoverTemplate cover_keys (coverPageData sample_node ''2024'') coverDocsHTML)"
proof -
  have "range_order (coverPageData sample_node ''2024'') cover_keys"
    unfolding range_order_def coverPageData_dom by code_simp
  moreover have "CHR ''{'' \<notin> set (ni_Host sample_node)" and "CHR ''{'' \<notin> set ''2024''"
    by (simp_all add: sample_node_def)
  ultimately show ?thesis using cover_pages_any_order [of coverDocsHTML] by blast
qed

section \<open>Properties of the files\<close>

text \<open>The four files have four different paths, whatever the directory.\<close>

definition cover_names :: "string list" where
  "cover_names = [''index.html'', ''status.html'', ''docs.html'', ''styles.css'']"

lemma coverSiteFiles_dom: "dom (coverSiteFiles order updated node) = set cover_names"
  by (auto simp: coverSiteFiles_def cover_names_def Let_def)

lemma cover_names_plain: "list_all plain_name cover_names"
  by code_simp

lemma cover_names_suffix:
  "list_all (\<lambda>m. list_all (\<lambda>n. m = n \<or> drop (length m - 8) m \<noteq> drop (length n - 8) n) cover_names) cover_names"
  by code_simp

lemma cover_names_long: "list_all (\<lambda>n. 8 \<le> length n) cover_names"
  by code_simp

lemma cover_names_not_config:
  "list_all (\<lambda>n. drop (length n - 8) n \<noteq> ''addyfile'') cover_names"
  by code_simp

lemma cover_path_last8:
  assumes "n \<in> set cover_names"
  shows "drop (length (path_Join [dir, n]) - 8) (path_Join [dir, n]) = drop (length n - 8) n"
proof -
  from assms cover_names_plain have "plain_name n" by (simp add: list_all_iff)
  then obtain p where "path_Join [dir, n] = p @ n" using path_Join_last by blast
  moreover have "8 \<le> length n" using assms cover_names_long by (simp add: list_all_iff)
  ultimately show ?thesis by simp
qed

lemma cover_paths_differ:
  assumes "m \<in> set cover_names" and "n \<in> set cover_names" and "path_Join [dir, m] = path_Join [dir, n]"
  shows "m = n"
proof -
  have "drop (length m - 8) m = drop (length n - 8) n"
    using cover_path_last8 [OF assms(1), of dir] cover_path_last8 [OF assms(2), of dir] assms(3) by simp
  with cover_names_suffix assms(1,2) show ?thesis by (auto simp: list_all_iff)
qed

lemma cover_not_config:
  assumes "name \<in> set cover_names"
  shows "path_Join [dir, name] \<noteq> path_Join [work, ''Caddyfile'']"
proof
  assume eq: "path_Join [dir, name] = path_Join [work, ''Caddyfile'']"
  have "plain_name ''Caddyfile''" by code_simp
  then obtain p where "path_Join [work, ''Caddyfile''] = p @ ''Caddyfile''" using path_Join_last by blast
  then have "drop (length (path_Join [dir, name]) - 8) (path_Join [dir, name]) = ''addyfile''"
    using eq by simp
  with cover_path_last8 [OF assms] cover_names_not_config assms show False by (simp add: list_all_iff)
qed

lemma write_files_written:
  assumes "write_files env dir files ks fs = (None, fs1)" and "set ks \<subseteq> set cover_names" and "distinct ks"
  shows "(\<forall>k\<in>set ks. fs1 (path_Join [dir, k]) = Some (File (map_get [] files k))) \<and>
     (\<forall>p d. p \<notin> (\<lambda>k. path_Join [dir, k]) ` set ks \<longrightarrow> (fs1 p = Some (File d) \<longleftrightarrow> fs p = Some (File d)))"
  using assms
proof (induction ks arbitrary: fs)
  case (Cons k ks)
  let ?p = "path_Join [dir, k]"
  obtain fsa fsb where a: "os_MkdirAll (de_mkdir env) (path_Dir ?p) fs = (None, fsa)"
    and b: "os_WriteFile (de_write env) ?p (map_get [] files k) fsa = (None, fsb)"
    and c: "write_files env dir files ks fsb = (None, fs1)"
    using Cons.prems(1) by (auto simp: Let_def and_then_None)
  have IH: "\<forall>k\<in>set ks. fs1 (path_Join [dir, k]) = Some (File (map_get [] files k))"
    "p \<notin> (\<lambda>k. path_Join [dir, k]) ` set ks \<Longrightarrow> fs1 p = Some (File d) \<longleftrightarrow> fsb p = Some (File d)" for p d
    using Cons.IH [OF c] Cons.prems(2,3) by auto
  have fsb: "fsb = fsa(?p \<mapsto> File (map_get [] files k))" by (rule WriteFile_written [OF b])
  have "?p \<notin> (\<lambda>k. path_Join [dir, k]) ` set ks"
    using cover_paths_differ [of k _ dir] Cons.prems(2,3) by auto
  with IH have "fs1 ?p = Some (File (map_get [] files k))" by (simp add: fsb)
  moreover have "fs1 p = Some (File d) \<longleftrightarrow> fs p = Some (File d)"
    if "p \<notin> (\<lambda>k. path_Join [dir, k]) ` set (k # ks)" for p d
    using that IH(2) [of p d] MkdirAll_keeps_files [OF a] by (simp add: fsb)
  ultimately show ?case using IH(1) by auto
qed simp

text \<open>
  When writing the cover site reports no error, the four files are on the disk whole and with
  the contents of \<^verbatim>\<open>coverSiteFiles\<close>, in whatever order they are written, and no other
  file of the disk has changed.
\<close>

theorem cover_site_written:
  assumes "writeCoverSite env ks (coverSiteFiles order updated node) s fs = (None, fs1)"
    and "range_order (coverSiteFiles order updated node) ks"
  shows "(\<forall>name content. coverSiteFiles order updated node name = Some content \<longrightarrow>
       fs1 (path_Join [coverDir s, name]) = Some (File content)) \<and>
     (\<forall>p d. p \<notin> (\<lambda>name. path_Join [coverDir s, name]) ` set cover_names \<longrightarrow>
       (fs1 p = Some (File d) \<longleftrightarrow> fs p = Some (File d)))"
proof -
  let ?files = "coverSiteFiles order updated node"
  have ks: "distinct ks" "set ks = set cover_names" "set ks = dom ?files"
    using assms(2) by (auto simp: range_order_def coverSiteFiles_dom)
  have "write_files env (coverDir s) ?files ks fs = (None, fs1)"
    using assms(1) by (simp add: writeCoverSite_def)
  from write_files_written [OF this _ ks(1)] ks(2)
  have w: "\<forall>k\<in>dom ?files. fs1 (path_Join [coverDir s, k]) = Some (File (map_get [] ?files k))"
    "\<forall>p d. p \<notin> (\<lambda>name. path_Join [coverDir s, name]) ` set cover_names \<longrightarrow>
       (fs1 p = Some (File d) \<longleftrightarrow> fs p = Some (File d))"
    using ks(3) by auto
  from w(1) have "fs1 (path_Join [coverDir s, name]) = Some (File content)"
    if "?files name = Some content" for name content
    using that by (auto simp: dom_def)
  with w(2) show ?thesis by blast
qed

end
