(* ===== verification/CaddyProcess.thy ===== *)
theory CaddyProcess
  imports CoverSite
begin

text \<open>
  The Caddy process with everything Start and Close do to the machine
  (\<^verbatim>\<open>internal/caddyproc/server.go\<close>): the files on the disk, the processes, the channel on
  which the goroutine that waits for the process reports its end, and the authorisation
  listener.  \<open>CaddyConfig\<close> keeps of this only whether a command is recorded and a listener
  open; that view is shown to be an abstraction of this one.

  Start and Close hold the engine's mutex, so they are single steps; the process may end at
  any moment between them and during the polling.
\<close>

section \<open>The machine\<close>

text \<open>
  A process: its command line, directory, added environment and the channel its waiting
  goroutine sends to.  \<open>wd_cmd\<close> and \<open>wd_done\<close> are the fields \<open>cmd\<close> (with its Process) and
  \<open>done\<close> of the engine; channels are numbered and hold what has been sent and not received.
\<close>

record proc =
  pr_cmd :: "string list"
  pr_dir :: string
  pr_env :: "string list"
  pr_chan :: nat
  pr_alive :: bool

record caddy_world =
  wd_cmd :: "nat option option"
  wd_done :: "nat option"
  wd_auth :: "string option"
  wd_procs :: "proc list"
  wd_chans :: "string option list list"
  wd_disk :: disk

text \<open>A call returns, panics, or blocks for ever.\<close>

datatype 'a outcome = Returned 'a | Panicked | Blocked

definition make_chan :: "string option list \<Rightarrow> caddy_world \<Rightarrow> nat \<times> caddy_world" where
  "make_chan buf w = (length (wd_chans w), w\<lparr>wd_chans := wd_chans w @ [buf]\<rparr>)"

definition chan_send :: "nat \<Rightarrow> string option \<Rightarrow> caddy_world \<Rightarrow> caddy_world" where
  "chan_send ch v w = w\<lparr>wd_chans := (wd_chans w)[ch := wd_chans w ! ch @ [v]]\<rparr>"

text \<open>Receiving; \<open>None\<close>: nothing is there, as always on a nil channel.\<close>

definition chan_recv :: "nat option \<Rightarrow> caddy_world \<Rightarrow> (string option \<times> caddy_world) option" where
  "chan_recv ch w =
     (case ch of
        None \<Rightarrow> None
      | Some i \<Rightarrow>
          (case wd_chans w ! i of
             [] \<Rightarrow> None
           | v # vs \<Rightarrow> Some (v, w\<lparr>wd_chans := (wd_chans w)[i := vs]\<rparr>)))"

text \<open>A process ends with the error \<open>r\<close> of Wait, which its goroutine sends.\<close>

definition proc_exit :: "nat \<Rightarrow> string option \<Rightarrow> caddy_world \<Rightarrow> caddy_world" where
  "proc_exit pid r w =
     (if pid < length (wd_procs w) \<and> pr_alive (wd_procs w ! pid)
      then chan_send (pr_chan (wd_procs w ! pid)) r
             (w\<lparr>wd_procs := (wd_procs w)[pid := (wd_procs w ! pid)\<lparr>pr_alive := False\<rparr>]\<rparr>)
      else w)"

section \<open>Waiting for the admin endpoint\<close>

text \<open>One round: the end of the process if it comes before it, and what the endpoint answers.\<close>

datatype admin_reply = NoAnswer | Answered int

type_synonym round = "string option option \<times> admin_reply"

definition round_exit :: "nat \<Rightarrow> round \<Rightarrow> caddy_world \<Rightarrow> caddy_world" where
  "round_exit pid rd w = (case fst rd of None \<Rightarrow> w | Some r \<Rightarrow> proc_exit pid r w)"

fun run_waitReady :: "string \<Rightarrow> nat \<Rightarrow> round list \<Rightarrow> caddy_world \<Rightarrow> string option \<times> caddy_world" where
  "run_waitReady adminAddr pid [] w =
     (Some (''caddy admin endpoint did not become ready: '' @ adminAddr), w)"
| "run_waitReady adminAddr pid (rd # rds) w =
     (let w1 = round_exit pid rd w in
      case chan_recv (wd_done w1) w1 of
        Some (err, w2) \<Rightarrow>
          (let (replacement, w3) = make_chan [err] w2
           in (Some (case err of
                 None \<Rightarrow> ''caddy exited before becoming ready''
               | Some e \<Rightarrow> ''caddy exited early: '' @ e), w3\<lparr>wd_done := Some replacement\<rparr>))
      | None \<Rightarrow>
          (case snd rd of
             Answered status \<Rightarrow>
               if status \<ge> 200 \<and> status < 500 then (None, w1) else run_waitReady adminAddr pid rds w1
           | NoAnswer \<Rightarrow> run_waitReady adminAddr pid rds w1))"

section \<open>Stopping\<close>

definition run_stopAuth :: "caddy_world \<Rightarrow> caddy_world" where
  "run_stopAuth w = w\<lparr>wd_auth := None\<rparr>"

text \<open>
  \<open>term\<close>: how the process ends within five seconds of the signal, if it does.  A killed
  process ends; the last receive waits for that.
\<close>

definition run_stopLocked :: "string option option \<Rightarrow> caddy_world \<Rightarrow> caddy_world outcome" where
  "run_stopLocked term w =
     (case wd_cmd w of
        None \<Rightarrow> Returned w
      | Some proc \<Rightarrow>
          (let done = wd_done w;
               w1 = w\<lparr>wd_cmd := None, wd_done := None\<rparr> in
           case proc of
             None \<Rightarrow> Returned (run_stopAuth w1)
           | Some pid \<Rightarrow>
               (let w2 = (case term of None \<Rightarrow> w1 | Some r \<Rightarrow> proc_exit pid r w1) in
                case chan_recv done w2 of
                  Some (_, w3) \<Rightarrow> Returned (run_stopAuth w3)
                | None \<Rightarrow>
                    (let w3 = proc_exit pid (Some ''signal: killed'') w2 in
                     case chan_recv done w3 of
                       Some (_, w4) \<Rightarrow> Returned (run_stopAuth w4)
                     | None \<Rightarrow> Blocked))))"

section \<open>Starting\<close>

text \<open>
  What Start meets: the binary's Stat, the disk, the orders of the loops, the time in the
  cover pages, the listener, the pipes, the start of the command, the rounds of polling, and
  how the process would react to the signal.
\<close>

record machine =
  mc_stat :: "string \<Rightarrow> string option"
  mc_disk :: disk_env
  mc_pages :: "string \<Rightarrow> string list"
  mc_files :: "string list"
  mc_updated :: string
  mc_listen :: "string + string"
  mc_stdoutPipe :: "string option"
  mc_stderrPipe :: "string option"
  mc_cmdStart :: "string option"
  mc_rounds :: "round list"
  mc_term :: "string option option"

definition run_startAuth :: "string + string \<Rightarrow> caddy_world \<Rightarrow> string option \<times> caddy_world" where
  "run_startAuth listen w =
     (if wd_auth w \<noteq> None then (None, w)
      else (case listen of
              Inl err \<Rightarrow> (Some err, w)
            | Inr addr \<Rightarrow> (None, w\<lparr>wd_auth := Some addr\<rparr>)))"

definition authAddr :: "caddy_world \<Rightarrow> string" where
  "authAddr w = (case wd_auth w of None \<Rightarrow> [] | Some addr \<Rightarrow> addr)"

definition caddy_command :: "CaddyServer \<Rightarrow> string \<Rightarrow> nat \<Rightarrow> proc" where
  "caddy_command s addr ch =
     \<lparr>pr_cmd = [rc_CaddyPath (cs_runtime s), ''run'', ''--config'', cs_configPath s, ''--adapter'', ''caddyfile''],
      pr_dir = cs_workDir s,
      pr_env = [''V2NAIVE_AUTH_URL=http://'' @ addr @ ''/authorize'',
                ''V2NAIVE_RELEASE_URL=http://'' @ addr @ ''/release''],
      pr_chan = ch, pr_alive = True\<rparr>"

text \<open>The command is started, its channel made, and both are recorded.\<close>

definition launch :: "CaddyServer \<Rightarrow> caddy_world \<Rightarrow> nat \<times> caddy_world" where
  "launch s w =
     (let (ch, w1) = make_chan [] w; pid = length (wd_procs w1)
      in (pid, w1\<lparr>wd_procs := wd_procs w1 @ [caddy_command s (authAddr w1) ch],
                  wd_cmd := Some (Some pid), wd_done := Some ch\<rparr>))"

text \<open>The files: the working directory, the cover site, the Caddyfile.\<close>

definition write_site :: "machine \<Rightarrow> CaddyServer \<Rightarrow> disk \<Rightarrow> string option \<times> disk" where
  "write_site m s fs =
     writeCoverSite (mc_disk m) (mc_files m)
       (coverSiteFiles (mc_pages m) (mc_updated m) (cs_node s)) s fs"

definition run_Start :: "machine \<Rightarrow> CaddyServer \<Rightarrow> caddy_world \<Rightarrow> (string option \<times> caddy_world) outcome" where
  "run_Start m s w =
     (if wd_cmd w \<noteq> None then Returned (None, w)
      else if TrimSpace (rc_CaddyPath (cs_runtime s)) = [] then Returned (Some ''caddy path is empty'', w)
      else (case mc_stat m (rc_CaddyPath (cs_runtime s)) of
        Some err \<Rightarrow> Returned (Some (''stat caddy binary failed: '' @ err), w)
      | None \<Rightarrow>
      (case os_MkdirAll (de_mkdir (mc_disk m)) (cs_workDir s) (wd_disk w) of
        (Some err, fs) \<Rightarrow> Returned (Some (''create work dir failed: '' @ err), w\<lparr>wd_disk := fs\<rparr>)
      | (None, fs1) \<Rightarrow>
      (case write_site m s fs1 of
        (Some err, fs) \<Rightarrow> Returned (Some (''write cover site failed: '' @ err), w\<lparr>wd_disk := fs\<rparr>)
      | (None, fs2) \<Rightarrow>
      (case renderConfig s of
        None \<Rightarrow> Panicked
      | Some config \<Rightarrow>
      (case os_WriteFile (de_write (mc_disk m)) (cs_configPath s) config fs2 of
        (Some err, fs) \<Rightarrow> Returned (Some (''write caddyfile failed: '' @ err), w\<lparr>wd_disk := fs\<rparr>)
      | (None, fs3) \<Rightarrow>
      (case run_startAuth (mc_listen m) (w\<lparr>wd_disk := fs3\<rparr>) of
        (Some err, w1) \<Rightarrow> Returned (Some (''start auth server failed: '' @ err), w1)
      | (None, w1) \<Rightarrow>
      (case mc_stdoutPipe m of
        Some err \<Rightarrow> Returned (Some (''get caddy stdout pipe failed: '' @ err), run_stopAuth w1)
      | None \<Rightarrow>
      (case mc_stderrPipe m of
        Some err \<Rightarrow> Returned (Some (''get caddy stderr pipe failed: '' @ err), run_stopAuth w1)
      | None \<Rightarrow>
      (case mc_cmdStart m of
        Some err \<Rightarrow> Returned (Some (''start caddy failed: '' @ err), run_stopAuth w1)
      | None \<Rightarrow>
      (case launch s w1 of
        (pid, w2) \<Rightarrow>
          (case run_waitReady (cs_adminAddr s) pid (mc_rounds m) w2 of
             (None, w3) \<Rightarrow> Returned (None, w3)
           | (Some err, w3) \<Rightarrow>
               (case run_stopLocked (mc_term m) w3 of
                  Returned w4 \<Rightarrow> Returned (Some err, w4)
                | Panicked \<Rightarrow> Panicked
                | Blocked \<Rightarrow> Blocked)))))))))))))"

section \<open>The invariant\<close>

text \<open>
  No process lives but the recorded one, which was started; its channel is the recorded
  one and holds its end exactly when it has ended.
\<close>

definition alive_at :: "caddy_world \<Rightarrow> nat \<Rightarrow> bool" where
  "alive_at w i \<longleftrightarrow> i < length (wd_procs w) \<and> pr_alive (wd_procs w ! i)"

definition none_alive :: "caddy_world \<Rightarrow> bool" where
  "none_alive w \<longleftrightarrow> (\<forall>i. \<not> alive_at w i)"

definition only_alive :: "nat \<Rightarrow> caddy_world \<Rightarrow> bool" where
  "only_alive pid w \<longleftrightarrow> (\<forall>i. i \<noteq> pid \<longrightarrow> \<not> alive_at w i)"

definition running_ok :: "nat \<Rightarrow> caddy_world \<Rightarrow> bool" where
  "running_ok pid w \<longleftrightarrow>
     wd_cmd w = Some (Some pid) \<and> wd_auth w \<noteq> None \<and> pid < length (wd_procs w) \<and>
     only_alive pid w \<and>
     (\<exists>ch. wd_done w = Some ch \<and> ch < length (wd_chans w) \<and>
        (if alive_at w pid then pr_chan (wd_procs w ! pid) = ch \<and> wd_chans w ! ch = []
         else \<exists>r. wd_chans w ! ch = [r]))"

definition stopped_ok :: "caddy_world \<Rightarrow> bool" where
  "stopped_ok w \<longleftrightarrow> wd_cmd w = None \<and> wd_auth w = None \<and> none_alive w"

definition world_ok :: "caddy_world \<Rightarrow> bool" where
  "world_ok w \<longleftrightarrow> stopped_ok w \<or> (\<exists>pid. running_ok pid w)"

lemma alive_at_frame [simp]:
  "alive_at (w\<lparr>wd_chans := cs\<rparr>) i = alive_at w i" "alive_at (w\<lparr>wd_done := d\<rparr>) i = alive_at w i"
  "alive_at (w\<lparr>wd_cmd := c\<rparr>) i = alive_at w i" "alive_at (w\<lparr>wd_auth := a\<rparr>) i = alive_at w i"
  "alive_at (w\<lparr>wd_disk := fs\<rparr>) i = alive_at w i"
  by (simp_all add: alive_at_def)

lemma running_okE:
  assumes "running_ok pid w"
  obtains (alive) ch where "wd_cmd w = Some (Some pid)" "wd_auth w \<noteq> None" "wd_done w = Some ch"
      "alive_at w pid" "pr_chan (wd_procs w ! pid) = ch" "ch < length (wd_chans w)" "wd_chans w ! ch = []"
  | (ended) ch r where "wd_cmd w = Some (Some pid)" "wd_auth w \<noteq> None" "wd_done w = Some ch"
      "none_alive w" "ch < length (wd_chans w)" "wd_chans w ! ch = [r]"
proof (cases "alive_at w pid")
  case True
  with assms that(1) show ?thesis by (auto simp: running_ok_def)
next
  case False
  with assms have "none_alive w" by (metis running_ok_def none_alive_def only_alive_def)
  with False assms that(2) show ?thesis by (auto simp: running_ok_def)
qed

lemma proc_exit_dead [simp]: "\<not> alive_at w pid \<Longrightarrow> proc_exit pid r w = w"
  by (auto simp: proc_exit_def alive_at_def)

lemma proc_exit_alive:
  "alive_at w pid \<Longrightarrow> proc_exit pid r w =
     chan_send (pr_chan (wd_procs w ! pid)) r
       (w\<lparr>wd_procs := (wd_procs w)[pid := (wd_procs w ! pid)\<lparr>pr_alive := False\<rparr>]\<rparr>)"
  by (simp add: proc_exit_def alive_at_def)

lemma chan_send_sel [simp]:
  "wd_cmd (chan_send ch v w) = wd_cmd w" "wd_done (chan_send ch v w) = wd_done w"
  "wd_auth (chan_send ch v w) = wd_auth w" "wd_procs (chan_send ch v w) = wd_procs w"
  "wd_disk (chan_send ch v w) = wd_disk w"
  by (simp_all add: chan_send_def)

lemma proc_exit_sel [simp]:
  "wd_cmd (proc_exit pid r w) = wd_cmd w" "wd_done (proc_exit pid r w) = wd_done w"
  "wd_auth (proc_exit pid r w) = wd_auth w" "wd_disk (proc_exit pid r w) = wd_disk w"
  "length (wd_procs (proc_exit pid r w)) = length (wd_procs w)"
  by (simp_all add: proc_exit_def)

lemma alive_at_exit [simp]: "alive_at (proc_exit pid r w) i \<longleftrightarrow> alive_at w i \<and> i \<noteq> pid"
  by (auto simp: proc_exit_def alive_at_def nth_list_update)

lemma proc_exit_chans:
  "alive_at w pid \<Longrightarrow>
     wd_chans (proc_exit pid r w) =
       (wd_chans w)[pr_chan (wd_procs w ! pid) := wd_chans w ! pr_chan (wd_procs w ! pid) @ [r]]"
  by (simp add: proc_exit_alive chan_send_def)

lemma only_alive_exit: "only_alive pid w \<Longrightarrow> only_alive pid (proc_exit i r w)"
  by (simp add: only_alive_def)

lemma proc_exit_running:
  assumes "running_ok pid w"
  shows "running_ok pid (proc_exit pid r w)"
proof (cases "alive_at w pid")
  case True
  with assms show ?thesis by (auto simp: running_ok_def proc_exit_chans only_alive_exit)
next
  case False
  with assms show ?thesis by simp
qed

text \<open>Processes only change by ending.\<close>

definition ended_only :: "nat \<Rightarrow> proc list \<Rightarrow> proc list \<Rightarrow> bool" where
  "ended_only pid ps qs \<longleftrightarrow> (\<exists>b. qs = ps[pid := (ps ! pid)\<lparr>pr_alive := b\<rparr>])"

lemma ended_only_refl: "ended_only pid ps ps"
  by (auto simp: ended_only_def intro!: exI [of _ "pr_alive (ps ! pid)"])

lemma ended_only_trans: "ended_only pid ps qs \<Longrightarrow> ended_only pid qs rs \<Longrightarrow> ended_only pid ps rs"
  by (cases "pid < length ps") (auto simp: ended_only_def list_update_beyond)

lemma proc_exit_procs: "ended_only pid (wd_procs w) (wd_procs (proc_exit pid r w))"
  using ended_only_refl by (auto simp: proc_exit_def ended_only_def)

text \<open>A process that is not recorded is not alive, so its end changes nothing.\<close>

lemma proc_exit_ok:
  assumes "world_ok w"
  shows "world_ok (proc_exit i r w)"
proof (cases "alive_at w i")
  case True
  with assms obtain pid where "running_ok pid w"
    by (auto simp: world_ok_def stopped_ok_def none_alive_def)
  moreover from this True have "i = pid" by (auto simp: running_ok_def only_alive_def)
  ultimately show ?thesis by (auto simp: world_ok_def intro: proc_exit_running)
next
  case False
  with assms show ?thesis by simp
qed

section \<open>Stopping and waiting\<close>

lemma chan_recv_recorded:
  "wd_done w = Some ch \<Longrightarrow> chan_recv (wd_done w) w =
     (case wd_chans w ! ch of [] \<Rightarrow> None | v # vs \<Rightarrow> Some (v, w\<lparr>wd_chans := (wd_chans w)[ch := vs]\<rparr>))"
  by (simp add: chan_recv_def)

lemma stopped_okI:
  "none_alive w \<Longrightarrow> wd_cmd w = None \<Longrightarrow> stopped_ok (run_stopAuth w)"
  by (simp add: stopped_ok_def run_stopAuth_def none_alive_def alive_at_def)

lemma stop_running:
  assumes "running_ok pid w"
  shows "\<exists>w1. run_stopLocked term w = Returned w1 \<and> stopped_ok w1"
  using assms
proof (cases rule: running_okE)
  case (alive ch)
  let ?w1 = "w\<lparr>wd_cmd := None, wd_done := None\<rparr>"
  have only: "alive_at ?w1 i \<longleftrightarrow> i = pid" for i
    using assms alive(4) by (auto simp: running_ok_def only_alive_def alive_at_def)
  then have a: "alive_at ?w1 pid" by simp
  have ends: "\<exists>w2. chan_recv (Some ch) (proc_exit pid r ?w1) = Some (r, w2) \<and>
      none_alive w2 \<and> wd_cmd w2 = None" for r
  proof -
    have "none_alive (proc_exit pid r ?w1)" using only by (simp add: none_alive_def)
    then have "none_alive (proc_exit pid r ?w1\<lparr>wd_chans := cs\<rparr>)" for cs
      by (simp add: none_alive_def alive_at_def)
    then show ?thesis using alive(5-7) by (simp add: chan_recv_def proc_exit_chans [OF a])
  qed
  show ?thesis
  proof (cases "term")
    case None
    moreover have "chan_recv (Some ch) ?w1 = None" using alive(7) by (simp add: chan_recv_def)
    ultimately show ?thesis
      using ends [of "Some ''signal: killed''"] alive(1,3)
      by (auto simp: run_stopLocked_def Let_def intro: stopped_okI)
  next
    case (Some r)
    with ends [of r] alive(1,3) show ?thesis
      by (auto simp: run_stopLocked_def Let_def intro: stopped_okI)
  qed
next
  case (ended ch r)
  let ?w1 = "w\<lparr>wd_cmd := None, wd_done := None\<rparr>"
  have dead: "\<not> alive_at ?w1 i" for i using ended(4) by (simp add: none_alive_def alive_at_def)
  have "(case term of None \<Rightarrow> ?w1 | Some r \<Rightarrow> proc_exit pid r ?w1) = ?w1"
    using dead by (cases "term") simp_all
  moreover have "chan_recv (Some ch) ?w1 = Some (r, ?w1\<lparr>wd_chans := (wd_chans w)[ch := []]\<rparr>)"
    using ended(6) by (simp add: chan_recv_def)
  moreover have "none_alive (?w1\<lparr>wd_chans := (wd_chans w)[ch := []]\<rparr>)"
    using dead by (simp add: none_alive_def alive_at_def)
  ultimately show ?thesis
    using ended(1,3) by (auto simp: run_stopLocked_def Let_def intro: stopped_okI)
qed

lemma stop_ok:
  assumes "world_ok w"
  shows "\<exists>w1. run_stopLocked term w = Returned w1 \<and> stopped_ok w1"
  using assms stop_running by (auto simp: world_ok_def stopped_ok_def run_stopLocked_def)

lemma waitReady_ok:
  assumes "running_ok pid w"
  shows "running_ok pid (snd (run_waitReady adminAddr pid rds w)) \<and>
     (fst (run_waitReady adminAddr pid rds w) = None \<longrightarrow>
        alive_at (snd (run_waitReady adminAddr pid rds w)) pid) \<and>
     wd_disk (snd (run_waitReady adminAddr pid rds w)) = wd_disk w \<and>
     wd_auth (snd (run_waitReady adminAddr pid rds w)) = wd_auth w \<and>
     ended_only pid (wd_procs w) (wd_procs (snd (run_waitReady adminAddr pid rds w)))"
  using assms
proof (induction rds arbitrary: w)
  case (Cons rd rds)
  let ?w1 = "round_exit pid rd w"
  have w1: "running_ok pid ?w1" "wd_disk ?w1 = wd_disk w" "wd_auth ?w1 = wd_auth w"
    "ended_only pid (wd_procs w) (wd_procs ?w1)"
    using Cons.prems
    by (simp_all add: round_exit_def proc_exit_running proc_exit_procs ended_only_refl split: option.split)
  from w1(1) show ?case
  proof (cases rule: running_okE)
    case (alive ch)
    with Cons.IH [OF w1(1)] w1 show ?thesis
      by (cases "snd rd") (auto simp: chan_recv_def Let_def intro: ended_only_trans)
  next
    case (ended ch r)
    moreover have "\<not> alive_at ?w1 i" for i using ended(4) by (simp add: none_alive_def)
    ultimately show ?thesis
      using w1 by (auto simp: chan_recv_def Let_def make_chan_def running_ok_def only_alive_def nth_append)
  qed
qed (simp add: ended_only_refl)

section \<open>The abstract view\<close>

definition abs_world :: "caddy_world \<Rightarrow> CaddyProcess" where
  "abs_world w = \<lparr>cp_cmd = (wd_cmd w \<noteq> None), cp_auth = wd_auth w\<rparr>"

definition abs_round :: "round \<Rightarrow> poll" where
  "abs_round rd =
     (case fst rd of
        Some r \<Rightarrow> ProcessExited r
      | None \<Rightarrow> (case snd rd of NoAnswer \<Rightarrow> AdminUnreachable | Answered status \<Rightarrow> AdminStatus status))"

text \<open>The outcomes of the steps of Start on this machine.\<close>

definition abs_env :: "machine \<Rightarrow> CaddyServer \<Rightarrow> caddy_world \<Rightarrow> start_env" where
  "abs_env m s w =
     (let made = os_MkdirAll (de_mkdir (mc_disk m)) (cs_workDir s) (wd_disk w);
          site = write_site m s (snd made)
      in \<lparr>env_stat = mc_stat m (rc_CaddyPath (cs_runtime s)),
          env_mkdir = fst made,
          env_cover = fst site,
          env_writeConfig = fst (os_WriteFile (de_write (mc_disk m)) (cs_configPath s)
             (the (renderConfig s)) (snd site)),
          env_listen = mc_listen m, env_stdoutPipe = mc_stdoutPipe m,
          env_stderrPipe = mc_stderrPipe m, env_cmdStart = mc_cmdStart m\<rparr>)"

lemma waitReady_abs:
  assumes "running_ok pid w" and "alive_at w pid"
  shows "fst (run_waitReady adminAddr pid rds w) = waitReady adminAddr (map abs_round rds)"
  using assms
proof (induction rds arbitrary: w)
  case (Cons rd rds)
  show ?case
  proof (cases "fst rd")
    case None
    from Cons.prems obtain ch where "wd_done w = Some ch" "wd_chans w ! ch = []"
      by (auto simp: running_ok_def)
    with None Cons show ?thesis
      by (cases "snd rd") (auto simp: round_exit_def abs_round_def chan_recv_def Let_def)
  next
    case (Some r)
    from Cons.prems have "running_ok pid (proc_exit pid r w)" by (intro proc_exit_running)
    then obtain ch r' where ch: "wd_done w = Some ch" "wd_chans (proc_exit pid r w) ! ch = [r']"
      by (auto simp: running_ok_def)
    moreover from this Cons.prems have "r' = r" by (auto simp: running_ok_def proc_exit_chans)
    ultimately show ?thesis
      using Some by (cases r) (auto simp: round_exit_def abs_round_def chan_recv_def Let_def make_chan_def)
  qed
qed simp

lemma launch_running:
  assumes "none_alive w" and "wd_auth w \<noteq> None" and "launch s w = (pid, w1)"
  shows "running_ok pid w1 \<and> alive_at w1 pid \<and> wd_auth w1 = wd_auth w \<and> wd_disk w1 = wd_disk w \<and>
     wd_procs w1 = wd_procs w @ [caddy_command s (authAddr w) (length (wd_chans w))] \<and>
     pid = length (wd_procs w)"
  using assms
  by (auto simp: launch_def make_chan_def Let_def running_ok_def alive_at_def only_alive_def none_alive_def
      nth_append caddy_command_def authAddr_def split: if_splits)

text \<open>Start with its abstract view: the general case of all the statements below.\<close>

lemma startAuth_stopped:
  assumes "stopped_ok w"
  shows "run_startAuth listen (w\<lparr>wd_disk := fs\<rparr>) =
     (case listen of Inl err \<Rightarrow> (Some err, w\<lparr>wd_disk := fs\<rparr>) | Inr addr \<Rightarrow> (None, w\<lparr>wd_disk := fs, wd_auth := Some addr\<rparr>))"
  using assms by (simp add: run_startAuth_def stopped_ok_def)

lemma stopped_frame:
  "stopped_ok w \<Longrightarrow> stopped_ok (w\<lparr>wd_disk := fs\<rparr>)"
  "stopped_ok w \<Longrightarrow> stopped_ok (run_stopAuth (w\<lparr>wd_disk := fs, wd_auth := a\<rparr>))"
  by (simp_all add: stopped_ok_def run_stopAuth_def none_alive_def)

lemma abs_stopped: "stopped_ok w \<Longrightarrow> abs_world w = \<lparr>cp_cmd = False, cp_auth = None\<rparr>"
  by (simp add: abs_world_def stopped_ok_def)

lemma abs_running: "running_ok pid w \<Longrightarrow> abs_world w = \<lparr>cp_cmd = True, cp_auth = wd_auth w\<rparr>"
  by (simp add: abs_world_def running_ok_def)

definition simulates :: "machine \<Rightarrow> CaddyServer \<Rightarrow> caddy_world \<Rightarrow> string option \<Rightarrow> caddy_world \<Rightarrow> bool" where
  "simulates m s w err w1 \<longleftrightarrow>
     caddy_Start (cs_runtime s) (cs_adminAddr s) (abs_env m s w) (map abs_round (mc_rounds m)) (abs_world w) =
       (err, abs_world w1) \<and>
     (if err = None then \<exists>pid. running_ok pid w1 \<and> (wd_cmd w = None \<longrightarrow> alive_at w1 pid) else stopped_ok w1)"

lemma start_launched:
  assumes "stopped_ok w" and "launch s (w\<lparr>wd_disk := fs, wd_auth := Some addr\<rparr>) = (pid, w2)"
    and "run_waitReady (cs_adminAddr s) pid rds w2 = (err, w3)"
  shows "err = waitReady (cs_adminAddr s) (map abs_round rds)"
    and "running_ok pid w3" and "err = None \<Longrightarrow> alive_at w3 pid"
    and "wd_auth w3 = Some addr" and "wd_disk w3 = fs"
    and "err = None \<Longrightarrow> wd_procs w3 = wd_procs w @ [caddy_command s addr (length (wd_chans w))]"
proof -
  have l: "running_ok pid w2 \<and> alive_at w2 pid \<and> wd_auth w2 = Some addr \<and> wd_disk w2 = fs \<and>
      wd_procs w2 = wd_procs w @ [caddy_command s addr (length (wd_chans w))] \<and> pid = length (wd_procs w)"
    using launch_running [OF _ _ assms(2)] assms(1)
    by (auto simp: stopped_ok_def none_alive_def authAddr_def)
  then have w2: "running_ok pid w2" "alive_at w2 pid" by blast+
  then have len: "pid < length (wd_procs w2)" by (simp add: running_ok_def)
  note r = waitReady_ok [OF w2(1), of "cs_adminAddr s" rds]
  from waitReady_abs [OF w2(1,2), of "cs_adminAddr s" rds] assms(3)
  show "err = waitReady (cs_adminAddr s) (map abs_round rds)" by simp
  from l r assms(3) show w3: "running_ok pid w3" "err = None \<Longrightarrow> alive_at w3 pid"
    "wd_auth w3 = Some addr" "wd_disk w3 = fs" by simp_all
  assume "err = None"
  with w3 have "pr_alive (wd_procs w3 ! pid)" by (simp add: alive_at_def)
  moreover have "ended_only pid (wd_procs w2) (wd_procs w3)" using r assms(3) by simp
  ultimately have "wd_procs w3 = (wd_procs w2)[pid := (wd_procs w2 ! pid)\<lparr>pr_alive := True\<rparr>]"
    using len by (auto simp: ended_only_def)
  with l show "wd_procs w3 = wd_procs w @ [caddy_command s addr (length (wd_chans w))]"
    by (simp add: caddy_command_def)
qed

lemma start_simulates_case:
  assumes "world_ok w" and "ni_CertInfo (cs_node s) \<noteq> None"
  shows "case run_Start m s w of Returned (err, w1) \<Rightarrow> simulates m s w err w1 | _ \<Rightarrow> False"
proof (cases "wd_cmd w")
  case (Some c)
  with assms(1) obtain pid where "running_ok pid w" by (auto simp: world_ok_def stopped_ok_def)
  with Some show ?thesis
    by (auto simp: run_Start_def simulates_def caddy_Start_def abs_world_def)
next
  case None
  with assms(1) have st: "stopped_ok w" by (auto simp: world_ok_def running_ok_def)
  obtain config where cfg: "renderConfig s = Some config"
    using assms(2) by (auto simp: renderConfig_def Let_def)
  note abs = abs_stopped [OF st]
  note simps = run_Start_def simulates_def caddy_Start_def None abs_env_def Let_def cfg
    startAuth_stopped [OF st] startAuthServerLocked_def stopAuthServerLocked_def
  obtain e1 fs1 where mk: "os_MkdirAll (de_mkdir (mc_disk m)) (cs_workDir s) (wd_disk w) = (e1, fs1)" by fastforce
  obtain e2 fs2 where si: "write_site m s fs1 = (e2, fs2)" by fastforce
  obtain e3 fs3 where wr: "os_WriteFile (de_write (mc_disk m)) (cs_configPath s) config fs2 = (e3, fs3)" by fastforce
  let ?path = "rc_CaddyPath (cs_runtime s)"
  show ?thesis
  proof (cases "TrimSpace ?path \<noteq> [] \<and> mc_stat m ?path = None \<and> e1 = None \<and> e2 = None \<and> e3 = None")
    case False
    then consider "TrimSpace ?path = []" | "TrimSpace ?path \<noteq> []" "mc_stat m ?path \<noteq> None"
      | "TrimSpace ?path \<noteq> []" "mc_stat m ?path = None" "e1 \<noteq> None"
      | "TrimSpace ?path \<noteq> []" "mc_stat m ?path = None" "e1 = None" "e2 \<noteq> None"
      | "TrimSpace ?path \<noteq> []" "mc_stat m ?path = None" "e1 = None" "e2 = None" "e3 \<noteq> None"
      by metis
    then show ?thesis
      by cases (use st abs in \<open>auto simp: simps mk si wr abs_stopped [OF stopped_frame(1) [OF st]] stopped_frame(1)\<close>)
  next
    case True
    note ok = this
    show ?thesis
    proof (cases "mc_listen m")
      case (Inl err)
      with ok st abs show ?thesis
        by (auto simp: simps mk si wr abs_stopped [OF stopped_frame(1) [OF st]] stopped_frame(1))
    next
      case (Inr addr)
      let ?w1 = "w\<lparr>wd_disk := fs3, wd_auth := Some addr\<rparr>"
      note down = stopped_frame(2) [OF st, where fs = fs3 and a = "Some addr"]
      show ?thesis
      proof (cases "mc_stdoutPipe m = None \<and> mc_stderrPipe m = None \<and> mc_cmdStart m = None")
        case False
        then consider "mc_stdoutPipe m \<noteq> None" | "mc_stdoutPipe m = None" "mc_stderrPipe m \<noteq> None"
          | "mc_stdoutPipe m = None" "mc_stderrPipe m = None" "mc_cmdStart m \<noteq> None"
          by metis
        then show ?thesis
          by cases (use ok Inr down in \<open>auto simp: simps mk si wr abs abs_stopped [OF down]\<close>)
      next
        case True
        obtain pid w2 where la: "launch s ?w1 = (pid, w2)" by fastforce
        obtain err w3 where wt: "run_waitReady (cs_adminAddr s) pid (mc_rounds m) w2 = (err, w3)" by fastforce
        note l = start_launched [OF st la wt]
        show ?thesis
        proof (cases err)
          case None
          with ok Inr True la wt l show ?thesis
            by (auto simp: simps mk si wr abs abs_running [OF l(2)])
        next
          case (Some e)
          obtain w4 where "run_stopLocked (mc_term m) w3 = Returned w4" "stopped_ok w4"
            using stop_running [OF l(2)] by blast
          with Some ok Inr True la wt l(1) show ?thesis
            by (auto simp: simps mk si wr abs abs_stopped stopLocked_def)
        qed
      qed
    qed
  qed
qed

lemma start_simulates:
  assumes "world_ok w" and "ni_CertInfo (cs_node s) \<noteq> None"
  obtains err w1 where "run_Start m s w = Returned (err, w1)" and "simulates m s w err w1"
  using start_simulates_case [OF assms, of m] by (cases "run_Start m s w") auto

section \<open>Runs of the machine\<close>

definition fresh_world :: "disk \<Rightarrow> caddy_world" where
  "fresh_world fs =
     \<lparr>wd_cmd = None, wd_done = None, wd_auth = None, wd_procs = [], wd_chans = [], wd_disk = fs\<rparr>"

text \<open>Starts, closes, ends of processes and changes of the disk by others, in any order.\<close>

inductive world_reachable :: "CaddyServer \<Rightarrow> caddy_world \<Rightarrow> bool" for s where
  world_new: "world_reachable s (fresh_world fs)"
| world_start: "world_reachable s w \<Longrightarrow> run_Start m s w = Returned (err, w1) \<Longrightarrow> world_reachable s w1"
| world_close: "world_reachable s w \<Longrightarrow> run_stopLocked term w = Returned w1 \<Longrightarrow> world_reachable s w1"
| world_exit: "world_reachable s w \<Longrightarrow> world_reachable s (proc_exit pid r w)"
| world_disk: "world_reachable s w \<Longrightarrow> world_reachable s (w\<lparr>wd_disk := fs\<rparr>)"

lemma world_ok_disk: "world_ok w \<Longrightarrow> world_ok (w\<lparr>wd_disk := fs\<rparr>)"
proof -
  have "running_ok pid (w\<lparr>wd_disk := fs\<rparr>) = running_ok pid w" for pid
    by (simp add: running_ok_def only_alive_def)
  then show "world_ok w \<Longrightarrow> world_ok (w\<lparr>wd_disk := fs\<rparr>)"
    by (simp add: world_ok_def stopped_frame) (auto simp: stopped_frame)
qed

lemma simulates_ok: "simulates m s w err w1 \<Longrightarrow> world_ok w1"
  by (auto simp: simulates_def world_ok_def split: if_splits)

lemma world_reachable_ok:
  assumes "world_reachable s w" and "ni_CertInfo (cs_node s) \<noteq> None"
  shows "world_ok w"
  using assms(1)
proof (induction rule: world_reachable.induct)
  case (world_new fs)
  then show ?case by (simp add: world_ok_def stopped_ok_def fresh_world_def none_alive_def alive_at_def)
next
  case (world_start w m err w1)
  then show ?case using start_simulates [OF world_start.IH assms(2), of m] simulates_ok by fastforce
next
  case (world_close w t w1)
  then show ?case using stop_ok [OF world_close.IH, of t] by (auto simp: world_ok_def)
qed (simp_all add: proc_exit_ok world_ok_disk)

lemma run_Start_success:
  assumes "run_Start m s w = Returned (None, w1)" and "stopped_ok w"
  obtains fs1 fs2 fs3 config addr pid w2 where
    "write_site m s fs1 = (None, fs2)" and "renderConfig s = Some config"
    and "os_WriteFile (de_write (mc_disk m)) (cs_configPath s) config fs2 = (None, fs3)"
    and "launch s (w\<lparr>wd_disk := fs3, wd_auth := Some addr\<rparr>) = (pid, w2)"
    and "run_waitReady (cs_adminAddr s) pid (mc_rounds m) w2 = (None, w1)"
  using assms(1)
  by (auto simp: run_Start_def startAuth_stopped [OF assms(2)] stopped_ok_def [THEN iffD1, OF assms(2)]
      split: if_splits option.splits prod.splits sum.splits outcome.splits)

section \<open>Properties\<close>

text \<open>
  C12. At most one Caddy process of a node is ever alive, and it is the recorded one; the
  authorisation server listens exactly while a command is recorded; and a Start that fails,
  at whatever step, leaves neither a process nor a listener nor a record behind.
\<close>

theorem one_caddy_alive:
  assumes "world_reachable s w" and "ni_CertInfo (cs_node s) \<noteq> None"
  shows "(\<forall>i. alive_at w i \<longrightarrow> wd_cmd w = Some (Some i)) \<and> (wd_auth w \<noteq> None \<longleftrightarrow> wd_cmd w \<noteq> None) \<and>
     (\<forall>m err w1. run_Start m s w = Returned (Some err, w1) \<longrightarrow>
        none_alive w1 \<and> wd_cmd w1 = None \<and> wd_auth w1 = None)"
proof -
  note ok = world_reachable_ok [OF assms]
  then have "\<forall>i. alive_at w i \<longrightarrow> wd_cmd w = Some (Some i)"
    unfolding world_ok_def stopped_ok_def none_alive_def running_ok_def only_alive_def by metis
  moreover have "wd_auth w \<noteq> None \<longleftrightarrow> wd_cmd w \<noteq> None"
    using ok by (auto simp: world_ok_def stopped_ok_def running_ok_def)
  moreover have "none_alive w1 \<and> wd_cmd w1 = None \<and> wd_auth w1 = None"
    if "run_Start m s w = Returned (Some err, w1)" for m err w1
    using start_simulates [OF ok assms(2), of m] that by (auto simp: simulates_def stopped_ok_def)
  ultimately show ?thesis by blast
qed

text \<open>
  C11. Neither Start nor Close hangs or panics, whatever the machine does: the last receive of Close
  always finds the end of the process, also when the process had ended before, and when the
  polling of Start already took that end from the channel.  After Close nothing is left.
\<close>

theorem start_and_close_return:
  assumes "world_reachable s w" and "ni_CertInfo (cs_node s) \<noteq> None"
  shows "(\<exists>err w1. run_Start m s w = Returned (err, w1)) \<and>
     (\<exists>w1. run_stopLocked term w = Returned w1 \<and> none_alive w1 \<and> wd_cmd w1 = None \<and> wd_auth w1 = None)"
proof -
  note ok = world_reachable_ok [OF assms]
  obtain err w1 where "run_Start m s w = Returned (err, w1)" using start_simulates [OF ok assms(2)] .
  then show ?thesis using stop_ok [OF ok, of "term"] by (auto simp: stopped_ok_def)
qed


text \<open>
  A successful Start leaves a proxy that can serve: the process runs the generated Caddyfile,
  which is on the disk, is told the address on which the authorisation server listens, and
  finds the four files of the cover site, whole and filled in, under the root the
  Caddyfile names.
\<close>

theorem started_caddy_serves:
  assumes "world_reachable s w" and "wd_cmd w = None" and "ni_CertInfo (cs_node s) \<noteq> None"
    and "cs_configPath s = path_Join [cs_workDir s, ''Caddyfile'']"
    and "range_order (coverSiteFiles (mc_pages m) (mc_updated m) (cs_node s)) (mc_files m)"
    and "run_Start m s w = Returned (None, w1)"
  shows "\<exists>pid ch addr config. wd_cmd w1 = Some (Some pid) \<and> alive_at w1 pid \<and> wd_auth w1 = Some addr \<and>
     wd_procs w1 ! pid = caddy_command s addr ch \<and> renderConfig s = Some config \<and>
     wd_disk w1 (cs_configPath s) = Some (File config) \<and>
     (\<forall>name content. coverSiteFiles (mc_pages m) (mc_updated m) (cs_node s) name = Some content \<longrightarrow>
        wd_disk w1 (path_Join [coverDir s, name]) = Some (File content))"
proof -
  have st: "stopped_ok w"
    using world_reachable_ok [OF assms(1,3)] assms(2) by (auto simp: world_ok_def running_ok_def)
  obtain fs1 fs2 fs3 config addr pid w2 where r: "write_site m s fs1 = (None, fs2)" "renderConfig s = Some config"
    "os_WriteFile (de_write (mc_disk m)) (cs_configPath s) config fs2 = (None, fs3)"
    "launch s (w\<lparr>wd_disk := fs3, wd_auth := Some addr\<rparr>) = (pid, w2)"
    "run_waitReady (cs_adminAddr s) pid (mc_rounds m) w2 = (None, w1)"
    using run_Start_success [OF assms(6) st] .
  note l = start_launched [OF st r(4,5)]
  have pid: "pid = length (wd_procs w)" using r(4) by (simp add: launch_def make_chan_def Let_def)
  have fs3: "fs3 = fs2(cs_configPath s \<mapsto> File config)" by (rule WriteFile_written [OF r(3)])
  have "wd_disk w1 (path_Join [coverDir s, name]) = Some (File content)"
    if f: "coverSiteFiles (mc_pages m) (mc_updated m) (cs_node s) name = Some content" for name content
  proof -
    have "fs2 (path_Join [coverDir s, name]) = Some (File content)"
      using cover_site_written [OF r(1) [unfolded write_site_def] assms(5)] f by blast
    moreover have "name \<in> set cover_names" using f coverSiteFiles_dom by blast
    then have "path_Join [coverDir s, name] \<noteq> cs_configPath s"
      unfolding assms(4) by (rule cover_not_config)
    ultimately show ?thesis by (simp add: l(5) fs3)
  qed
  moreover have "wd_disk w1 (cs_configPath s) = Some (File config)" by (simp add: l(5) fs3)
  moreover have "wd_procs w1 ! pid = caddy_command s addr (length (wd_chans w))"
    using l(6) by (simp add: pid)
  ultimately show ?thesis using l(2-4) r(2) by (auto simp: running_ok_def)
qed

text \<open>
  A Caddy process that ends while the node serves is not noticed: the command stays recorded,
  and another Start reports success without starting anything.
\<close>

lemma dead_caddy_unnoticed:
  assumes "running_ok pid w"
  shows "none_alive (proc_exit pid r w) \<and> run_Start m s (proc_exit pid r w) = Returned (None, proc_exit pid r w)"
  using assms by (auto simp: running_ok_def only_alive_def none_alive_def run_Start_def)

section \<open>Witnesses\<close>

text \<open>A machine that refuses nothing; the second poll finds the endpoint.\<close>

definition quiet_machine :: machine where
  "quiet_machine =
     \<lparr>mc_stat = \<lambda>_. None, mc_disk = \<lparr>de_mkdir = \<lambda>_. None, de_write = \<lambda>_. Written\<rparr>,
      mc_pages = \<lambda>_. cover_keys, mc_files = cover_names, mc_updated = ''2024'',
      mc_listen = Inr ''127.0.0.1:4000'', mc_stdoutPipe = None, mc_stderrPipe = None, mc_cmdStart = None,
      mc_rounds = [(None, NoAnswer), (None, Answered 200)], mc_term = None\<rparr>"

definition sample_caddy :: CaddyServer where
  "sample_caddy =
     caddy_New (sample_node\<lparr>ni_CertInfo := Some \<lparr>ci_CertMode = ''file'', ci_CertFile = ''c'', ci_KeyFile = ''k'', ci_Email = ''e'',
        ci_CertDomain = ''d'', ci_DNSEnv = Map.empty, ci_Provider = [], ci_RejectUnknownSni = False\<rparr>\<rparr>)
       [] Map.empty default_runtime"

lemma sample_paths:
  "path_Join [''/var/lib/v2naive'', ''node-'' @ Itoa 0] = ''/var/lib/v2naive/node-0''"
  "path_Join [''/var/lib/v2naive/node-0'', ''cover''] = ''/var/lib/v2naive/node-0/cover''"
  by code_simp+

lemma sample_caddy_sel:
  "cs_workDir sample_caddy = ''/var/lib/v2naive/node-0''"
  "cs_configPath sample_caddy = path_Join [cs_workDir sample_caddy, ''Caddyfile'']"
  "coverDir sample_caddy = ''/var/lib/v2naive/node-0/cover''"
  "ni_CertInfo (cs_node sample_caddy) \<noteq> None"
  by (simp_all add: sample_caddy_def caddy_New_def replaceUsers_def Let_def sample_node_def default_runtime_def
      coverDir_def sample_paths [simplified])

lemma quiet_disk:
  "fst (os_MkdirAll (\<lambda>_. None) ''/var/lib/v2naive/node-0'' Map.empty) = None"
  "fst (write_files \<lparr>de_mkdir = \<lambda>_. None, de_write = \<lambda>_. Written\<rparr> ''/var/lib/v2naive/node-0/cover'' files
     cover_names (snd (os_MkdirAll (\<lambda>_. None) ''/var/lib/v2naive/node-0'' Map.empty))) = None"
  "fst (os_WriteFile (\<lambda>_. Written) (path_Join [''/var/lib/v2naive/node-0'', ''Caddyfile'']) config
     (snd (write_files \<lparr>de_mkdir = \<lambda>_. None, de_write = \<lambda>_. Written\<rparr> ''/var/lib/v2naive/node-0/cover'' files
        cover_names (snd (os_MkdirAll (\<lambda>_. None) ''/var/lib/v2naive/node-0'' Map.empty))))) = None"
  by code_simp+

lemma quiet_env:
  "abs_env quiet_machine sample_caddy (fresh_world Map.empty) =
     \<lparr>env_stat = None, env_mkdir = None, env_cover = None, env_writeConfig = None,
      env_listen = Inr ''127.0.0.1:4000'', env_stdoutPipe = None, env_stderrPipe = None, env_cmdStart = None\<rparr>"
  unfolding abs_env_def Let_def write_site_def writeCoverSite_def sample_caddy_sel(1-3) quiet_machine_def
    machine.select_convs disk_env.select_convs fresh_world_def caddy_world.select_convs
  by (simp only: quiet_disk sample_caddy_sel(1))

lemma sample_caddy_path: "TrimSpace (rc_CaddyPath (cs_runtime sample_caddy)) \<noteq> []"
proof -
  have "rc_CaddyPath (cs_runtime sample_caddy) = ''/opt/v2naive/caddy''"
    by (simp add: sample_caddy_def caddy_New_def replaceUsers_def Let_def default_runtime_def)
  moreover have "TrimSpace ''/opt/v2naive/caddy'' = ''/opt/v2naive/caddy''" by code_simp
  ultimately show ?thesis by simp
qed

lemma quiet_start:
  obtains w1 where "run_Start quiet_machine sample_caddy (fresh_world Map.empty) = Returned (None, w1)"
proof -
  let ?w = "fresh_world Map.empty"
  have ok: "world_ok ?w" by (simp add: world_ok_def stopped_ok_def fresh_world_def none_alive_def alive_at_def)
  have "abs_world ?w = \<lparr>cp_cmd = False, cp_auth = None\<rparr>" by (simp add: abs_world_def fresh_world_def)
  moreover have "map abs_round (mc_rounds quiet_machine) = [AdminUnreachable, AdminStatus 200]"
    by (simp add: quiet_machine_def abs_round_def)
  ultimately have "fst (caddy_Start (cs_runtime sample_caddy) (cs_adminAddr sample_caddy)
      (abs_env quiet_machine sample_caddy ?w) (map abs_round (mc_rounds quiet_machine)) (abs_world ?w)) = None"
    using sample_caddy_path by (simp add: caddy_Start_def quiet_env startAuthServerLocked_def Let_def)
  then show ?thesis
    using start_simulates [OF ok sample_caddy_sel(4), of quiet_machine] that by (metis fst_conv simulates_def)
qed

theorem one_caddy_alive_witness:
  "\<exists>w. world_reachable sample_caddy w \<and> wd_cmd w \<noteq> None \<and> wd_auth w \<noteq> None"
proof -
  obtain w1 where w1: "run_Start quiet_machine sample_caddy (fresh_world Map.empty) = Returned (None, w1)"
    by (rule quiet_start)
  note r = world_start [OF world_new w1]
  have "simulates quiet_machine sample_caddy (fresh_world Map.empty) None w1"
    using start_simulates_case [OF world_reachable_ok [OF world_new [of _ Map.empty] sample_caddy_sel(4)]
        sample_caddy_sel(4), of quiet_machine] w1 by simp
  then have "wd_cmd w1 \<noteq> None" by (auto simp: simulates_def running_ok_def)
  with one_caddy_alive [OF r sample_caddy_sel(4)] r show ?thesis by blast
qed

theorem start_and_close_return_witness:
  "\<exists>w1 w2. run_Start quiet_machine sample_caddy (fresh_world Map.empty) = Returned (None, w1) \<and>
     run_stopLocked None (proc_exit 0 (Some ''exit status 1'') w1) = Returned w2 \<and> none_alive w2"
proof -
  obtain w1 where w1: "run_Start quiet_machine sample_caddy (fresh_world Map.empty) = Returned (None, w1)"
    by (rule quiet_start)
  from start_and_close_return [OF world_exit [OF world_start [OF world_new w1]] sample_caddy_sel(4)] w1
  show ?thesis by blast
qed


theorem started_caddy_serves_witness:
  "\<exists>w1 config. run_Start quiet_machine sample_caddy (fresh_world Map.empty) = Returned (None, w1) \<and>
     wd_disk w1 (cs_configPath sample_caddy) = Some (File config)"
proof -
  obtain w1 where w1: "run_Start quiet_machine sample_caddy (fresh_world Map.empty) = Returned (None, w1)"
    by (rule quiet_start)
  have none: "wd_cmd (fresh_world Map.empty) = None" by (simp add: fresh_world_def)
  have order: "range_order (coverSiteFiles (mc_pages quiet_machine)
      (mc_updated quiet_machine) (cs_node sample_caddy)) (mc_files quiet_machine)"
  proof -
    have "distinct cover_names" by code_simp
    then show ?thesis by (simp add: range_order_def coverSiteFiles_dom quiet_machine_def)
  qed
  from started_caddy_serves [OF world_new none sample_caddy_sel(4,2) order w1] w1 show ?thesis by blast
qed

end
