(* ===== verification/Duplex.thy ===== *)
theory Duplex
  imports Tunnels
begin

text \<open>
  A tunnel of the forward proxy as it runs: the two goroutines of \<^verbatim>\<open>dualStream\<close> that copy in
  either direction, the reporter (\<^verbatim>\<open>reportActiveTunnel\<close>) that ticks beside them, and the
  deferred calls of ServeHTTP at its end (\<^verbatim>\<open>runtime/forwardproxy/forwardproxy.go\<close>), in any
  interleaving.  \<open>Streams\<close> runs the two directions one after the other; here that is shown to
  be what every interleaving comes to.
\<close>

section \<open>The state\<close>

record tunnel_setup =
  su_info :: tunnel_info
  su_upEnv :: copy_env
  su_downEnv :: copy_env
  su_padding :: bool

text \<open>
  \<open>rn_halfTarget\<close> and \<open>rn_halfClient\<close>: CloseWrite was called on the target, on the client;
  \<open>rn_cut\<close>: the target connection is closed; \<open>rn_events\<close>: what was emitted.
\<close>

record tunnel_run =
  rn_up :: copy_state
  rn_down :: copy_state
  rn_upResult :: "io_error option option"
  rn_downResult :: "io_error option option"
  rn_stats :: "streamStats option"
  rn_halfTarget :: bool
  rn_halfClient :: bool
  rn_cut :: bool
  rn_reporter :: bool
  rn_events :: "tunnelEvent list"
  rn_returned :: "io_error option option"

definition fresh_copy :: "byte list \<Rightarrow> reader \<Rightarrow> copy_state" where
  "fresh_copy buf src =
     \<lparr>cp_reader = src, cp_buf = buf, cp_numPadding = 0, cp_round = 0, cp_written = 0,
      cp_stats = None, cp_out = []\<rparr>"

definition run_start :: "tunnel_info \<Rightarrow> byte list \<Rightarrow> byte list \<Rightarrow> reader \<Rightarrow> reader \<Rightarrow> tunnel_run" where
  "run_start t upBuf downBuf clientReader target =
     \<lparr>rn_up = fresh_copy upBuf clientReader, rn_down = fresh_copy downBuf target,
      rn_upResult = None, rn_downResult = None, rn_stats = Some new_stats,
      rn_halfTarget = False, rn_halfClient = False, rn_cut = False, rn_reporter = True,
      rn_events = [tunnel_event ''open'' t 0 0], rn_returned = None\<rparr>"

section \<open>The acts\<close>

text \<open>
  Reads from a closed connection fail, and so do writes to it.  The counters are shared: a
  round of a copy works on those of the run.
\<close>

definition net_closed :: io_error where
  "net_closed = IoError ''use of closed network connection''"

definition closed_reader :: reader where
  "closed_reader = \<lparr>rd_chunks = [], rd_eager = False, rd_end = net_closed\<rparr>"

definition to_closed :: "copy_env \<Rightarrow> copy_env" where
  "to_closed env = env\<lparr>ce_write := \<lambda>_ _. (0, Some net_closed)\<rparr>"

definition up_round :: "tunnel_setup \<Rightarrow> tunnel_run \<Rightarrow> io_error option option \<times> copy_state" where
  "up_round su r =
     copy_round (if rn_cut r then to_closed (su_upEnv su) else su_upEnv su)
       (if su_padding su then RemovePadding else NoPadding) True ((rn_up r)\<lparr>cp_stats := rn_stats r\<rparr>)"

definition down_round :: "tunnel_setup \<Rightarrow> tunnel_run \<Rightarrow> io_error option option \<times> copy_state" where
  "down_round su r =
     copy_round (su_downEnv su)
       (if su_padding su then AddPadding else NoPadding) False ((rn_down r)\<lparr>cp_stats := rn_stats r\<rparr>)"

definition dual_result :: "io_error option \<Rightarrow> io_error option \<Rightarrow> io_error option" where
  "dual_result upErr downErr =
     (if upErr \<noteq> None \<and> upErr \<noteq> Some EOF then upErr
      else if downErr \<noteq> None \<and> downErr \<noteq> Some EOF then downErr
      else None)"

text \<open>
  \<open>ReporterTick\<close> carries the answer of the authorisation call; \<open>TunnelEnds\<close>: both copies have
  ended, dualStream returns and the close event is emitted; \<open>TunnelLeft\<close>: the reporter
  is told to stop and the target closed, the deferred calls that come after it.
\<close>

datatype tunnel_act = UploadRound | DownloadRound | ReporterTick bool | TunnelEnds | TunnelLeft

fun act :: "tunnel_setup \<Rightarrow> tunnel_act \<Rightarrow> tunnel_run \<Rightarrow> tunnel_run option" where
  "act su UploadRound r =
     (if rn_upResult r \<noteq> None then None
      else (case up_round su r of
              (res, s) \<Rightarrow> Some (r\<lparr>rn_up := s, rn_stats := cp_stats s, rn_upResult := res,
                                  rn_halfTarget := res \<noteq> None\<rparr>)))"
| "act su DownloadRound r =
     (if rn_downResult r \<noteq> None then None
      else (case down_round su r of
              (res, s) \<Rightarrow> Some (r\<lparr>rn_down := s, rn_stats := cp_stats s, rn_downResult := res,
                                  rn_halfClient := res \<noteq> None\<rparr>)))"
| "act su (ReporterTick authorized) r =
     (if \<not> rn_reporter r then None
      else (case reportActiveTunnel_tick (su_info su) authorized (rn_stats r) of
              (evs, closed, stats) \<Rightarrow>
                let r1 = r\<lparr>rn_stats := stats, rn_events := rn_events r @ evs\<rparr>
                in Some (if closed
                         then r1\<lparr>rn_cut := True, rn_reporter := False,
                                 rn_down := (rn_down r)\<lparr>cp_reader := closed_reader\<rparr>\<rparr>
                         else r1)))"
| "act su TunnelEnds r =
     (case (rn_upResult r, rn_downResult r, rn_returned r) of
        (Some upErr, Some downErr, None) \<Rightarrow>
          (case close_event (su_info su) (rn_stats r) of
             (ev, stats) \<Rightarrow> Some (r\<lparr>rn_stats := stats, rn_events := rn_events r @ [ev],
                                    rn_returned := Some (dual_result upErr downErr)\<rparr>))
      | _ \<Rightarrow> None)"
| "act su TunnelLeft r =
     (if rn_returned r = None then None else Some (r\<lparr>rn_reporter := False, rn_cut := True\<rparr>))"

primrec run_acts :: "tunnel_setup \<Rightarrow> tunnel_act list \<Rightarrow> tunnel_run \<Rightarrow> tunnel_run option" where
  "run_acts su [] r = Some r"
| "run_acts su (a # as) r = Option.bind (act su a r) (run_acts su as)"

section \<open>One round\<close>

lemma copy_read_stats:
  "copy_read env paddingType (s\<lparr>cp_stats := x\<rparr>) =
     (case copy_read env paddingType s of (d, n, er, s1) \<Rightarrow> (d, n, er, s1\<lparr>cp_stats := x\<rparr>))"
  by (simp add: copy_read_def Let_def split: prod.split)

lemma fill_count: "fill k cs = (d, rest) \<Longrightarrow> length d + chunk_weight rest \<le> chunk_weight cs"
proof (induction k cs arbitrary: d rest rule: fill.induct)
  case (2 k c cs)
  then show ?case by (auto split: if_splits prod.splits)
qed simp

lemma ReadFull_count:
  "ReadFull k rd = (d, er, rd1) \<Longrightarrow> length d + chunk_weight (rd_chunks rd1) \<le> chunk_weight (rd_chunks rd)"
  using fill_count [of k "rd_chunks rd"] by (auto simp: ReadFull_def split: prod.splits)

lemma Read_count:
  "Read k rd = (d, er, rd1) \<Longrightarrow> length d + chunk_weight (rd_chunks rd1) \<le> chunk_weight (rd_chunks rd)"
  by (auto simp: Read_def split: list.splits if_splits)

lemma copy_read_count:
  assumes "copy_read env paddingType s = (d, n, er, s1)"
  shows "n + copy_weight s1 \<le> copy_weight s" "cp_written s1 = cp_written s" "cp_stats s1 = cp_stats s"
    "cp_out s1 = cp_out s" "d = [] \<longleftrightarrow> n = 0"
  using assms by (auto simp: copy_read_def Let_def copy_weight_def split: prod.splits if_splits
      dest!: Read_count ReadFull_count)

text \<open>A round: how it leaves the loop or not, whether the writer took anything, and the new state.\<close>

definition round_result :: "copy_env \<Rightarrow> byte list \<Rightarrow> io_error option \<Rightarrow> nat \<Rightarrow> io_error option option" where
  "round_result env d er i =
     (let ended = (case er of None \<Rightarrow> None | Some e \<Rightarrow> Some (if e = EOF then None else Some e)) in
      if d = [] then ended
      else (case ce_wait env i of
         Some e \<Rightarrow> Some (Some e)
       | None \<Rightarrow> (case ce_write env i d of
           (nw, Some e) \<Rightarrow> Some (Some e)
         | (nw, None) \<Rightarrow> (case ce_flush env i of
             Some e \<Rightarrow> Some (Some e)
           | None \<Rightarrow> if length d \<noteq> nw then Some (Some ShortWrite) else ended))))"

definition round_wrote :: "copy_env \<Rightarrow> byte list \<Rightarrow> nat \<Rightarrow> bool" where
  "round_wrote env d i \<longleftrightarrow> d \<noteq> [] \<and> ce_wait env i = None \<and> 0 < fst (ce_write env i d)"

lemma copy_round_split:
  assumes "copy_read env paddingType s = (d, n, er, s0)"
  shows "copy_round env paddingType upload s =
     (round_result env d er (cp_round s0),
      if round_wrote env d (cp_round s0)
      then s0\<lparr>cp_round := cp_round s0 + 1, cp_written := wrap64 (cp_written s0 + int n),
              cp_stats := add_count upload n (cp_stats s0),
              cp_out := cp_out s0 @ take (fst (ce_write env (cp_round s0) d)) d\<rparr>
      else s0\<lparr>cp_round := cp_round s0 + 1\<rparr>)"
proof -
  obtain nw ew where w: "ce_write env (cp_round s0) d = (nw, ew)" by fastforce
  show ?thesis
    by (cases "ce_wait env (cp_round s0)"; cases ew; cases "ce_flush env (cp_round s0)")
      (simp_all add: copy_round_def assms w round_result_def round_wrote_def add_count_def Let_def)
qed

text \<open>A round adds what it copied to whatever counters it is given, and is otherwise the same.\<close>

lemma copy_round_effect:
  assumes "copy_round env paddingType upload s = (res, s1)"
  obtains n where "n + copy_weight s1 \<le> copy_weight s" "cp_stats s1 = add_count upload n (cp_stats s)"
    "cp_written s1 = (if n = 0 then cp_written s else wrap64 (cp_written s + int n))"
    "\<And>x. copy_round env paddingType upload (s\<lparr>cp_stats := x\<rparr>) = (res, s1\<lparr>cp_stats := add_count upload n x\<rparr>)"
proof -
  obtain d n er s0 where rd: "copy_read env paddingType s = (d, n, er, s0)" by (metis surj_pair)
  note c = copy_read_count [OF rd] and sp = copy_round_split [OF rd, of upload]
  have spx: "copy_round env paddingType upload (s\<lparr>cp_stats := x\<rparr>) =
      (res, s1\<lparr>cp_stats := if round_wrote env d (cp_round s0) then add_count upload n x else x\<rparr>)" for x
    using copy_round_split [of env paddingType "s\<lparr>cp_stats := x\<rparr>" d n er "s0\<lparr>cp_stats := x\<rparr>" upload] sp assms
    by (auto simp: copy_read_stats rd)
  show thesis
  proof (cases "round_wrote env d (cp_round s0)")
    case True
    then have "n \<noteq> 0" using c(5) by (auto simp: round_wrote_def)
    with True sp assms c spx show thesis by (intro that [of n]) (auto simp: copy_weight_def)
  next
    case False
    with sp assms c spx show thesis by (intro that [of 0]) (auto simp: copy_weight_def)
  qed
qed

lemma copy_loop_stats:
  "copy_loop env paddingType upload s = (e, s1) \<Longrightarrow>
     \<exists>n. \<forall>x. copy_loop env paddingType upload (s\<lparr>cp_stats := x\<rparr>) = (e, s1\<lparr>cp_stats := add_count upload n x\<rparr>)"
proof (induction env paddingType upload s arbitrary: e s1 rule: copy_loop.induct)
  case (1 env paddingType upload s)
  obtain res s2 where r: "copy_round env paddingType upload s = (res, s2)" by fastforce
  obtain n where n: "\<And>x. copy_round env paddingType upload (s\<lparr>cp_stats := x\<rparr>) =
      (res, s2\<lparr>cp_stats := add_count upload n x\<rparr>)"
    using copy_round_effect [OF r] by metis
  note unfold = copy_loop.simps [of env paddingType upload s] copy_loop.simps [of env paddingType upload "s\<lparr>cp_stats := _\<rparr>"]
  show ?case
  proof (cases res)
    case (Some err)
    with r n 1(2) show ?thesis by (auto simp: unfold)
  next
    case None
    with r 1(2) have "copy_loop env paddingType upload s2 = (e, s1)" by (simp add: unfold)
    then obtain m where "\<forall>x. copy_loop env paddingType upload (s2\<lparr>cp_stats := x\<rparr>) =
        (e, s1\<lparr>cp_stats := add_count upload m x\<rparr>)"
      using 1(1) [OF r [symmetric] None] by blast
    with n None show ?thesis by (intro exI [of _ "n + m"]) (simp add: unfold)
  qed
qed

section \<open>What holds in every state of a run\<close>

definition told :: "bool \<Rightarrow> tunnelEvent list \<Rightarrow> int" where
  "told upload evs = sum_list (map (if upload then ev_Upload else ev_Download) evs)"

lemma told_simps [simp]:
  "told upload [] = 0" "told upload (e # evs) = (if upload then ev_Upload e else ev_Download e) + told upload evs"
  "told upload (evs @ evs') = told upload evs + told upload evs'"
  by (simp_all add: told_def)

definition counts_ok :: "tunnel_run \<Rightarrow> bool" where
  "counts_ok r \<longleftrightarrow>
     (\<exists>st. rn_stats r = Some st \<and> stats_range st \<and>
        st_upload st = cp_written (rn_up r) \<and> st_download st = cp_written (rn_down r) \<and>
        st_reportedUpload st = told True (rn_events r) \<and> st_reportedDownload st = told False (rn_events r) \<and>
        (rn_returned r \<noteq> None \<longrightarrow>
           st_reportedUpload st = st_upload st \<and> st_reportedDownload st = st_download st))"

definition sizes_ok :: "nat \<Rightarrow> nat \<Rightarrow> tunnel_run \<Rightarrow> bool" where
  "sizes_ok wu wd r \<longleftrightarrow>
     cp_written (rn_up r) + int (copy_weight (rn_up r)) \<le> int wu \<and>
     cp_written (rn_down r) + int (copy_weight (rn_down r)) \<le> int wd"

definition ended_ok :: "tunnel_run \<Rightarrow> bool" where
  "ended_ok r \<longleftrightarrow>
     (\<forall>err. rn_returned r = Some err \<longrightarrow> (\<exists>upErr downErr. rn_upResult r = Some upErr \<and>
        rn_downResult r = Some downErr \<and> err = dual_result upErr downErr))"

text \<open>A direction is on the way the sequential copy takes.\<close>

definition follows :: "copy_env \<Rightarrow> nat \<Rightarrow> bool \<Rightarrow> copy_state \<Rightarrow> io_error option option \<Rightarrow> copy_state \<Rightarrow> bool" where
  "follows env paddingType upload start res s \<longleftrightarrow>
     copy_loop env paddingType upload start =
       (case res of
          None \<Rightarrow> copy_loop env paddingType upload (s\<lparr>cp_stats := None\<rparr>)
        | Some e \<Rightarrow> (e, s\<lparr>cp_stats := None\<rparr>))"

lemma follows_round:
  assumes "follows env paddingType upload start None s"
    and "copy_round env paddingType upload (s\<lparr>cp_stats := x\<rparr>) = (res, s1)"
  shows "follows env paddingType upload start res s1"
proof -
  obtain n where n: "\<And>y. copy_round env paddingType upload (s\<lparr>cp_stats := x\<rparr>\<lparr>cp_stats := y\<rparr>) =
      (res, s1\<lparr>cp_stats := add_count upload n y\<rparr>)"
    using copy_round_effect [OF assms(2)] by metis
  have "add_count upload n None = None" by (simp add: add_count_def AddUpload_def AddDownload_def)
  with n [of None] have "copy_round env paddingType upload (s\<lparr>cp_stats := None\<rparr>) = (res, s1\<lparr>cp_stats := None\<rparr>)"
    by simp
  with assms(1) show ?thesis
    by (cases res) (simp_all add: follows_def copy_loop.simps [of _ _ _ "s\<lparr>cp_stats := None\<rparr>"])
qed

text \<open>A round of either copy, with the counters of the run.\<close>

lemma round_counts:
  assumes "copy_round env paddingType upload (s\<lparr>cp_stats := Some st\<rparr>) = (res, s1)"
    and "stats_range st" and "(if upload then st_upload st else st_download st) = cp_written s"
    and "cp_written s + int (copy_weight s) \<le> int w" and "int w < 2 ^ 63"
  obtains st1 where "cp_stats s1 = Some st1" "stats_range st1"
    "(if upload then st_upload st1 else st_download st1) = cp_written s1"
    "(if upload then st_download st1 else st_upload st1) = (if upload then st_download st else st_upload st)"
    "st_reportedUpload st1 = st_reportedUpload st" "st_reportedDownload st1 = st_reportedDownload st"
    "cp_written s1 + int (copy_weight s1) \<le> int w"
proof -
  obtain n where n: "n + copy_weight s1 \<le> copy_weight (s\<lparr>cp_stats := Some st\<rparr>)" "cp_stats s1 = add_count upload n (Some st)"
    "cp_written s1 = (if n = 0 then cp_written s else wrap64 (cp_written s + int n))"
    using copy_round_effect [OF assms(1)] by (metis copy_state.ext_inject copy_state.surjective copy_state.update_convs(6) copy_state.select_convs(5) copy_state.select_convs(6))
  have w: "copy_weight (s\<lparr>cp_stats := Some st\<rparr>) = copy_weight s" by (simp add: copy_weight_def)
  have b: "0 \<le> cp_written s" "cp_written s + int n \<le> int w"
    using assms(2-4) n(1) by (auto simp: stats_range_def w split: if_splits)
  then have written: "cp_written s1 = cp_written s + int n"
    using n(3) assms(5) by (auto simp: in64_def wrap64_id)
  obtain st1 where "add_count upload n (Some st) = Some st1" "stats_range st1"
    "st_upload st1 = st_upload st + (if upload then int n else 0)"
    "st_download st1 = st_download st + (if upload then 0 else int n)"
    "st_reportedUpload st1 = st_reportedUpload st" "st_reportedDownload st1 = st_reportedDownload st"
  proof (rule add_count_range [OF assms(2), of upload n])
    show "st_upload st + (if upload then int n else 0) < 2 ^ 63" "st_download st + (if upload then 0 else int n) < 2 ^ 63"
      using assms(2,3,5) b by (auto simp: stats_range_def)
  qed
  with n written assms(3,4) show thesis by (intro that [of st1]) (auto simp: w split: if_splits)
qed

definition run_ok :: "nat \<Rightarrow> nat \<Rightarrow> tunnel_run \<Rightarrow> bool" where
  "run_ok wu wd r \<longleftrightarrow> counts_ok r \<and> sizes_ok wu wd r \<and> ended_ok r"

lemma upload_round_ok:
  assumes "act su UploadRound r = Some r1" and "run_ok wu wd r" and "int wu < 2 ^ 63"
  shows "run_ok wu wd r1"
proof -
  obtain res s where rs: "up_round su r = (res, s)" by fastforce
  have r1: "rn_upResult r = None"
    "r1 = r\<lparr>rn_up := s, rn_stats := cp_stats s, rn_upResult := res, rn_halfTarget := res \<noteq> None\<rparr>"
    using assms(1) rs by (auto split: if_splits)
  obtain st where st: "rn_stats r = Some st" "stats_range st" "st_upload st = cp_written (rn_up r)"
    "st_download st = cp_written (rn_down r)"
    "st_reportedUpload st = told True (rn_events r)" "st_reportedDownload st = told False (rn_events r)"
    using assms(2) by (auto simp: run_ok_def counts_ok_def)
  have ret: "rn_returned r = None" using assms(2) r1(1) by (auto simp: run_ok_def ended_ok_def)
  show ?thesis
    by (rule round_counts [OF rs [unfolded up_round_def st(1)] st(2) _ _ assms(3)])
      (use assms(2) r1 st ret in \<open>auto simp: run_ok_def counts_ok_def sizes_ok_def ended_ok_def\<close>)
qed

lemma download_round_ok:
  assumes "act su DownloadRound r = Some r1" and "run_ok wu wd r" and "int wd < 2 ^ 63"
  shows "run_ok wu wd r1"
proof -
  obtain res s where rs: "down_round su r = (res, s)" by fastforce
  have r1: "rn_downResult r = None"
    "r1 = r\<lparr>rn_down := s, rn_stats := cp_stats s, rn_downResult := res, rn_halfClient := res \<noteq> None\<rparr>"
    using assms(1) rs by (auto split: if_splits)
  obtain st where st: "rn_stats r = Some st" "stats_range st" "st_upload st = cp_written (rn_up r)"
    "st_download st = cp_written (rn_down r)"
    "st_reportedUpload st = told True (rn_events r)" "st_reportedDownload st = told False (rn_events r)"
    using assms(2) by (auto simp: run_ok_def counts_ok_def)
  have ret: "rn_returned r = None" using assms(2) r1(1) by (auto simp: run_ok_def ended_ok_def)
  show ?thesis
    by (rule round_counts [OF rs [unfolded down_round_def st(1)] st(2) _ _ assms(3)])
      (use assms(2) r1 st ret in \<open>auto simp: run_ok_def counts_ok_def sizes_ok_def ended_ok_def\<close>)
qed

lemma tick_ok:
  assumes "act su (ReporterTick authorized) r = Some r1" and "run_ok wu wd r"
  shows "run_ok wu wd r1"
proof -
  obtain st where st: "rn_stats r = Some st" "stats_range st" using assms(2) by (auto simp: run_ok_def counts_ok_def)
  then have "stats_range (st\<lparr>st_reportedUpload := st_upload st, st_reportedDownload := st_download st\<rparr>)"
    by (simp add: stats_range_def)
  moreover have "0 \<le> st_upload st - st_reportedUpload st" "0 \<le> st_download st - st_reportedDownload st"
    using st(2) by (simp_all add: stats_range_def)
  ultimately show ?thesis
    using assms st
    by (auto simp: reportActiveTunnel_tick_def Delta_range run_ok_def counts_ok_def sizes_ok_def ended_ok_def
        closed_reader_def copy_weight_def Let_def split: if_splits)
qed

lemma ends_ok:
  assumes "act su TunnelEnds r = Some r1" and "run_ok wu wd r"
  shows "run_ok wu wd r1"
proof -
  obtain st where st: "rn_stats r = Some st" "stats_range st" using assms(2) by (auto simp: run_ok_def counts_ok_def)
  then have "stats_range (st\<lparr>st_reportedUpload := st_upload st, st_reportedDownload := st_download st\<rparr>)"
    by (simp add: stats_range_def)
  with assms st show ?thesis
    by (auto simp: close_event_def Delta_range run_ok_def counts_ok_def sizes_ok_def ended_ok_def
        split: option.splits)
qed

lemma act_ok:
  assumes "act su a r = Some r1" and "run_ok wu wd r" and "int wu < 2 ^ 63" and "int wd < 2 ^ 63"
  shows "run_ok wu wd r1"
proof (cases a)
  case TunnelLeft
  with assms(1,2) show ?thesis
    by (auto simp: run_ok_def counts_ok_def sizes_ok_def ended_ok_def split: if_splits)
next
  case TunnelEnds
  show ?thesis by (rule ends_ok [OF assms(1) [unfolded TunnelEnds] assms(2)])
qed (use assms upload_round_ok download_round_ok tick_ok in blast)+

lemma run_acts_ok:
  "run_acts su as r = Some r1 \<Longrightarrow> run_ok wu wd r \<Longrightarrow> int wu < 2 ^ 63 \<Longrightarrow> int wd < 2 ^ 63 \<Longrightarrow> run_ok wu wd r1"
proof (induction as arbitrary: r)
  case (Cons a as)
  then obtain r2 where "act su a r = Some r2" "run_acts su as r2 = Some r1"
    by (auto simp: bind_eq_Some_conv)
  with Cons show ?case by (blast intro: act_ok)
qed simp

lemma run_start_ok:
  "run_ok (chunk_weight (rd_chunks clientReader)) (chunk_weight (rd_chunks target))
     (run_start t upBuf downBuf clientReader target)"
  by (simp add: run_ok_def counts_ok_def sizes_ok_def ended_ok_def run_start_def fresh_copy_def copy_weight_def
      stats_range_def new_stats_def)

section \<open>Without a refusal\<close>

definition unrefused :: "tunnel_setup \<Rightarrow> copy_state \<Rightarrow> copy_state \<Rightarrow> tunnel_run \<Rightarrow> bool" where
  "unrefused su up down r \<longleftrightarrow>
     (rn_cut r \<longrightarrow> rn_returned r \<noteq> None) \<and> ended_ok r \<and>
     follows (su_upEnv su) (if su_padding su then RemovePadding else NoPadding) True up (rn_upResult r) (rn_up r) \<and>
     follows (su_downEnv su) (if su_padding su then AddPadding else NoPadding) False down (rn_downResult r) (rn_down r)"

lemma act_unrefused:
  assumes "act su a r = Some r1" and "unrefused su up down r" and "a \<noteq> ReporterTick False"
  shows "unrefused su up down r1"
proof (cases a)
  case UploadRound
  then have none: "rn_upResult r = None" using assms(1) by (auto split: if_splits)
  then have "\<not> rn_cut r" using assms(2) by (auto simp: unrefused_def ended_ok_def)
  with UploadRound none assms show ?thesis
    by (auto simp: unrefused_def ended_ok_def up_round_def split: prod.splits intro: follows_round)
next
  case DownloadRound
  then have none: "rn_downResult r = None" using assms(1) by (auto split: if_splits)
  with DownloadRound assms show ?thesis
    by (auto simp: unrefused_def ended_ok_def down_round_def split: prod.splits intro: follows_round)
next
  case (ReporterTick authorized)
  with assms show ?thesis
    by (auto simp: unrefused_def ended_ok_def reportActiveTunnel_tick_def Let_def split: prod.splits if_splits)
next
  case TunnelEnds
  with assms show ?thesis by (auto simp: unrefused_def ended_ok_def split: option.splits prod.splits)
next
  case TunnelLeft
  with assms show ?thesis by (auto simp: unrefused_def ended_ok_def split: if_splits)
qed

lemma run_acts_unrefused:
  "run_acts su as r = Some r1 \<Longrightarrow> unrefused su up down r \<Longrightarrow> ReporterTick False \<notin> set as \<Longrightarrow> unrefused su up down r1"
proof (induction as arbitrary: r)
  case (Cons a as)
  then obtain r2 where "act su a r = Some r2" "run_acts su as r2 = Some r1"
    by (auto simp: bind_eq_Some_conv)
  with Cons show ?case by (fastforce intro: act_unrefused)
qed simp

lemma run_start_unrefused:
  "unrefused su (fresh_copy upBuf clientReader) (fresh_copy downBuf target)
     (run_start t upBuf downBuf clientReader target)"
  by (simp add: unrefused_def follows_def ended_ok_def run_start_def fresh_copy_def)

text \<open>The sequential copy from the same start, with any counters.\<close>

lemma follows_copy:
  assumes "follows env paddingType upload (fresh_copy buf src) (Some e) s"
    and "flushingIoCopy env paddingType upload buf stats src = (e1, s1)"
  shows "e = e1 \<and> cp_out s = cp_out s1 \<and> cp_written s = cp_written s1"
proof -
  have "copy_loop env paddingType upload (fresh_copy buf src) = (e, s\<lparr>cp_stats := None\<rparr>)"
    using assms(1) by (simp add: follows_def)
  from copy_loop_stats [OF this] obtain n where
    "copy_loop env paddingType upload ((fresh_copy buf src)\<lparr>cp_stats := stats\<rparr>) =
       (e, s\<lparr>cp_stats := add_count upload n stats\<rparr>)"
    by auto
  with assms(2) show ?thesis by (auto simp: flushingIoCopy_def fresh_copy_def)
qed

section \<open>How long a run can be\<close>

definition is_round :: "tunnel_act \<Rightarrow> bool" where
  "is_round a \<longleftrightarrow> a = UploadRound \<or> a = DownloadRound"

definition rounds_left :: "tunnel_run \<Rightarrow> nat" where
  "rounds_left r =
     copy_weight (rn_up r) + (if rn_upResult r = None then 1 else 0) +
     copy_weight (rn_down r) + (if rn_downResult r = None then 1 else 0)"

lemma round_weight:
  assumes "copy_round env paddingType upload (s\<lparr>cp_stats := x\<rparr>) = (res, s1)"
  shows "copy_weight s1 + (if res = None then 1 else 0) < copy_weight s + 1"
proof -
  have "copy_weight (s\<lparr>cp_stats := x\<rparr>) = copy_weight s" by (simp add: copy_weight_def)
  moreover have "copy_weight s1 \<le> copy_weight (s\<lparr>cp_stats := x\<rparr>)"
    using copy_round_effect [OF assms] by (metis add_leD2)
  moreover have "res = None \<Longrightarrow> copy_weight s1 < copy_weight (s\<lparr>cp_stats := x\<rparr>)"
    using assms copy_round_progress by blast
  ultimately show ?thesis by auto
qed

lemma act_rounds_left:
  assumes "act su a r = Some r1"
  shows "rounds_left r1 + (if is_round a then 1 else 0) \<le> rounds_left r"
proof (cases a)
  case UploadRound
  obtain res s where rs: "up_round su r = (res, s)" by fastforce
  with assms UploadRound have "rn_upResult r = None" "rn_up r1 = s" "rn_upResult r1 = res"
    "rn_down r1 = rn_down r" "rn_downResult r1 = rn_downResult r"
    by (auto split: if_splits)
  with round_weight [OF rs [unfolded up_round_def]] UploadRound show ?thesis
    by (simp add: rounds_left_def is_round_def)
next
  case DownloadRound
  obtain res s where rs: "down_round su r = (res, s)" by fastforce
  with assms DownloadRound have "rn_downResult r = None" "rn_down r1 = s" "rn_downResult r1 = res"
    "rn_up r1 = rn_up r" "rn_upResult r1 = rn_upResult r"
    by (auto split: if_splits)
  with round_weight [OF rs [unfolded down_round_def]] DownloadRound show ?thesis
    by (simp add: rounds_left_def is_round_def)
next
  case (ReporterTick authorized)
  with assms show ?thesis
    by (auto simp: rounds_left_def is_round_def Let_def closed_reader_def copy_weight_def split: prod.splits if_splits)
next
  case TunnelEnds
  with assms show ?thesis by (auto simp: rounds_left_def is_round_def split: option.splits prod.splits)
next
  case TunnelLeft
  with assms show ?thesis by (auto simp: rounds_left_def is_round_def split: if_splits)
qed

lemma run_acts_rounds:
  "run_acts su as r = Some r1 \<Longrightarrow> rounds_left r1 + length (filter is_round as) \<le> rounds_left r"
proof (induction as arbitrary: r)
  case (Cons a as)
  then obtain r2 where r2: "act su a r = Some r2" "run_acts su as r2 = Some r1"
    by (auto simp: bind_eq_Some_conv)
  from Cons.IH [OF r2(2)] act_rounds_left [OF r2(1)] show ?case by (simp split: if_splits)
qed simp

lemma run_acts_append: "run_acts su (as @ bs) r = Option.bind (run_acts su as r) (run_acts su bs)"
  by (induction as arbitrary: r) (auto split: bind_split)

text \<open>What is missing can be made up: first the upload, then the download, then the end.\<close>

lemma run_to_end:
  assumes "rn_returned r = None"
  shows "\<exists>as r1. run_acts su as r = Some r1 \<and> rn_returned r1 \<noteq> None"
  using assms
proof (induction "rounds_left r" arbitrary: r rule: less_induct)
  case less
  have next_act: ?case if "act su a r = Some r1" "is_round a" "rn_returned r1 = None" for a r1
  proof -
    from act_rounds_left [OF that(1)] that(2) have "rounds_left r1 < rounds_left r" by simp
    from less.hyps [OF this that(3)] obtain as r2 where "run_acts su as r1 = Some r2" "rn_returned r2 \<noteq> None"
      by blast
    with that(1) show ?thesis by (intro exI [of _ "a # as"]) auto
  qed
  show ?case
  proof (cases "rn_upResult r = None")
    case True
    obtain res s where "up_round su r = (res, s)" by fastforce
    with True less.prems have "\<exists>r1. act su UploadRound r = Some r1 \<and> rn_returned r1 = None" by simp
    then show ?thesis using next_act [of UploadRound] by (auto simp: is_round_def)
  next
    case up: False
    show ?thesis
    proof (cases "rn_downResult r = None")
      case True
      obtain res s where "down_round su r = (res, s)" by fastforce
      with True less.prems have "\<exists>r1. act su DownloadRound r = Some r1 \<and> rn_returned r1 = None" by simp
    then show ?thesis using next_act [of DownloadRound] by (auto simp: is_round_def)
    next
      case False
      with up less.prems have "\<exists>r1. act su TunnelEnds r = Some r1 \<and> rn_returned r1 \<noteq> None"
        by (auto split: prod.splits)
      then show ?thesis by (metis bind.bind_lunit run_acts.simps)
    qed
  qed
qed

text \<open>
  A tunnel whose authorisation was refused does not end by itself: the reporter closes the
  target alone, and as long as the client neither sends nor closes, the tunnel stays open.
\<close>

lemma cut_tunnel_waits_for_client:
  "run_acts su as r = Some r1 \<Longrightarrow> UploadRound \<notin> set as \<Longrightarrow> rn_upResult r = None \<Longrightarrow> rn_returned r = None \<Longrightarrow>
     rn_upResult r1 = None \<and> rn_returned r1 = None"
proof (induction as arbitrary: r)
  case (Cons a as)
  then obtain r2 where r2: "act su a r = Some r2" "run_acts su as r2 = Some r1"
    by (auto simp: bind_eq_Some_conv)
  have "rn_upResult r2 = None \<and> rn_returned r2 = None"
    using r2(1) Cons.prems by (cases a) (auto simp: Let_def split: prod.splits if_splits option.splits)
  with Cons r2(2) show ?case by auto
qed simp

text \<open>
  The reporter is stopped only after the close event: a tick in between asks for the
  user's authorisation once more, and the address just released is admitted again.
\<close>

lemma late_tick_reauthorises:
  assumes "rn_returned r = Some err" and "rn_reporter r" and "rn_stats r = Some st"
  shows "\<exists>r1. act su (ReporterTick True) r = Some r1 \<and> rn_returned r1 = Some err"
  using assms by (auto simp: Let_def split: prod.splits)

section \<open>Properties\<close>

text \<open>
  C10. A tunnel does the same in every interleaving.  However the rounds of its two copies, the
  ticks of the reporter and the end interleave, the events it emits tell exactly the
  bytes it copied, in each direction; and unless the user's authorisation was refused on
  the way, what reached either side, the counts and the error returned are those of
  \<open>dualStream\<close> with one direction run after the other.
\<close>

theorem tunnel_any_interleaving:
  assumes "run_acts su acts (run_start (su_info su) upBuf downBuf clientReader target) = Some r"
    and "rn_returned r = Some err"
    and "chunk_weight (rd_chunks clientReader) < 2 ^ 63" and "chunk_weight (rd_chunks target) < 2 ^ 63"
    and "dualStream (su_upEnv su) (su_downEnv su) (su_padding su) upBuf downBuf (Some new_stats) clientReader target =
      (err1, up, down)"
  shows "told True (rn_events r) = cp_written (rn_up r) \<and> told False (rn_events r) = cp_written (rn_down r) \<and>
     (ReporterTick False \<notin> set acts \<longrightarrow>
        err = err1 \<and> cp_out (rn_up r) = cp_out up \<and> cp_out (rn_down r) = cp_out down \<and>
        cp_written (rn_up r) = cp_written up \<and> cp_written (rn_down r) = cp_written down)"
proof -
  have "int (chunk_weight (rd_chunks clientReader)) < 2 ^ 63" "int (chunk_weight (rd_chunks target)) < 2 ^ 63"
    using assms(3,4) by simp_all
  from run_acts_ok [OF assms(1) run_start_ok this]
  have "told True (rn_events r) = cp_written (rn_up r)" "told False (rn_events r) = cp_written (rn_down r)"
    using assms(2) by (auto simp: run_ok_def counts_ok_def)
  moreover have "err = err1 \<and> cp_out (rn_up r) = cp_out up \<and> cp_out (rn_down r) = cp_out down \<and>
      cp_written (rn_up r) = cp_written up \<and> cp_written (rn_down r) = cp_written down"
    if "ReporterTick False \<notin> set acts"
  proof -
    have u: "unrefused su (fresh_copy upBuf clientReader) (fresh_copy downBuf target) r"
      by (rule run_acts_unrefused [OF assms(1) run_start_unrefused that])
    then obtain upErr downErr where e: "rn_upResult r = Some upErr" "rn_downResult r = Some downErr"
      "err = dual_result upErr downErr"
      using assms(2) by (auto simp: unrefused_def ended_ok_def)
    obtain e1 e2 where seq: "flushingIoCopy (su_upEnv su) (if su_padding su then RemovePadding else NoPadding) True
        upBuf (Some new_stats) clientReader = (e1, up)"
      "flushingIoCopy (su_downEnv su) (if su_padding su then AddPadding else NoPadding) False
        downBuf (cp_stats up) target = (e2, down)" "err1 = dual_result e1 e2"
      using assms(5) by (auto simp: dualStream_def dual_result_def Let_def split: prod.splits)
    show ?thesis
      using follows_copy [OF _ seq(1), of upErr "rn_up r"] follows_copy [OF _ seq(2), of downErr "rn_down r"] u e seq(3)
      by (simp add: unrefused_def)
  qed
  ultimately show ?thesis by blast
qed

text \<open>
  C36. Every tunnel of finite streams comes to its end, however it is interleaved: the copies of
  a run make at most as many rounds as the streams have bytes and chunks and two more,
  refusals and writers' errors included, and every run that has not returned can go on
  until it does.
\<close>

theorem tunnel_comes_to_end:
  assumes "run_acts su acts (run_start (su_info su) upBuf downBuf clientReader target) = Some r"
  shows "length (filter is_round acts) \<le> chunk_weight (rd_chunks clientReader) + chunk_weight (rd_chunks target) + 2 \<and>
     (rn_returned r = None \<longrightarrow> (\<exists>more r1. run_acts su (acts @ more)
        (run_start (su_info su) upBuf downBuf clientReader target) = Some r1 \<and> rn_returned r1 \<noteq> None))"
proof -
  have "rounds_left (run_start (su_info su) upBuf downBuf clientReader target) =
      chunk_weight (rd_chunks clientReader) + chunk_weight (rd_chunks target) + 2"
    by (simp add: rounds_left_def run_start_def fresh_copy_def copy_weight_def)
  with run_acts_rounds [OF assms] have
    "length (filter is_round acts) \<le> chunk_weight (rd_chunks clientReader) + chunk_weight (rd_chunks target) + 2"
    by simp
  then show ?thesis using run_to_end [of r su] assms by (auto simp: run_acts_append)
qed

section \<open>Witnesses\<close>

text \<open>Two bytes up, one down; a tick between the rounds, and one after the close event.\<close>

definition sample_setup :: tunnel_setup where
  "sample_setup = \<lparr>su_info = sample_tunnel, su_upEnv = plain_env, su_downEnv = plain_env, su_padding = False\<rparr>"

definition sample_reader :: "byte list \<Rightarrow> reader" where
  "sample_reader d = \<lparr>rd_chunks = [d], rd_eager = False, rd_end = EOF\<rparr>"

definition sample_acts :: "tunnel_act list" where
  "sample_acts =
     [UploadRound, ReporterTick True, DownloadRound, UploadRound, DownloadRound, TunnelEnds, ReporterTick True, TunnelLeft]"

lemma sample_run:
  "\<exists>r. run_acts sample_setup sample_acts (run_start (su_info sample_setup) [] [] (sample_reader [1, 2]) (sample_reader [3])) = Some r \<and>
     rn_returned r = Some None \<and> map ev_Type (rn_events r) = [''open'', ''traffic'', ''close''] \<and>
     cp_written (rn_up r) = 2 \<and> cp_written (rn_down r) = 1"
  by (simp add: sample_acts_def sample_setup_def sample_reader_def run_start_def fresh_copy_def up_round_def down_round_def
      copy_round_def copy_read_def Read_def NoPadding_def AddPadding_def RemovePadding_def plain_env_def Let_def
      AddUpload_def AddDownload_def new_stats_def wrap64_def reportActiveTunnel_tick_def Delta_def deltaSinceLast_def
      close_event_def dual_result_def tunnel_event_def)

theorem tunnel_any_interleaving_witness:
  "\<exists>r err1 up down. run_acts sample_setup sample_acts
       (run_start (su_info sample_setup) [] [] (sample_reader [1, 2]) (sample_reader [3])) = Some r \<and>
     dualStream plain_env plain_env False [] [] (Some new_stats) (sample_reader [1, 2]) (sample_reader [3]) = (err1, up, down) \<and>
     rn_returned r = Some err1 \<and> told True (rn_events r) = 2 \<and> cp_written up = 2 \<and> cp_written down = 1"
proof -
  obtain r where r: "run_acts sample_setup sample_acts
      (run_start (su_info sample_setup) [] [] (sample_reader [1, 2]) (sample_reader [3])) = Some r"
    "rn_returned r = Some None" "cp_written (rn_up r) = 2" "cp_written (rn_down r) = 1"
    using sample_run by blast
  obtain err1 up down where d: "dualStream (su_upEnv sample_setup) (su_downEnv sample_setup) (su_padding sample_setup) [] []
      (Some new_stats) (sample_reader [1, 2]) (sample_reader [3]) = (err1, up, down)"
    by (metis surj_pair)
  have "ReporterTick False \<notin> set sample_acts" by (simp add: sample_acts_def)
  with tunnel_any_interleaving [OF r(1,2) _ _ d] r d show ?thesis
    by (intro exI [of _ r] exI [of _ err1] exI [of _ up] exI [of _ down])
      (simp add: sample_reader_def sample_setup_def)
qed

theorem tunnel_comes_to_end_witness:
  "\<exists>r. run_acts sample_setup sample_acts
       (run_start (su_info sample_setup) [] [] (sample_reader [1, 2]) (sample_reader [3])) = Some r \<and>
     length (filter is_round sample_acts) = 4 \<and> (4 :: nat) \<le> 3 + 2 + 2"
proof -
  obtain r where r: "run_acts sample_setup sample_acts
      (run_start (su_info sample_setup) [] [] (sample_reader [1, 2]) (sample_reader [3])) = Some r"
    using sample_run by blast
  with tunnel_comes_to_end [OF r] show ?thesis
    by (simp add: sample_acts_def is_round_def sample_reader_def)
qed

end
