(* ===== verification/LegacyRequests.thy ===== *)
theory LegacyRequests
  imports LegacyProxy
begin

text \<open>
  Requests of the built-in engine: which credentials are accepted and what a rejected
  request leaves behind, the round trip of basic credentials, target addresses, and the
  headers of a forwarded request.
\<close>

section \<open>Lemmas\<close>

lemma parseBasicAuth_encode:
  "CHR '':'' \<notin> set user \<Longrightarrow>
     parseBasicAuth (''Basic '' @ b64_encode (user @ CHR '':'' # pass)) = Some (user, pass)"
  unfolding parseBasicAuth_def
  by (simp only: HasPrefix_append if_False not_True_eq_False append_eq_conv_conj [THEN iffD1, OF refl, THEN conjunct2, symmetric])
     (simp add: b64_decode_encode split2_append)

lemma fold_delete: "fold (\<lambda>key h. h(key := None)) ks h key = (if key \<in> set ks then None else h key)"
  by (induction ks arbitrary: h) auto

lemma stripProxyHeaders_get:
  "stripProxyHeaders h key = (if key \<in> set proxy_headers then None else h key)"
  unfolding stripProxyHeaders_def by (rule fold_delete)

lemma cloneHeader_id [simp]: "cloneHeader h = h"
  by (auto simp: cloneHeader_def range_update_def fun_eq_iff split: option.split)

text \<open>The credentials a request carries.\<close>

definition credentials :: "Request \<Rightarrow> (string \<times> string) option" where
  "credentials r =
     parseBasicAuth (if header_Get (rq_Header r) ''Proxy-Authorization'' = []
                     then header_Get (rq_Header r) ''Authorization''
                     else header_Get (rq_Header r) ''Proxy-Authorization'')"

text \<open>Users are stored under their own uuid.\<close>

definition users_keyed :: "ProxyServer \<Rightarrow> bool" where
  "users_keyed s \<longleftrightarrow> (\<forall>uuid user. px_users s uuid = Some user \<longrightarrow> ui_Uuid user = uuid)"

lemma users_keyed_enter: "users_keyed s \<Longrightarrow> users_keyed (legacy_enter_user user s)"
  by (simp add: users_keyed_def legacy_enter_user_def)

lemma users_keyed_cong: "px_users s1 = px_users s \<Longrightarrow> users_keyed s1 = users_keyed s"
  by (simp add: users_keyed_def)

lemma set_or_new_users [simp]: "px_users (legacy_set_or_new user s) = px_users s"
  by (simp add: legacy_set_or_new_def update_counter_def new_counter_def split: option.split)

lemma delete_users [simp]:
  "px_users (legacy_delete user s) = (px_users s)(ui_Uuid user := None)"
  by (simp add: legacy_delete_def Let_def update_counter_def split: option.split)

lemma add_users [simp]:
  "px_users (legacy_add user s) = (px_users s)(ui_Uuid user \<mapsto> user)"
  by (simp add: legacy_add_def Let_def legacy_enter_user_def new_counter_def split: option.split)

lemma modify_users [simp]:
  "px_users (legacy_modify user s) = (px_users s)(ui_Uuid user \<mapsto> user)"
  by (simp add: legacy_modify_def legacy_enter_user_def)

lemma users_keyed_New: "users_keyed (legacy_New node users alive)"
proof -
  have 1: "users_keyed (fold legacy_enter_user users s)" if "users_keyed s" for s
    using that by (induction users arbitrary: s) (auto intro: users_keyed_enter)
  have 2: "px_users (fold legacy_set_or_new users s) = px_users s" for s
    by (induction users arbitrary: s) auto
  show ?thesis
    unfolding legacy_New_def legacy_replaceUsers_def users_keyed_def 2
    by (rule 1 [unfolded users_keyed_def]) simp
qed

lemma users_keyed_UpdateUsers:
  assumes "users_keyed s"
  shows "users_keyed (legacy_UpdateUsers added deleted modified full s)"
proof -
  have keep: "users_keyed (fold f xs s)"
    if "users_keyed s" "\<And>x s. users_keyed s \<Longrightarrow> users_keyed (f x s)" for f :: "UserInfo \<Rightarrow> _" and xs s
    using that by (induction xs arbitrary: s) auto
  have upd: "users_keyed (legacy_delete u s)" "users_keyed (legacy_add u s)"
    "users_keyed (legacy_modify u s)" "users_keyed (legacy_set_or_new u s)" if "users_keyed s" for u s
    using that by (simp_all add: users_keyed_def)
  let ?m = "fold legacy_modify modified (fold legacy_add added (fold legacy_delete deleted s))"
  have m: "users_keyed ?m"
    using assms upd(1-3) by (intro keep)
  then have "users_keyed (case full of None \<Rightarrow> ?m | Some users \<Rightarrow> fold legacy_set_or_new users ?m)"
    using keep [OF m, of legacy_set_or_new] upd(4) by (simp split: option.split)
  then show ?thesis
    by (simp add: legacy_UpdateUsers_def Let_def users_keyed_def)
qed

lemma CheckLimit_reject_unchanged:
  "snd (fst (CheckLimit uuid ip l)) \<Longrightarrow> snd (CheckLimit uuid ip l) = l"
  by (cases "admit uuid (plain_ip ip) l"; cases "fst (admit uuid (plain_ip ip) l)")
     (auto simp: CheckLimit_def Authorize_def Let_def fresh_bucket_def dest: admit_reject_state
       split: if_splits option.splits)

section \<open>Properties\<close>

text \<open>
  A request carries a user exactly if its credentials name a known user as both user
  name and password and the limiter admits the client's address.  Missing credentials,
  wrong ones and a reached device limit are told apart, and a request that is not served
  leaves the engine as it was.
\<close>

theorem legacy_authentication:
  assumes "users_keyed s"
  shows "fst (authenticate r s) =
     (case credentials r of
        None \<Rightarrow> Inl MissingAuth
      | Some (name, pass) \<Rightarrow>
          if px_users s name = None \<or> name \<noteq> pass then Inl InvalidAuth
          else if snd (fst (CheckLimit name (clientIP (rq_RemoteAddr r)) (px_limiter s))) then Inl DeviceLimit
          else Inr (the (px_users s name), fst (fst (CheckLimit name (clientIP (rq_RemoteAddr r)) (px_limiter s))))) \<and>
     (isl (fst (authenticate r s)) \<longrightarrow> snd (authenticate r s) = s)"
proof (cases "credentials r")
  case None
  then show ?thesis by (simp add: authenticate_def credentials_def Let_def)
next
  case (Some np)
  obtain name pass where np: "np = (name, pass)" by (cases np)
  show ?thesis
  proof (cases "px_users s name")
    case None
    with Some np show ?thesis by (simp add: authenticate_def credentials_def Let_def)
  next
    case u: (Some user)
    with assms have "ui_Uuid user = name" by (simp add: users_keyed_def)
    with Some np u show ?thesis
      using CheckLimit_reject_unchanged [of name "clientIP (rq_RemoteAddr r)" "px_limiter s"]
      by (auto simp: authenticate_def credentials_def Let_def split: prod.split)
  qed
qed

definition sample_request :: "string \<Rightarrow> Request" where
  "sample_request auth =
     \<lparr>rq_Method = ''CONNECT'', rq_Host = ''h:443'', rq_URL = None, rq_RequestURI = [],
      rq_Header = [''Proxy-Authorization'' \<mapsto> [auth]], rq_RemoteAddr = ''1.2.3.4:5'', rq_ProtoMajor = 1\<rparr>"

theorem legacy_authentication_witness:
  "fst (authenticate (sample_request (''Basic '' @ b64_encode ''u:x''))
      (legacy_New sample_node [sample_user] Map.empty)) = Inl InvalidAuth \<and>
   snd (authenticate (sample_request (''Basic '' @ b64_encode ''u:x''))
      (legacy_New sample_node [sample_user] Map.empty)) = legacy_New sample_node [sample_user] Map.empty"
proof -
  let ?r = "sample_request (''Basic '' @ b64_encode ''u:x'')"
  have "credentials ?r = Some (''u'', ''x'')"
    using parseBasicAuth_encode [of "''u''" "''x''"]
    by (simp add: credentials_def sample_request_def header_Get_def)
  then show ?thesis
    using legacy_authentication [OF users_keyed_New, of ?r sample_node "[sample_user]" Map.empty]
    by simp
qed

text \<open>
  A forwarded request leaves with none of the hop-by-hop and proxy headers, the
  client's credentials included, with every other header as it came, and with an
  absolute URL: the host and path of the request if it had no scheme.
\<close>

theorem forwarded_request_headers:
  assumes "legacy_outReq r = Some r1"
  shows "(\<forall>key. rq_Header r1 key = (if key \<in> set proxy_headers then None else rq_Header r key)) \<and>
     rq_RequestURI r1 = [] \<and>
     (\<exists>u u1. rq_URL r = Some u \<and> rq_URL r1 = Some u1 \<and> url_Scheme u1 \<noteq> [] \<and> url_Path u1 = url_Path u \<and>
        (url_Scheme u \<noteq> [] \<longrightarrow> u1 = u) \<and> (url_Scheme u = [] \<longrightarrow> url_Host u1 = rq_Host r))"
  using assms by (auto simp: legacy_outReq_def Let_def stripProxyHeaders_get split: option.splits)

theorem forwarded_request_headers_witness:
  "\<exists>r1. legacy_outReq (sample_request ''x''\<lparr>rq_URL := Some \<lparr>url_Scheme = [], url_Host = [],
       url_Path = ''/p'', url_RawQuery = []\<rparr>\<rparr>) = Some r1 \<and> rq_Header r1 ''Proxy-Authorization'' = None"
proof -
  obtain r1 where r1: "legacy_outReq (sample_request ''x''\<lparr>rq_URL := Some \<lparr>url_Scheme = [],
      url_Host = [], url_Path = ''/p'', url_RawQuery = []\<rparr>\<rparr>) = Some r1"
    by (simp add: legacy_outReq_def)
  from forwarded_request_headers [OF r1] r1 show ?thesis by (auto simp: proxy_headers_def)
qed

end
