(* ===== verification/LegacyServe.thy ===== *)
theory LegacyServe
  imports LegacyAccounting LegacyRequests
begin

text \<open>
  A whole request of the built-in engine, from authentication to the copied bytes, and what
  it adds to its user's account.
\<close>

section \<open>Serving\<close>

text \<open>
  What a request meets behind the authentication: the transport and the reads of the body,
  or dialling, hijacking, the greeting, the bytes the client sent ahead and the copies.
\<close>

record serve_env =
  sv_roundTrip :: "Request \<Rightarrow> string + int \<times> (string \<times> string list) list \<times> int"
  sv_reads :: "int list option"
  sv_dial :: "string \<Rightarrow> string option"
  sv_canHijack :: bool
  sv_hijack :: "string option"
  sv_greeted :: bool
  sv_buffered :: int
  sv_copies :: "(bool \<times> int) list"

datatype serve_result = Refused served | Tunnelled connect_result | Proxied http_result

definition legacy_serve :: "serve_env \<Rightarrow> Request \<Rightarrow> ProxyServer \<Rightarrow> serve_result \<times> ProxyServer" where
  "legacy_serve env r s =
     (case legacy_ServeHTTP r s of
        (HandleConnect user b, s1) \<Rightarrow>
          (case handleConnect (sv_dial env) (sv_canHijack env) (sv_hijack env) (sv_greeted env)
                  (sv_buffered env) r user s1 of
             (ConnectTunnel a, s2) \<Rightarrow> (Tunnelled (ConnectTunnel a), pipeTunnel (sv_copies env) a s2)
           | (res, s2) \<Rightarrow> (Tunnelled res, s2))
      | (HandleHTTP user b, s1) \<Rightarrow>
          (case handleHTTP (sv_roundTrip env) (sv_reads env) r user s1 of (res, s2) \<Rightarrow> (Proxied res, s2))
      | (res, s1) \<Rightarrow> (Refused res, s1))"

text \<open>
  The answer to a refused request: \<^verbatim>\<open>http.Error\<close> with its headers and the line break it
  adds, and the challenge of \<^verbatim>\<open>writeProxyAuthRequired\<close>.
\<close>

definition http_Error :: "string \<Rightarrow> int \<Rightarrow> header \<Rightarrow> int \<times> header \<times> string" where
  "http_Error text code h =
     (code, h(''Content-Length'' := None, ''Content-Type'' \<mapsto> [''text/plain; charset=utf-8''],
              ''X-Content-Type-Options'' \<mapsto> [''nosniff'']), text @ [CHR 0x0A])"

definition writeProxyAuthRequired :: "header \<Rightarrow> int \<times> header \<times> string" where
  "writeProxyAuthRequired h =
     http_Error ''proxy authentication required'' 407
       (h(''Proxy-Authenticate'' \<mapsto> [''Basic realm='' @ [CHR 0x22] @ ''proxy'' @ [CHR 0x22]]))"

definition refusal_answer :: "served \<Rightarrow> header \<Rightarrow> (int \<times> header \<times> string) option" where
  "refusal_answer res h =
     (case res of
        DeviceLimitReached \<Rightarrow> Some (http_Error ''device limit reached'' 403 h)
      | ProxyAuthRequired \<Rightarrow> Some (writeProxyAuthRequired h)
      | _ \<Rightarrow> None)"

text \<open>
  A refused request is answered, a browser is asked for credentials exactly when they are
  missing or wrong, and a handed on one is not answered here.
\<close>

lemma refusal_answered:
  "legacy_serve env r s = (res, s1) \<Longrightarrow>
     (\<exists>ref. res = Refused ref) \<longleftrightarrow> refusal_answer (fst (legacy_ServeHTTP r s)) h \<noteq> None"
  by (auto simp: legacy_serve_def refusal_answer_def writeProxyAuthRequired_def http_Error_def
      split: prod.splits served.splits connect_result.splits)

lemma challenge_iff:
  "(\<exists>c hdr text. refusal_answer (fst (legacy_ServeHTTP r s)) Map.empty = Some (c, hdr, text) \<and>
      hdr ''Proxy-Authenticate'' \<noteq> None) \<longleftrightarrow>
   fst (authenticate r s) = Inl MissingAuth \<or> fst (authenticate r s) = Inl InvalidAuth"
  by (auto simp: refusal_answer_def legacy_ServeHTTP_def writeProxyAuthRequired_def http_Error_def
      split: prod.splits sum.splits auth_error.splits)

text \<open>The bytes a request moves, given how it ended.\<close>

definition copies_sum :: "bool \<Rightarrow> (bool \<times> int) list \<Rightarrow> int" where
  "copies_sum upload copies = sum_list (map snd (filter (\<lambda>c. fst c = upload) copies))"

definition served_up :: "serve_env \<Rightarrow> Request \<Rightarrow> serve_result \<Rightarrow> int" where
  "served_up env r res =
     (case res of
        Tunnelled (ConnectTunnel a) \<Rightarrow>
          (if rq_ProtoMajor r = 1 \<and> sv_buffered env > 0 then sv_buffered env else 0) + copies_sum True (sv_copies env)
      | Proxied HttpBadRequest \<Rightarrow> 0
      | Proxied _ \<Rightarrow> (case sv_reads env of None \<Rightarrow> 0 | Some ns \<Rightarrow> sum_list ns)
      | _ \<Rightarrow> 0)"

definition served_down :: "serve_env \<Rightarrow> Request \<Rightarrow> serve_result \<Rightarrow> int" where
  "served_down env r res =
     (case res of
        Tunnelled (ConnectTunnel a) \<Rightarrow> copies_sum False (sv_copies env)
      | Proxied (HttpAnswered _ _) \<Rightarrow>
          (case legacy_outReq r of
             None \<Rightarrow> 0
           | Some outReq \<Rightarrow> (case sv_roundTrip env outReq of Inl _ \<Rightarrow> 0 | Inr (_, _, n) \<Rightarrow> n))
      | _ \<Rightarrow> 0)"

section \<open>What copying adds\<close>

definition adds :: "string \<Rightarrow> int \<Rightarrow> int \<Rightarrow> ProxyServer \<Rightarrow> ProxyServer \<Rightarrow> bool" where
  "adds uuid u d s s1 \<longleftrightarrow>
     accounts_ok s1 \<and>
     pending_up (abs_stats s1) = (pending_up (abs_stats s))(uuid := pending_up (abs_stats s) uuid + u) \<and>
     pending_down (abs_stats s1) = (pending_down (abs_stats s))(uuid := pending_down (abs_stats s) uuid + d)"

lemma adds_trans: "adds uuid u d s s1 \<Longrightarrow> adds uuid u' d' s1 s2 \<Longrightarrow> adds uuid (u + u') (d + d') s s2"
  by (simp add: adds_def add.assoc)

lemma adds_nothing: "keeps_pending s s1 \<Longrightarrow> accounts_ok s \<Longrightarrow> adds uuid 0 0 s s1"
  using keeps_ok [of s s1] by (auto simp: adds_def keeps_pending_def same_pending_def)

lemma adds_ok: "adds uuid u d s s1 \<Longrightarrow> accounts_ok s1"
  by (simp add: adds_def)

lemma copy_stats [simp]: "px_stats (copyWithAccount n a upload s) = px_stats s"
  by (simp add: copyWithAccount_def update_counter_def)

lemma pipe_simps [simp]:
  "pipeTunnel [] a s = s"
  "pipeTunnel ((upload, n) # cs) a s = pipeTunnel cs a (copyWithAccount n a upload s)"
  by (simp_all add: pipeTunnel_def)

lemma copies_sum_simps [simp]:
  "copies_sum upload [] = 0"
  "copies_sum upload ((up, n) # cs) = (if up = upload then n else 0) + copies_sum upload cs"
  by (simp_all add: copies_sum_def)

lemma copies_sum_nonneg: "\<forall>(up, n)\<in>set cs. 0 \<le> n \<Longrightarrow> 0 \<le> copies_sum upload cs"
  by (induction cs) auto

lemma pipe_adds:
  assumes "accounts_ok s" and "px_stats s uuid = Some a" and "\<forall>(up, n)\<in>set cs. 0 \<le> n"
    and "pending_up (abs_stats s) uuid + copies_sum True cs < 2 ^ 63"
    and "pending_down (abs_stats s) uuid + copies_sum False cs < 2 ^ 63"
  shows "adds uuid (copies_sum True cs) (copies_sum False cs) s (pipeTunnel cs a s)"
  using assms
proof (induction cs arbitrary: s)
  case Nil
  then show ?case by (simp add: adds_def)
next
  case (Cons c cs)
  obtain upload n where c: "c = (upload, n)" by fastforce
  have n: "0 \<le> n" "0 \<le> copies_sum True cs" "0 \<le> copies_sum False cs"
    using Cons.prems(3) c copies_sum_nonneg [of cs] by auto
  have "accounts_ok (copyWithAccount n a upload s) \<and>
     pending_up (abs_stats (copyWithAccount n a upload s)) =
      (pending_up (abs_stats s))(uuid := pending_up (abs_stats s) uuid + (if upload then n else 0)) \<and>
     pending_down (abs_stats (copyWithAccount n a upload s)) =
      (pending_down (abs_stats s))(uuid := pending_down (abs_stats s) uuid + (if upload then 0 else n))"
    using Cons.prems(4,5) c n by (intro attached_add [OF Cons.prems(1,2)]) auto
  then have 1: "adds uuid (if upload then n else 0) (if upload then 0 else n) s (copyWithAccount n a upload s)"
    by (simp add: adds_def)
  have 2: "adds uuid (copies_sum True cs) (copies_sum False cs) (copyWithAccount n a upload s)
      (pipeTunnel cs a (copyWithAccount n a upload s))"
    using Cons.prems c 1 by (intro Cons.IH) (auto simp: adds_def)
  from adds_trans [OF 1 2] c show ?case by (cases upload) simp_all
qed

lemma getCounter_adds:
  assumes "accounts_ok s" and "uuid \<noteq> []" and "legacy_getCounter uuid s = (a, s1)"
  shows "adds uuid 0 0 s s1" and "px_stats s1 uuid = Some a"
  using getCounter_keeps [OF assms(1,2)] adds_nothing [OF _ assms(1)] assms(3) by auto

lemma reads_pipe: "fold (\<lambda>n. countingReader_Read n a True) ns s = pipeTunnel (map (Pair True) ns) a s"
  by (induction ns arbitrary: s) (simp_all add: countingReader_Read_def copyWithAccount_def)

lemma reads_sum [simp]:
  "copies_sum True (map (Pair True) ns) = sum_list ns" "copies_sum False (map (Pair True) ns) = 0"
  by (induction ns) simp_all

text \<open>A counter is fetched and copies run on it.\<close>

lemma counted_copies:
  assumes "accounts_ok s" and "uuid \<noteq> []" and "legacy_getCounter uuid s = (a, s0)"
    and "\<forall>(up, n)\<in>set cs. 0 \<le> n"
    and "pending_up (abs_stats s) uuid + copies_sum True cs < 2 ^ 63"
    and "pending_down (abs_stats s) uuid + copies_sum False cs < 2 ^ 63"
  shows "adds uuid (copies_sum True cs) (copies_sum False cs) s (pipeTunnel cs a s0)"
proof -
  have 0: "adds uuid 0 0 s s0" "px_stats s0 uuid = Some a" using getCounter_adds [OF assms(1-3)] .
  have "adds uuid (copies_sum True cs) (copies_sum False cs) s0 (pipeTunnel cs a s0)"
    using 0 assms(4-6) by (intro pipe_adds) (auto simp: adds_def)
  from adds_trans [OF 0(1) this] show ?thesis by simp
qed

lemma handleHTTP_adds:
  assumes "accounts_ok s" and "ui_Uuid user \<noteq> []"
    and "handleHTTP (sv_roundTrip env) (sv_reads env) r user s = (res, s1)"
    and "\<forall>ns. sv_reads env = Some ns \<longrightarrow> (\<forall>n\<in>set ns. 0 \<le> n)"
    and "\<forall>req status hdr n. sv_roundTrip env req = Inr (status, hdr, n) \<longrightarrow> 0 \<le> n"
    and "pending_up (abs_stats s) (ui_Uuid user) + served_up env r (Proxied res) < 2 ^ 63"
    and "pending_down (abs_stats s) (ui_Uuid user) + served_down env r (Proxied res) < 2 ^ 63"
  shows "adds (ui_Uuid user) (served_up env r (Proxied res)) (served_down env r (Proxied res)) s s1"
proof (cases "legacy_outReq r")
  case None
  then show ?thesis using assms(1,3) by (auto simp: handleHTTP_def served_up_def served_down_def adds_def)
next
  case (Some outReq)
  let ?uuid = "ui_Uuid user"
  let ?reads = "case sv_reads env of None \<Rightarrow> 0 | Some ns \<Rightarrow> sum_list ns"
  obtain s0 where s0: "s0 = (case sv_reads env of
      None \<Rightarrow> s
    | Some ns \<Rightarrow> (case legacy_getCounter ?uuid s of
        (a, s') \<Rightarrow> fold (\<lambda>n. countingReader_Read n a True) ns s'))" by blast
  have bad: "res \<noteq> HttpBadRequest"
    using assms(3) Some by (auto simp: handleHTTP_def Let_def split: sum.splits prod.splits)
  then have up: "served_up env r (Proxied res) = ?reads"
    by (cases res) (simp_all add: served_up_def)
  have 1: "adds ?uuid ?reads 0 s s0"
  proof (cases "sv_reads env")
    case None
    then show ?thesis using assms(1) by (simp add: s0 adds_def)
  next
    case (Some ns)
    obtain a s' where g: "legacy_getCounter ?uuid s = (a, s')" by fastforce
    have "adds ?uuid (copies_sum True (map (Pair True) ns)) (copies_sum False (map (Pair True) ns)) s
        (pipeTunnel (map (Pair True) ns) a s')"
    proof (rule counted_copies [OF assms(1,2) g])
      show "\<forall>(up, n)\<in>set (map (Pair True) ns). 0 \<le> n" using assms(4) Some by auto
      show "pending_up (abs_stats s) ?uuid + copies_sum True (map (Pair True) ns) < 2 ^ 63"
        using assms(6) up Some by simp
      have "0 \<le> served_down env r (Proxied res)"
        using assms(5) by (auto simp: served_down_def split: http_result.split option.split sum.split)
      then show "pending_down (abs_stats s) ?uuid + copies_sum False (map (Pair True) ns) < 2 ^ 63"
        using assms(7) by simp
    qed
    with Some g show ?thesis by (simp add: s0 reads_pipe)
  qed
  show ?thesis
  proof (cases "sv_roundTrip env outReq")
    case (Inl err)
    then have "s1 = s0" "res = HttpBadGateway err" using assms(3) Some by (simp_all add: handleHTTP_def s0)
    with 1 up show ?thesis by (simp add: served_down_def)
  next
    case (Inr answer)
    obtain status hdr n where n: "sv_roundTrip env outReq = Inr (status, hdr, n)" using Inr by (cases answer) auto
    obtain a s2 where g: "legacy_getCounter ?uuid s0 = (a, s2)" by fastforce
    have r: "res = HttpAnswered status (copyHeader hdr Map.empty)" "s1 = copyWithAccount n a False s2"
      using assms(3) Some n g by (simp_all add: handleHTTP_def flip: s0)
    have down: "served_down env r (Proxied res) = n" using Some n by (simp add: served_down_def r)
    have "adds ?uuid (copies_sum True [(False, n)]) (copies_sum False [(False, n)]) s0 (pipeTunnel [(False, n)] a s2)"
      using 1 assms(5-7) n up down by (intro counted_copies [OF adds_ok [OF 1] assms(2) g]) (auto simp: adds_def)
    then have "adds ?uuid 0 n s0 s1" by (simp add: r)
    from adds_trans [OF 1 this] up down show ?thesis by simp
  qed
qed

lemma handleConnect_adds:
  assumes "accounts_ok s" and "ui_Uuid user \<noteq> []"
    and "handleConnect (sv_dial env) (sv_canHijack env) (sv_hijack env) (sv_greeted env) (sv_buffered env) r user s = (res, s1)"
    and "\<forall>(up, n)\<in>set (sv_copies env). 0 \<le> n"
    and "pending_up (abs_stats s) (ui_Uuid user) + served_up env r (Tunnelled res) < 2 ^ 63"
    and "pending_down (abs_stats s) (ui_Uuid user) + served_down env r (Tunnelled res) < 2 ^ 63"
  shows "adds (ui_Uuid user) (served_up env r (Tunnelled res)) (served_down env r (Tunnelled res)) s
     (case res of ConnectTunnel a \<Rightarrow> pipeTunnel (sv_copies env) a s1 | _ \<Rightarrow> s1)"
proof (cases "\<exists>a. res = ConnectTunnel a")
  case False
  then have "s1 = s" "served_up env r (Tunnelled res) = 0" "served_down env r (Tunnelled res) = 0"
    using assms(3) unfolding handleConnect_def Let_def served_up_def served_down_def
    by (auto split: option.splits if_splits prod.splits connect_result.splits)
  with False assms(1) show ?thesis by (auto simp: adds_def split: connect_result.split)
next
  case True
  then obtain a where a: "res = ConnectTunnel a" by blast
  let ?uuid = "ui_Uuid user"
  let ?ahead = "rq_ProtoMajor r = 1 \<and> sv_buffered env > 0"
  let ?n = "if ?ahead then sv_buffered env else 0"
  have up: "served_up env r (Tunnelled res) = ?n + copies_sum True (sv_copies env)"
    and down: "served_down env r (Tunnelled res) = copies_sum False (sv_copies env)"
    by (simp_all add: a served_up_def served_down_def)
  have nonneg: "0 \<le> copies_sum True (sv_copies env)" "0 \<le> copies_sum False (sv_copies env)"
    using copies_sum_nonneg [OF assms(4)] by blast+
  obtain a0 s0 where g0: "legacy_getCounter ?uuid s = (a0, s0)" by fastforce
  define s2 where "s2 = (if ?ahead then copyWithAccount (sv_buffered env) a0 True s0 else s)"
  have 1: "adds ?uuid ?n 0 s s2"
  proof (cases ?ahead)
    case True
    have "adds ?uuid (copies_sum True [(True, sv_buffered env)]) (copies_sum False [(True, sv_buffered env)]) s
        (pipeTunnel [(True, sv_buffered env)] a0 s0)"
      using True assms(5,6) up down nonneg
      by (intro counted_copies [OF assms(1,2) g0]) auto
    with True show ?thesis by (simp add: s2_def)
  next
    case False
    then show ?thesis using assms(1) by (auto simp: s2_def adds_def)
  qed
  have g: "legacy_getCounter ?uuid s2 = (a, s1)"
    using assms(3) a g0 unfolding handleConnect_def Let_def s2_def
    by (auto split: option.splits if_splits prod.splits)
  have "adds ?uuid (copies_sum True (sv_copies env)) (copies_sum False (sv_copies env)) s2
      (pipeTunnel (sv_copies env) a s1)"
    using 1 assms(5,6) up down by (intro counted_copies [OF adds_ok [OF 1] assms(2) g assms(4)]) (auto simp: adds_def)
  from adds_trans [OF 1 this] up down show ?thesis by (simp add: a)
qed

lemma authenticate_user:
  assumes "authenticate r s = (Inr (user, b), s1)" and "users_keyed s"
  shows "credentials r = Some (ui_Uuid user, ui_Uuid user) \<and> px_users s (ui_Uuid user) = Some user"
  using assms by (auto simp: authenticate_def credentials_def users_keyed_def Let_def
      split: option.splits prod.splits if_splits)

lemma served_user:
  assumes "legacy_ServeHTTP r s = (HandleConnect user b, s1) \<or> legacy_ServeHTTP r s = (HandleHTTP user b, s1)"
    and "users_keyed s"
  shows "credentials r = Some (ui_Uuid user, ui_Uuid user) \<and> px_users s (ui_Uuid user) = Some user"
proof -
  have "authenticate r s = (Inr (user, b), s1)"
    using assms(1) by (auto simp: legacy_ServeHTTP_def split: prod.splits sum.splits auth_error.splits if_splits)
  then show ?thesis using assms(2) by (rule authenticate_user)
qed

lemma serve_keeps:
  assumes "legacy_ServeHTTP r s = (res, s1)"
  shows "abs_stats s1 = abs_stats s" and "accounts_ok s \<Longrightarrow> accounts_ok s1"
proof -
  have f: "px_stats s1 = px_stats s" "px_heap s1 = px_heap s" "px_next s1 = px_next s"
    using assms legacy_ServeHTTP_frame [of r s] by simp_all
  then show a: "abs_stats s1 = abs_stats s" by (intro abs_stats_cong)
  show "accounts_ok s \<Longrightarrow> accounts_ok s1"
    using keeps_frame [OF _ f] keeps_ok by blast
qed

section \<open>Properties\<close>

text \<open>
  C17. A request of the built-in engine is billed to its user and to nobody else: a request
  that is refused leaves all accounts alone; one that is served, be it a tunnel or a plain
  request, and however it ends, raises the pending bytes of the user its credentials name
  by exactly the bytes moved in each direction, those the client sent ahead included, and
  leaves every other account as it was.
\<close>

theorem legacy_request_billed:
  assumes "accounts_ok s" and "users_keyed s" and "px_users s [] = None"
    and "legacy_serve env r s = (res, s1)"
    and "\<forall>(up, n)\<in>set (sv_copies env). 0 \<le> n" and "\<forall>ns. sv_reads env = Some ns \<longrightarrow> (\<forall>n\<in>set ns. 0 \<le> n)"
    and "\<forall>req status hdr n. sv_roundTrip env req = Inr (status, hdr, n) \<longrightarrow> 0 \<le> n"
    and "\<forall>uuid. pending_up (abs_stats s) uuid + served_up env r res < 2 ^ 63 \<and>
       pending_down (abs_stats s) uuid + served_down env r res < 2 ^ 63"
  shows "(case res of
      Refused _ \<Rightarrow> abs_stats s1 = abs_stats s
    | _ \<Rightarrow> (\<exists>name. credentials r = Some (name, name) \<and> px_users s name \<noteq> None \<and>
        pending_up (abs_stats s1) =
          (pending_up (abs_stats s))(name := pending_up (abs_stats s) name + served_up env r res) \<and>
        pending_down (abs_stats s1) =
          (pending_down (abs_stats s))(name := pending_down (abs_stats s) name + served_down env r res)))"
proof -
  obtain sv s0 where sv: "legacy_ServeHTTP r s = (sv, s0)" by fastforce
  note k = serve_keeps [OF sv]
  have ok: "accounts_ok s0" by (rule k(2) [OF assms(1)])
  have billed: ?thesis if "adds (ui_Uuid user) (served_up env r res) (served_down env r res) s0 s1"
      and "px_users s (ui_Uuid user) = Some user" and "credentials r = Some (ui_Uuid user, ui_Uuid user)"
      and "\<forall>x. res \<noteq> Refused x" for user
    using that k(1) by (cases res) (auto simp: adds_def)
  show ?thesis
  proof (cases sv)
    case (HandleConnect user b)
    then have u: "credentials r = Some (ui_Uuid user, ui_Uuid user)" "px_users s (ui_Uuid user) = Some user"
      using served_user [of r s user b s0] sv assms(2) by auto
    then have ne: "ui_Uuid user \<noteq> []" using assms(3) by auto
    obtain c s2 where c: "handleConnect (sv_dial env) (sv_canHijack env) (sv_hijack env) (sv_greeted env)
        (sv_buffered env) r user s0 = (c, s2)" by fastforce
    have res: "res = Tunnelled c" "s1 = (case c of ConnectTunnel a \<Rightarrow> pipeTunnel (sv_copies env) a s2 | _ \<Rightarrow> s2)"
      using assms(4) sv HandleConnect c by (auto simp: legacy_serve_def split: connect_result.splits)
    have "adds (ui_Uuid user) (served_up env r (Tunnelled c)) (served_down env r (Tunnelled c)) s0 s1"
      unfolding res(2) using assms(5,8) k(1) res(1) by (intro handleConnect_adds [OF ok ne c]) auto
    then show ?thesis using billed u res(1) by blast
  next
    case (HandleHTTP user b)
    then have u: "credentials r = Some (ui_Uuid user, ui_Uuid user)" "px_users s (ui_Uuid user) = Some user"
      using served_user [of r s user b s0] sv assms(2) by auto
    then have ne: "ui_Uuid user \<noteq> []" using assms(3) by auto
    obtain c s2 where c: "handleHTTP (sv_roundTrip env) (sv_reads env) r user s0 = (c, s2)" by fastforce
    have res: "res = Proxied c" "s1 = s2"
      using assms(4) sv HandleHTTP c by (auto simp: legacy_serve_def)
    have "adds (ui_Uuid user) (served_up env r (Proxied c)) (served_down env r (Proxied c)) s0 s2"
      using assms(6-8) k(1) res(1) by (intro handleHTTP_adds [OF ok ne c]) auto
    then show ?thesis using billed u res by blast
  qed (use assms(4) sv k(1) in \<open>auto simp: legacy_serve_def\<close>)
qed

definition sample_serve :: serve_env where
  "sample_serve =
     \<lparr>sv_roundTrip = (\<lambda>_. Inl ''unused''), sv_reads = None, sv_dial = (\<lambda>_. None), sv_canHijack = True,
      sv_hijack = None, sv_greeted = True, sv_buffered = 3, sv_copies = [(True, 5), (False, 9)]\<rparr>"

theorem legacy_request_billed_witness:
  "\<exists>a s1. legacy_serve sample_serve (sample_request (''Basic '' @ b64_encode ''u:u''))
       (legacy_New sample_node [sample_user] Map.empty) = (Tunnelled (ConnectTunnel a), s1) \<and>
     pending_up (abs_stats s1) ''u'' = 8 \<and> pending_down (abs_stats s1) ''u'' = 9"
proof -
  let ?r = "sample_request (''Basic '' @ b64_encode ''u:u'')" and ?s = "legacy_New sample_node [sample_user] Map.empty"
  have cred: "credentials ?r = Some (''u'', ''u'')"
    using parseBasicAuth_encode [of "''u''" "''u''"]
    by (simp add: credentials_def sample_request_def header_Get_def)
  have present: "uuids_present [sample_user]"
    by (simp add: uuids_present_def sample_user_def)
  have fr: "px_users ?s = [ui_Uuid sample_user \<mapsto> sample_user]" "px_limiter ?s = Limiter.New [sample_user] Map.empty"
    by (simp_all add: legacy_New_def legacy_replaceUsers_def legacy_enter_user_def legacy_set_or_new_def
        new_counter_def sample_user_def)
  have u: "px_users ?s ''u'' = Some sample_user" "px_users ?s [] = None" "ui_Uuid sample_user = ''u''"
    unfolding fr by (simp_all add: sample_user_def)
  obtain b l1 where chk: "CheckLimit ''u'' (clientIP (rq_RemoteAddr ?r)) (px_limiter ?s) = ((b, False), l1)"
    unfolding fr by (simp add: CheckLimit_def limiter_eval fresh_bucket_def Let_def split: if_splits)
  have "authenticate ?r ?s = (Inr (sample_user, b), ?s\<lparr>px_limiter := l1\<rparr>)"
    using cred chk u by (simp add: authenticate_def credentials_def Let_def)
  then have sv: "legacy_ServeHTTP ?r ?s = (HandleConnect sample_user b, ?s\<lparr>px_limiter := l1\<rparr>)"
    by (simp add: legacy_ServeHTTP_def sample_request_def)
  have sels: "sv_dial sample_serve = (\<lambda>_. None)" "sv_canHijack sample_serve" "sv_hijack sample_serve = None"
    "sv_greeted sample_serve" "sv_buffered sample_serve = 3" "rq_ProtoMajor ?r = 1"
    by (simp_all add: sample_serve_def sample_request_def)
  obtain c s2 where c: "handleConnect (sv_dial sample_serve) (sv_canHijack sample_serve) (sv_hijack sample_serve)
      (sv_greeted sample_serve) (sv_buffered sample_serve) ?r sample_user (?s\<lparr>px_limiter := l1\<rparr>) = (c, s2)" by fastforce
  then obtain a where a: "c = ConnectTunnel a"
    unfolding handleConnect_def Let_def using sels by (auto split: prod.splits)
  obtain s1 where run: "legacy_serve sample_serve ?r ?s = (Tunnelled (ConnectTunnel a), s1)"
    unfolding legacy_serve_def sv prod.case served.case c a by simp
  have p: "pending_up (abs_stats ?s) uuid = 0" "pending_down (abs_stats ?s) uuid = 0" for uuid
    by (rule legacy_New_ok [OF present])+
  have moved: "served_up sample_serve ?r (Tunnelled (ConnectTunnel a)) = 8"
    "served_down sample_serve ?r (Tunnelled (ConnectTunnel a)) = 9"
    by (simp_all add: served_up_def served_down_def sample_serve_def sample_request_def)
  have env: "\<forall>(up, n)\<in>set (sv_copies sample_serve). 0 \<le> n"
    "\<forall>ns. sv_reads sample_serve = Some ns \<longrightarrow> (\<forall>n\<in>set ns. 0 \<le> n)"
    "\<forall>req status hdr n. sv_roundTrip sample_serve req = Inr (status, hdr, n) \<longrightarrow> 0 \<le> n"
    by (simp_all add: sample_serve_def)
  have small: "\<forall>uuid. pending_up (abs_stats ?s) uuid + served_up sample_serve ?r (Tunnelled (ConnectTunnel a)) < 2 ^ 63 \<and>
      pending_down (abs_stats ?s) uuid + served_down sample_serve ?r (Tunnelled (ConnectTunnel a)) < 2 ^ 63"
    unfolding moved p by simp
  from legacy_request_billed [OF legacy_New_ok(1) [OF present] users_keyed_New u(2) run env small] cred
  have "pending_up (abs_stats s1) ''u'' = 8 \<and> pending_down (abs_stats s1) ''u'' = 9"
    unfolding moved p by simp
  with run show ?thesis by blast
qed

end
