(* ===== verification/LegacyTunnel.thy ===== *)
theory LegacyTunnel
  imports Duplex LegacyServe
begin

text \<open>
  A tunnel of the built-in engine as it runs (\<^verbatim>\<open>internal/proxy/server.go\<close>): the two copying
  goroutines of \<^verbatim>\<open>pipeTunnel\<close>, or of \<^verbatim>\<open>handleConnect\<close> for HTTP/2, and the handler that waits
  for the first of them, in any interleaving.  A copy reads and writes in steps of their
  own, for between the two it may wait for the user's bucket.
\<close>

section \<open>Writers\<close>

text \<open>
  What a writer has taken: its bytes, how many writes, the tokens of the user's bucket
  waited for before them, and the flushes after them.
\<close>

record sink =
  sk_out :: "byte list"
  sk_round :: nat
  sk_tokens :: nat
  sk_flushes :: nat

type_synonym write_answer = "nat \<Rightarrow> byte list \<Rightarrow> nat \<times> io_error option"

definition conn_Write :: "write_answer \<Rightarrow> byte list \<Rightarrow> sink \<Rightarrow> (nat \<times> io_error option) \<times> sink" where
  "conn_Write answer p k =
     (case answer (sk_round k) p of
        (n, err) \<Rightarrow> ((min n (length p), err), k\<lparr>sk_out := sk_out k @ take n p, sk_round := sk_round k + 1\<rparr>))"

definition flushWriter_Write ::
  "bool \<Rightarrow> write_answer \<Rightarrow> byte list \<Rightarrow> sink \<Rightarrow> (nat \<times> io_error option) \<times> sink" where
  "flushWriter_Write canFlush answer p k =
     (case conn_Write answer p k of
        (res, k1) \<Rightarrow> (res, if canFlush then k1\<lparr>sk_flushes := sk_flushes k1 + 1\<rparr> else k1))"

definition limitedWriter_Write ::
  "bool \<Rightarrow> (byte list \<Rightarrow> sink \<Rightarrow> 'r \<times> sink) \<Rightarrow> byte list \<Rightarrow> sink \<Rightarrow> 'r \<times> sink" where
  "limitedWriter_Write bucket write p k =
     write p (if bucket then k\<lparr>sk_tokens := sk_tokens k + length p\<rparr> else k)"

section \<open>One copy\<close>

text \<open>
  \<^verbatim>\<open>io.Copy\<close> with its buffer of 32 KiB; \<open>cy_held\<close> is what it has read and not yet written,
  \<open>cy_counted\<close>: the bytes were added to the counter and the end was signalled.
\<close>

record copying =
  cy_reader :: reader
  cy_held :: "(byte list \<times> io_error option) option"
  cy_written :: int
  cy_sink :: sink
  cy_result :: "io_error option option"
  cy_counted :: bool

definition copying_start :: "reader \<Rightarrow> copying" where
  "copying_start src =
     \<lparr>cy_reader = src, cy_held = None, cy_written = 0,
      cy_sink = \<lparr>sk_out = [], sk_round = 0, sk_tokens = 0, sk_flushes = 0\<rparr>,
      cy_result = None, cy_counted = False\<rparr>"

text \<open>\<open>gone\<close>: the source has been closed, and a read of it fails.\<close>

definition copy_reads :: "io_error option \<Rightarrow> copying \<Rightarrow> copying option" where
  "copy_reads gone c =
     (if cy_held c \<noteq> None \<or> cy_result c \<noteq> None then None
      else (case gone of
              Some e \<Rightarrow> Some (c\<lparr>cy_held := Some ([], Some e)\<rparr>)
            | None \<Rightarrow> (case Read 32768 (cy_reader c) of
                 (d, er, rd) \<Rightarrow> Some (c\<lparr>cy_reader := rd, cy_held := Some (d, er)\<rparr>))))"

definition ends_with :: "io_error option \<Rightarrow> io_error option option" where
  "ends_with er = (case er of None \<Rightarrow> None | Some e \<Rightarrow> Some (if e = EOF then None else Some e))"

definition copy_writes ::
  "(byte list \<Rightarrow> sink \<Rightarrow> (nat \<times> io_error option) \<times> sink) \<Rightarrow> copying \<Rightarrow> copying option" where
  "copy_writes write c =
     (case cy_held c of
        None \<Rightarrow> None
      | Some (d, er) \<Rightarrow>
          if d = [] then Some (c\<lparr>cy_held := None, cy_result := ends_with er\<rparr>)
          else (case write d (cy_sink c) of
             ((n, err), k) \<Rightarrow>
               Some (c\<lparr>cy_held := None, cy_sink := k, cy_written := wrap64 (cy_written c + int n),
                  cy_result := (case err of
                     Some e \<Rightarrow> Some (Some e)
                   | None \<Rightarrow> if n \<noteq> length d then Some (Some ShortWrite) else ends_with er)\<rparr>)))"

text \<open>The error that \<^verbatim>\<open>copyWithAccount\<close> returns.\<close>

definition account_error :: "io_error option \<Rightarrow> io_error option" where
  "account_error err = (if err = Some net_closed \<or> err = Some EOF then None else err)"

section \<open>The tunnel\<close>

text \<open>
  \<open>es_bucket\<close>: the user has a bucket; \<open>es_targetTCP\<close>, \<open>es_clientTCP\<close>: the connection is a
  \<^verbatim>\<open>TCPConn\<close>, so it can be half-closed; \<open>es_clientGone\<close>: the error of using the client's
  side once the handler is done with it.
\<close>

record engine_setup =
  es_http2 :: bool
  es_bucket :: bool
  es_counter :: nat
  es_targetTCP :: bool
  es_clientTCP :: bool
  es_canFlush :: bool
  es_toTarget :: write_answer
  es_toClient :: write_answer
  es_clientGone :: io_error

text \<open>
  \<open>et_woken\<close>: the handler has taken the first signal from \<^verbatim>\<open>errCh\<close> and closed the target;
  \<open>et_over\<close>: it has returned, with HTTP/1 after closing the client's connection.
  \<open>et_errCh\<close> holds the errors that \<^verbatim>\<open>handleConnect\<close> sends; with HTTP/1 a signal carries nothing.
  \<open>et_misused\<close>: the response was written to afterwards.  \<open>et_counted\<close> is the order in which
  the copies were counted.
\<close>

record engine_tunnel =
  et_up :: copying
  et_down :: copying
  et_errCh :: "io_error option list"
  et_halfTarget :: bool
  et_halfClient :: bool
  et_woken :: bool
  et_over :: bool
  et_misused :: bool
  et_server :: ProxyServer
  et_counted :: "(bool \<times> int) list"

definition engine_start :: "reader \<Rightarrow> reader \<Rightarrow> ProxyServer \<Rightarrow> engine_tunnel" where
  "engine_start client target s =
     \<lparr>et_up = copying_start client, et_down = copying_start target, et_errCh = [],
      et_halfTarget = False, et_halfClient = False, et_woken = False, et_over = False,
      et_misused = False, et_server = s, et_counted = []\<rparr>"

definition et_side :: "bool \<Rightarrow> engine_tunnel \<Rightarrow> copying" where
  "et_side upload r = (if upload then et_up r else et_down r)"

definition set_side :: "bool \<Rightarrow> copying \<Rightarrow> engine_tunnel \<Rightarrow> engine_tunnel" where
  "set_side upload c r = (if upload then r\<lparr>et_up := c\<rparr> else r\<lparr>et_down := c\<rparr>)"

definition source_gone :: "engine_setup \<Rightarrow> bool \<Rightarrow> engine_tunnel \<Rightarrow> io_error option" where
  "source_gone es upload r =
     (if upload then (if et_over r then Some (es_clientGone es) else None)
      else (if et_woken r then Some net_closed else None))"

definition fails :: "io_error \<Rightarrow> write_answer" where
  "fails e = (\<lambda>_ _. (0, Some e))"

definition tunnel_write ::
  "engine_setup \<Rightarrow> bool \<Rightarrow> engine_tunnel \<Rightarrow> byte list \<Rightarrow> sink \<Rightarrow> (nat \<times> io_error option) \<times> sink" where
  "tunnel_write es upload r =
     limitedWriter_Write (es_bucket es)
       (if upload then conn_Write (if et_woken r then fails net_closed else es_toTarget es)
        else if es_http2 es
        then flushWriter_Write (es_canFlush es) (if et_over r then fails (es_clientGone es) else es_toClient es)
        else conn_Write (if et_over r then fails (es_clientGone es) else es_toClient es))"

definition late_use :: "engine_setup \<Rightarrow> bool \<Rightarrow> engine_tunnel \<Rightarrow> bool" where
  "late_use es upload r \<longleftrightarrow>
     \<not> upload \<and> es_http2 es \<and> et_over r \<and> (\<exists>d er. cy_held (et_down r) = Some (d, er) \<and> d \<noteq> [])"

datatype engine_move = CopyRead bool | CopyWrite bool | CopyEnds bool | HandlerWakes | HandlerReturns

fun engine_act :: "engine_setup \<Rightarrow> engine_move \<Rightarrow> engine_tunnel \<Rightarrow> engine_tunnel option" where
  "engine_act es (CopyRead upload) r =
     map_option (\<lambda>c. set_side upload c r) (copy_reads (source_gone es upload r) (et_side upload r))"
| "engine_act es (CopyWrite upload) r =
     map_option (\<lambda>c. set_side upload c (r\<lparr>et_misused := et_misused r \<or> late_use es upload r\<rparr>))
       (copy_writes (tunnel_write es upload r) (et_side upload r))"
| "engine_act es (CopyEnds upload) r =
     (case (cy_result (et_side upload r), cy_counted (et_side upload r)) of
        (Some err, False) \<Rightarrow>
          let n = cy_written (et_side upload r);
              r1 = r\<lparr>et_server := copyWithAccount n (es_counter es) upload (et_server r),
                     et_counted := et_counted r @ [(upload, n)],
                     et_halfTarget := et_halfTarget r \<or> upload \<and> es_targetTCP es,
                     et_halfClient := et_halfClient r \<or> \<not> upload \<and> \<not> es_http2 es \<and> es_clientTCP es,
                     et_errCh := et_errCh r @ [account_error err]\<rparr>
          in Some (set_side upload ((et_side upload r)\<lparr>cy_counted := True\<rparr>) r1)
      | _ \<Rightarrow> None)"
| "engine_act es HandlerWakes r =
     (if et_woken r then None
      else (case et_errCh r of [] \<Rightarrow> None | err # rest \<Rightarrow> Some (r\<lparr>et_errCh := rest, et_woken := True\<rparr>)))"
| "engine_act es HandlerReturns r =
     (if et_woken r \<and> \<not> et_over r then Some (r\<lparr>et_over := True\<rparr>) else None)"

primrec engine_acts :: "engine_setup \<Rightarrow> engine_move list \<Rightarrow> engine_tunnel \<Rightarrow> engine_tunnel option" where
  "engine_acts es [] r = Some r"
| "engine_acts es (a # as) r = Option.bind (engine_act es a r) (engine_acts es as)"

section \<open>The two sides\<close>

lemma side_simps [simp]:
  "et_side up (set_side up c r) = c"
  "et_side (\<not> up) (set_side up c r) = et_side (\<not> up) r"
  "et_errCh (set_side up c r) = et_errCh r" "et_woken (set_side up c r) = et_woken r"
  "et_over (set_side up c r) = et_over r" "et_misused (set_side up c r) = et_misused r"
  "et_server (set_side up c r) = et_server r" "et_counted (set_side up c r) = et_counted r"
  "et_halfTarget (set_side up c r) = et_halfTarget r" "et_halfClient (set_side up c r) = et_halfClient r"
  by (simp_all add: et_side_def set_side_def)

lemma side_cong [simp]:
  "et_side up (r\<lparr>et_errCh := x\<rparr>) = et_side up r" "et_side up (r\<lparr>et_halfTarget := b\<rparr>) = et_side up r"
  "et_side up (r\<lparr>et_halfClient := b\<rparr>) = et_side up r" "et_side up (r\<lparr>et_woken := b\<rparr>) = et_side up r"
  "et_side up (r\<lparr>et_over := b\<rparr>) = et_side up r" "et_side up (r\<lparr>et_misused := b\<rparr>) = et_side up r"
  "et_side up (r\<lparr>et_server := s\<rparr>) = et_side up r" "et_side up (r\<lparr>et_counted := l\<rparr>) = et_side up r"
  by (simp_all add: et_side_def)

lemma set_side_other: "et_side d (set_side up c r) = (if d = up then c else et_side d r)"
  by (simp add: et_side_def set_side_def)

text \<open>A property of one copy that no step breaks holds of both in every run.\<close>

definition takes_part :: "(byte list \<Rightarrow> sink \<Rightarrow> (nat \<times> io_error option) \<times> sink) \<Rightarrow> bool" where
  "takes_part write \<longleftrightarrow>
     (\<forall>d k n err k1. write d k = ((n, err), k1) \<longrightarrow> n \<le> length d \<and> sk_out k1 = sk_out k @ take n d)"

inductive copy_step :: "copying \<Rightarrow> copying \<Rightarrow> bool" where
  copy_step_read: "copy_reads gone c = Some c1 \<Longrightarrow> copy_step c c1"
| copy_step_write: "takes_part write \<Longrightarrow> copy_writes write c = Some c1 \<Longrightarrow> copy_step c c1"
| copy_step_count: "cy_result c \<noteq> None \<Longrightarrow> copy_step c (c\<lparr>cy_counted := True\<rparr>)"

lemma conn_takes_part: "takes_part (conn_Write answer)"
  by (auto simp: takes_part_def conn_Write_def min_def split: prod.splits if_splits)

lemma flush_takes_part: "takes_part (flushWriter_Write canFlush answer)"
  by (auto simp: takes_part_def conn_Write_def flushWriter_Write_def min_def split: prod.splits if_splits)

lemma limited_takes_part: "takes_part write \<Longrightarrow> takes_part (limitedWriter_Write bucket write)"
  unfolding takes_part_def limitedWriter_Write_def by fastforce

lemma tunnel_takes_part: "takes_part (tunnel_write es up r)"
  by (simp add: tunnel_write_def limited_takes_part conn_takes_part flush_takes_part)

lemma engine_act_side:
  assumes "engine_act es a r = Some r1"
  shows "et_side up r1 = et_side up r \<or> copy_step (et_side up r) (et_side up r1)"
proof (cases a)
  case (CopyRead d)
  then obtain c where "copy_reads (source_gone es d r) (et_side d r) = Some c" "r1 = set_side d c r"
    using assms by auto
  then show ?thesis by (simp add: set_side_other copy_step_read)
next
  case (CopyWrite d)
  then obtain c where "copy_writes (tunnel_write es d r) (et_side d r) = Some c"
    "r1 = set_side d c (r\<lparr>et_misused := et_misused r \<or> late_use es d r\<rparr>)"
    using assms by auto
  then show ?thesis by (simp add: set_side_other copy_step_write [OF tunnel_takes_part])
next
  case (CopyEnds d)
  with assms show ?thesis
    by (auto simp: set_side_other Let_def intro!: copy_step_count split: option.splits bool.splits)
qed (use assms in \<open>auto split: if_splits list.splits\<close>)

lemma engine_acts_side:
  assumes "engine_acts es as r = Some r1" and "P (et_side up r)"
    and "\<And>c c1. copy_step c c1 \<Longrightarrow> P c \<Longrightarrow> P c1"
  shows "P (et_side up r1)"
  using assms(1,2)
proof (induction as arbitrary: r)
  case (Cons a as)
  then obtain r2 where "engine_act es a r = Some r2" "engine_acts es as r2 = Some r1"
    by (auto simp: bind_eq_Some_conv)
  with Cons engine_act_side assms(3) show ?case by metis
qed simp

section \<open>One copy\<close>

text \<open>What a copy has written is a beginning of its source, and all of it after a clean end.\<close>

definition held_bytes :: "copying \<Rightarrow> byte list" where
  "held_bytes c = (case cy_held c of None \<Rightarrow> [] | Some (d, er) \<Rightarrow> d)"

definition copy_ok :: "byte list \<Rightarrow> copying \<Rightarrow> bool" where
  "copy_ok stream c \<longleftrightarrow>
     cy_written c = wrap64 (int (length (sk_out (cy_sink c)))) \<and>
     (cy_result c \<noteq> None \<longrightarrow> cy_held c = None) \<and>
     (\<exists>rest. stream = sk_out (cy_sink c) @ rest) \<and>
     (cy_result c = None \<longrightarrow> stream = sk_out (cy_sink c) @ held_bytes c @ concat (rd_chunks (cy_reader c)))"

lemma copying_start_ok: "copy_ok (concat (rd_chunks src)) (copying_start src)"
  by (simp add: copy_ok_def copying_start_def held_bytes_def)

lemma copy_writes_ok:
  assumes "copy_writes write c = Some c1" and "copy_ok stream c"
    and "takes_part write"
  shows "copy_ok stream c1"
proof -
  obtain d er where h: "cy_held c = Some (d, er)" using assms(1) by (auto simp: copy_writes_def split: option.splits)
  then have open_end: "cy_result c = None" and s: "stream = sk_out (cy_sink c) @ d @ concat (rd_chunks (cy_reader c))"
    using assms(2) by (auto simp: copy_ok_def held_bytes_def)
  show ?thesis
  proof (cases "d = []")
    case True
    with assms(1,2) h s show ?thesis by (auto simp: copy_writes_def copy_ok_def held_bytes_def)
  next
    case False
    obtain n err k1 where w: "write d (cy_sink c) = ((n, err), k1)" by (metis surj_pair)
    then have o: "n \<le> length d" "sk_out k1 = sk_out (cy_sink c) @ take n d"
      using assms(3) by (auto simp: takes_part_def)
    have "stream = sk_out k1 @ drop n d @ concat (rd_chunks (cy_reader c))" using s o by simp
    moreover have "cy_written c1 = wrap64 (int (length (sk_out k1)))"
      using assms(1,2) h False w o by (auto simp: copy_writes_def copy_ok_def)
    ultimately show ?thesis
      using assms(1) h False w o
      by (auto simp: copy_writes_def copy_ok_def held_bytes_def split: option.splits if_splits)
  qed
qed

lemma copy_step_ok: "copy_step c c1 \<Longrightarrow> copy_ok stream c \<Longrightarrow> copy_ok stream c1"
proof (induction rule: copy_step.induct)
  case (copy_step_read gone c c1)
  then show ?case
    by (auto simp: copy_reads_def copy_ok_def held_bytes_def dest: Read_split split: if_splits option.splits prod.splits)
next
  case (copy_step_write wr c c1)
  then show ?case by (blast intro: copy_writes_ok)
qed (simp add: copy_ok_def held_bytes_def)

lemma engine_acts_copy_ok:
  assumes "engine_acts es as (engine_start client target s) = Some r"
  shows "copy_ok (concat (rd_chunks client)) (et_up r)" "copy_ok (concat (rd_chunks target)) (et_down r)"
  using engine_acts_side [OF assms, of "copy_ok (concat (rd_chunks client))" True]
    engine_acts_side [OF assms, of "copy_ok (concat (rd_chunks target))" False] copy_step_ok
  by (auto simp: et_side_def engine_start_def copying_start_ok)

section \<open>The handler and the counter\<close>

definition tunnel_ok :: "engine_setup \<Rightarrow> ProxyServer \<Rightarrow> engine_tunnel \<Rightarrow> bool" where
  "tunnel_ok es s0 r \<longleftrightarrow>
     et_server r = pipeTunnel (et_counted r) (es_counter es) s0 \<and>
     distinct (map fst (et_counted r)) \<and>
     (\<forall>d. map_of (et_counted r) d =
        (if cy_counted (et_side d r) then Some (cy_written (et_side d r)) else None)) \<and>
     (\<forall>d. cy_counted (et_side d r) \<longrightarrow> cy_result (et_side d r) \<noteq> None \<and> cy_held (et_side d r) = None) \<and>
     length (et_errCh r) + (if et_woken r then 1 else 0) = length (et_counted r) \<and>
     (et_over r \<longrightarrow> et_woken r)"

lemma pipe_snoc: "pipeTunnel (cs @ [(d, n)]) a s = copyWithAccount n a d (pipeTunnel cs a s)"
  by (simp add: pipeTunnel_def)

lemma map_of_snoc: "d \<notin> fst ` set cs \<Longrightarrow> map_of (cs @ [(d, n)]) = (map_of cs)(d \<mapsto> n)"
  by (induction cs) auto

lemma engine_start_tunnel_ok: "tunnel_ok es s (engine_start client target s)"
  by (simp add: tunnel_ok_def engine_start_def et_side_def copying_start_def)

lemma copy_reads_open:
  "copy_reads gone c = Some c1 \<Longrightarrow> cy_result c = None \<and> cy_result c1 = None \<and> cy_counted c1 = cy_counted c"
  by (auto simp: copy_reads_def split: if_splits option.splits prod.splits)

lemma copy_writes_open:
  "copy_writes wr c = Some c1 \<Longrightarrow> cy_held c \<noteq> None \<and> cy_held c1 = None \<and> cy_counted c1 = cy_counted c"
  by (auto simp: copy_writes_def split: if_splits option.splits prod.splits)

lemma tunnel_ok_side:
  assumes "tunnel_ok es s0 r" and "\<not> cy_counted (et_side d r)" and "\<not> cy_counted c"
  shows "tunnel_ok es s0 (set_side d c r)"
  using assms by (auto simp: tunnel_ok_def set_side_other)

lemma tunnel_ok_misused [simp]: "tunnel_ok es s0 (r\<lparr>et_misused := b\<rparr>) = tunnel_ok es s0 r"
  by (simp add: tunnel_ok_def)

lemma engine_act_ok:
  assumes "engine_act es a r = Some r1" and "tunnel_ok es s0 r"
    and "\<And>d. cy_result (et_side d r) \<noteq> None \<Longrightarrow> cy_held (et_side d r) = None"
  shows "tunnel_ok es s0 r1"
proof (cases a)
  case (CopyRead d)
  then obtain c where c: "copy_reads (source_gone es d r) (et_side d r) = Some c" "r1 = set_side d c r"
    using assms(1) by auto
  have "\<not> cy_counted (et_side d r)" using copy_reads_open [OF c(1)] assms(2) by (auto simp: tunnel_ok_def)
  with c copy_reads_open [OF c(1)] assms(2) show ?thesis by (simp add: tunnel_ok_side)
next
  case (CopyWrite d)
  then obtain c where c: "copy_writes (tunnel_write es d r) (et_side d r) = Some c"
    "r1 = set_side d c (r\<lparr>et_misused := et_misused r \<or> late_use es d r\<rparr>)"
    using assms(1) by auto
  have "\<not> cy_counted (et_side d r)" using copy_writes_open [OF c(1)] assms(2) by (auto simp: tunnel_ok_def)
  with c copy_writes_open [OF c(1)] assms(2) show ?thesis by (simp add: tunnel_ok_side)
next
  case (CopyEnds d)
  let ?c = "et_side d r" and ?n = "cy_written (et_side d r)"
  obtain err where e: "cy_result ?c = Some err" "\<not> cy_counted ?c"
    using assms(1) CopyEnds by (auto split: option.splits bool.splits)
  with assms(2) have new: "d \<notin> fst ` set (et_counted r)"
    by (auto simp: tunnel_ok_def map_of_eq_None_iff [symmetric])
  have r1: "et_server r1 = copyWithAccount ?n (es_counter es) d (et_server r)"
    "et_counted r1 = et_counted r @ [(d, ?n)]" "length (et_errCh r1) = length (et_errCh r) + 1"
    "et_woken r1 = et_woken r" "et_over r1 = et_over r"
    "\<And>e. et_side e r1 = (if e = d then ?c\<lparr>cy_counted := True\<rparr> else et_side e r)"
    using assms(1) CopyEnds e by (auto simp: Let_def set_side_other)
  have "map_of (et_counted r1) x =
      (if cy_counted (et_side x r1) then Some (cy_written (et_side x r1)) else None)" for x
    using assms(2) new unfolding r1 by (simp add: map_of_snoc tunnel_ok_def del: map_of_append)
  moreover have "cy_held ?c = None" using assms(3) e by simp
  ultimately show ?thesis
    using assms(2) e(1) new r1 by (simp add: tunnel_ok_def pipe_snoc)
next
  case HandlerWakes
  with assms(1) obtain err rest where "\<not> et_woken r" "et_errCh r = err # rest"
    "r1 = r\<lparr>et_errCh := rest, et_woken := True\<rparr>"
    by (auto split: if_splits list.splits)
  with assms(2) show ?thesis by (simp add: tunnel_ok_def del: map_of_eq_Some_iff)
next
  case HandlerReturns
  with assms(1) have "et_woken r" "r1 = r\<lparr>et_over := True\<rparr>" by (auto split: if_splits)
  with assms(2) show ?thesis by (simp add: tunnel_ok_def del: map_of_eq_Some_iff)
qed

lemma engine_acts_append: "engine_acts es (as @ bs) r = Option.bind (engine_acts es as r) (engine_acts es bs)"
  by (induction as arbitrary: r) (auto split: bind_split)

lemma engine_acts_ok:
  assumes "engine_acts es as (engine_start client target s) = Some r"
  shows "tunnel_ok es s r"
  using assms
proof (induction as arbitrary: r rule: rev_induct)
  case Nil
  then show ?case using engine_start_tunnel_ok by auto
next
  case (snoc a as)
  then obtain r2 where r2: "engine_acts es as (engine_start client target s) = Some r2" "engine_act es a r2 = Some r"
    by (auto simp: engine_acts_append bind_eq_Some_conv)
  have "cy_held (et_side d r2) = None" if "cy_result (et_side d r2) \<noteq> None" for d
    using engine_acts_copy_ok [OF r2(1)] that by (cases d) (auto simp: copy_ok_def et_side_def)
  with engine_act_ok [OF r2(2) snoc.IH [OF r2(1)]] show ?case by blast
qed

text \<open>
  A run of the tunnel is what \<open>legacy_serve\<close> takes its copies to be: with those that were
  counted, in their order, it leaves the engine as the run does.
\<close>

lemma served_tunnel_runs:
  assumes "legacy_ServeHTTP r s = (HandleConnect user b, s1)"
    and "handleConnect (sv_dial env) (sv_canHijack env) (sv_hijack env) (sv_greeted env) (sv_buffered env) r user s1 =
      (ConnectTunnel (es_counter es), s2)"
    and "engine_acts es as (engine_start client target s2) = Some t"
  shows "legacy_serve (env\<lparr>sv_copies := et_counted t\<rparr>) r s = (Tunnelled (ConnectTunnel (es_counter es)), et_server t)"
  using assms(1,2) engine_acts_ok [OF assms(3)] by (simp add: legacy_serve_def tunnel_ok_def)

lemma copies_sum_map_of:
  "distinct (map fst cs) \<Longrightarrow> copies_sum d cs = (case map_of cs d of None \<Rightarrow> 0 | Some n \<Rightarrow> n)"
proof (induction cs)
  case (Cons c cs)
  obtain e n where c: "c = (e, n)" by fastforce
  have "map_of cs d = None" if "e = d" using Cons.prems c that by (simp add: map_of_eq_None_iff)
  with Cons c show ?case by (auto split: option.split)
qed simp

section \<open>How long a tunnel can be\<close>

text \<open>
  \<open>copy_left\<close> goes down with every step of a copy; a copy that has ended holds nothing.
\<close>

definition copy_left :: "copying \<Rightarrow> nat" where
  "copy_left c =
     (if cy_result c \<noteq> None then 0
      else 2 * chunk_weight (rd_chunks (cy_reader c)) +
        (case cy_held c of None \<Rightarrow> 2 | Some (d, None) \<Rightarrow> 3 | Some (d, Some e) \<Rightarrow> 1)) +
     (if cy_counted c then 0 else 1)"

definition acts_left :: "engine_tunnel \<Rightarrow> nat" where
  "acts_left r =
     copy_left (et_up r) + copy_left (et_down r) + (if et_woken r then 0 else 1) + (if et_over r then 0 else 1)"

lemma copy_reads_left:
  assumes "copy_reads gone c = Some c1"
  shows "copy_left c1 < copy_left c"
proof -
  have open_end: "cy_held c = None" "cy_result c = None"
    using assms by (cases "cy_held c"; auto simp: copy_reads_def split: if_splits)+
  show ?thesis
  proof (cases gone)
    case None
    obtain d er rd where rd: "Read 32768 (cy_reader c) = (d, er, rd)" by (metis surj_pair)
    have "chunk_weight (rd_chunks rd) \<le> chunk_weight (rd_chunks (cy_reader c))"
      "er = None \<Longrightarrow> chunk_weight (rd_chunks rd) < chunk_weight (rd_chunks (cy_reader c))"
      using Read_count [OF rd] Read_progress [OF rd] by auto
    then show ?thesis using assms None rd open_end by (cases er) (auto simp: copy_reads_def copy_left_def)
  qed (use assms open_end in \<open>auto simp: copy_reads_def copy_left_def\<close>)
qed

lemma copy_writes_left:
  assumes "copy_writes wr c = Some c1" and "cy_result c = None"
  shows "copy_left c1 < copy_left c"
proof -
  obtain d er where h: "cy_held c = Some (d, er)" using assms(1) by (auto simp: copy_writes_def split: option.splits)
  have *: "cy_reader c1 = cy_reader c" "cy_counted c1 = cy_counted c" "cy_held c1 = None"
    "er = Some e \<Longrightarrow> cy_result c1 \<noteq> None" for e
    using assms(1) h by (auto simp: copy_writes_def ends_with_def split: prod.splits option.splits if_splits)
  show ?thesis
    using * h assms(2) by (cases er) (auto simp: copy_left_def)
qed

lemma engine_act_left:
  assumes "engine_act es a r = Some r1"
    and "\<And>d. cy_result (et_side d r) \<noteq> None \<Longrightarrow> cy_held (et_side d r) = None"
  shows "acts_left r1 < acts_left r"
proof -
  have side: "acts_left (set_side d c r) < acts_left r" if "copy_left c < copy_left (et_side d r)" for c d
    using that by (cases d) (auto simp: acts_left_def set_side_def et_side_def)
  show ?thesis
  proof (cases a)
    case (CopyRead d)
    with assms(1) side show ?thesis by (auto dest: copy_reads_left)
  next
    case (CopyWrite d)
    then obtain c where c: "copy_writes (tunnel_write es d r) (et_side d r) = Some c"
      "acts_left r1 = acts_left (set_side d c r)"
      using assms(1) by (auto simp: acts_left_def set_side_def)
    have "cy_result (et_side d r) = None" using copy_writes_open [OF c(1)] assms(2) [of d]
      by (cases "cy_result (et_side d r)") auto
    with c copy_writes_left side show ?thesis by metis
  next
    case (CopyEnds d)
    with assms(1) have "\<not> cy_counted (et_side d r)"
      "acts_left r1 = acts_left (set_side d ((et_side d r)\<lparr>cy_counted := True\<rparr>) r)"
      by (auto simp: acts_left_def set_side_def Let_def split: option.splits bool.splits)
    with side [of "(et_side d r)\<lparr>cy_counted := True\<rparr>" d] show ?thesis by (simp add: copy_left_def)
  qed (use assms(1) in \<open>auto simp: acts_left_def split: if_splits list.splits\<close>)
qed

lemma engine_acts_held:
  assumes "engine_acts es as (engine_start client target s) = Some r" and "cy_result (et_side d r) \<noteq> None"
  shows "cy_held (et_side d r) = None"
  using engine_acts_copy_ok [OF assms(1)] assms(2) by (cases d) (auto simp: copy_ok_def et_side_def)

lemma engine_acts_snocE:
  assumes "engine_acts es (as @ [a]) r0 = Some r1"
  obtains r where "engine_acts es as r0 = Some r" "engine_act es a r = Some r1"
  using assms by (auto simp: engine_acts_append bind_eq_Some_conv)

lemma engine_acts_left:
  assumes "engine_acts es as (engine_start client target s) = Some r"
  shows "length as + acts_left r \<le> acts_left (engine_start client target s)"
  using assms
proof (induction as arbitrary: r rule: rev_induct)
  case (snoc a as)
  then obtain r2 where r2: "engine_acts es as (engine_start client target s) = Some r2" "engine_act es a r2 = Some r"
    by (blast elim: engine_acts_snocE)
  with engine_act_left [OF r2(2)] engine_acts_held [OF r2(1)] snoc.IH [OF r2(1)] show ?case by fastforce
qed auto

definition tunnel_finished :: "engine_tunnel \<Rightarrow> bool" where
  "tunnel_finished r \<longleftrightarrow> cy_counted (et_up r) \<and> cy_counted (et_down r) \<and> et_woken r \<and> et_over r"

text \<open>Something can always be done until the tunnel is finished.\<close>

lemma engine_progress:
  assumes "tunnel_ok es s0 r" and "\<not> tunnel_finished r"
  shows "\<exists>a r1. engine_act es a r = Some r1"
proof (cases "\<exists>d. \<not> cy_counted (et_side d r)")
  case True
  then obtain d where d: "\<not> cy_counted (et_side d r)" by blast
  show ?thesis
  proof (cases "cy_result (et_side d r)")
    case (Some err)
    with d show ?thesis by (intro exI [of _ "CopyEnds d"]) (simp add: Let_def)
  next
    case None
    show ?thesis
    proof (cases "cy_held (et_side d r)")
      case None': None
      with None have "copy_reads (source_gone es d r) (et_side d r) \<noteq> None"
        by (auto simp: copy_reads_def split: option.splits prod.splits)
      then show ?thesis by (intro exI [of _ "CopyRead d"]) auto
    next
      case (Some h)
      then have "copy_writes (tunnel_write es d r) (et_side d r) \<noteq> None"
        by (auto simp: copy_writes_def split: prod.splits)
      then show ?thesis by (intro exI [of _ "CopyWrite d"]) auto
    qed
  qed
next
  case False
  then have c: "cy_counted (et_up r)" "cy_counted (et_down r)" by (metis et_side_def)+
  show ?thesis
  proof (cases "et_woken r")
    case True
    with c assms(2) show ?thesis by (intro exI [of _ HandlerReturns]) (simp add: tunnel_finished_def)
  next
    case open_end: False
    have "map_of (et_counted r) True \<noteq> None" using assms(1) False by (simp add: tunnel_ok_def)
    then have "et_counted r \<noteq> []" by auto
    then have "length (et_counted r) \<noteq> 0" by simp
    moreover have "length (et_errCh r) = length (et_counted r)" using assms(1) open_end by (simp add: tunnel_ok_def)
    ultimately have "et_errCh r \<noteq> []" by auto
    with open_end show ?thesis by (intro exI [of _ HandlerWakes]) (simp split: list.split)
  qed
qed

lemma engine_to_end:
  assumes "engine_acts es as (engine_start client target s) = Some r"
  shows "\<exists>more r1. engine_acts es (as @ more) (engine_start client target s) = Some r1 \<and> tunnel_finished r1"
  using assms
proof (induction "acts_left r" arbitrary: as r rule: less_induct)
  case less
  show ?case
  proof (cases "tunnel_finished r")
    case True
    with less.prems show ?thesis by (intro exI [of _ "[]"]) auto
  next
    case False
    then obtain a r1 where a: "engine_act es a r = Some r1"
      using engine_progress [OF engine_acts_ok [OF less.prems]] by blast
    then have "engine_acts es (as @ [a]) (engine_start client target s) = Some r1"
      using less.prems by (simp add: engine_acts_append)
    moreover have "acts_left r1 < acts_left r"
      using engine_act_left [OF a] engine_acts_held [OF less.prems] by blast
    ultimately show ?thesis using less.hyps by (metis append_assoc)
  qed
qed

section \<open>The first end cuts the other side\<close>

lemma copy_writes_effect:
  assumes "copy_writes wr c = Some c1" and "takes_part wr"
  shows "(\<exists>n. sk_out (cy_sink c1) = sk_out (cy_sink c) @ take n (held_bytes c)) \<and> held_bytes c1 = []"
proof -
  obtain d er where h: "cy_held c = Some (d, er)" using assms(1) by (auto simp: copy_writes_def split: option.splits)
  obtain n err k where w: "wr d (cy_sink c) = ((n, err), k)" by (metis surj_pair)
  then have "sk_out k = sk_out (cy_sink c) @ take n d" using assms(2) by (simp add: takes_part_def)
  with assms(1) h w show ?thesis
    by (cases "d = []") (auto simp: copy_writes_def held_bytes_def)
qed

lemma copy_reads_out: "copy_reads gone c = Some c1 \<Longrightarrow> cy_sink c1 = cy_sink c \<and> held_bytes c = []"
  by (auto simp: copy_reads_def held_bytes_def split: if_splits option.splits prod.splits)

lemma late_upload_lost:
  assumes "copy_writes (tunnel_write es True r) c = Some c1" and "et_woken r"
  shows "sk_out (cy_sink c1) = sk_out (cy_sink c)"
  using assms
  by (auto simp: copy_writes_def tunnel_write_def limitedWriter_Write_def conn_Write_def fails_def
      split: option.splits if_splits)

definition closing :: "engine_tunnel \<Rightarrow> engine_tunnel \<Rightarrow> bool" where
  "closing r0 r \<longleftrightarrow>
     et_woken r \<and> sk_out (cy_sink (et_up r)) = sk_out (cy_sink (et_up r0)) \<and>
     (sk_out (cy_sink (et_down r)) = sk_out (cy_sink (et_down r0)) \<and> held_bytes (et_down r) = held_bytes (et_down r0) \<or>
      (\<exists>n. sk_out (cy_sink (et_down r)) = sk_out (cy_sink (et_down r0)) @ take n (held_bytes (et_down r0))) \<and>
        held_bytes (et_down r) = [])"

lemma side_sel: "et_side True r = et_up r" "et_side False r = et_down r"
  by (simp_all add: et_side_def)

lemma set_side_sel:
  "et_up (set_side True c r) = c" "et_down (set_side True c r) = et_down r"
  "et_down (set_side False c r) = c" "et_up (set_side False c r) = et_up r"
  by (simp_all add: set_side_def)

lemma engine_act_closing:
  assumes "engine_act es a r = Some r1" and "closing r0 r"
  shows "closing r0 r1"
proof -
  have woken: "et_woken r" using assms(2) by (simp add: closing_def)
  show ?thesis
  proof (cases a)
    case (CopyRead d)
    then obtain c where c: "copy_reads (source_gone es d r) (et_side d r) = Some c" "r1 = set_side d c r"
      using assms(1) by auto
    show ?thesis
    proof (cases d)
      case True
      with c copy_reads_out [OF c(1)] assms(2) show ?thesis by (simp add: closing_def set_side_sel side_sel)
    next
      case False
      with c(1) woken have "held_bytes c = []"
        by (auto simp: copy_reads_def source_gone_def held_bytes_def split: if_splits)
      with False c copy_reads_out [OF c(1)] assms(2) show ?thesis by (auto simp: closing_def set_side_sel side_sel)
    qed
  next
    case (CopyWrite d)
    then obtain c where c: "copy_writes (tunnel_write es d r) (et_side d r) = Some c"
      "r1 = set_side d c (r\<lparr>et_misused := et_misused r \<or> late_use es d r\<rparr>)"
      using assms(1) by auto
    show ?thesis
    proof (cases d)
      case True
      with c late_upload_lost [of es r "et_up r" c] woken assms(2) show ?thesis
        by (simp add: closing_def set_side_sel side_sel)
    next
      case False
      with copy_writes_effect [OF c(1) tunnel_takes_part] obtain n where
        "sk_out (cy_sink c) = sk_out (cy_sink (et_down r)) @ take n (held_bytes (et_down r))" "held_bytes c = []"
        by (auto simp: side_sel)
      with False c assms(2) show ?thesis by (auto simp: closing_def set_side_sel)
    qed
  next
    case (CopyEnds d)
    with assms show ?thesis
      by (cases d) (auto simp: closing_def set_side_sel side_sel held_bytes_def Let_def split: option.splits bool.splits)
  qed (use assms in \<open>auto simp: closing_def split: if_splits list.splits\<close>)
qed

lemma engine_acts_closing:
  "engine_acts es as r = Some r1 \<Longrightarrow> closing r0 r \<Longrightarrow> closing r0 r1"
proof (induction as arbitrary: r)
  case (Cons a as)
  then obtain r2 where "engine_act es a r = Some r2" "engine_acts es as r2 = Some r1"
    by (auto simp: bind_eq_Some_conv)
  with Cons engine_act_closing show ?case by blast
qed simp

lemma engine_acts_misused:
  "engine_acts es as r = Some r1 \<Longrightarrow> (et_misused r \<Longrightarrow> es_http2 es) \<Longrightarrow> et_misused r1 \<Longrightarrow> es_http2 es"
proof (induction as arbitrary: r)
  case (Cons a as)
  then obtain r2 where r2: "engine_act es a r = Some r2" "engine_acts es as r2 = Some r1"
    by (auto simp: bind_eq_Some_conv)
  have "et_misused r2 \<Longrightarrow> es_http2 es"
    using r2(1) Cons.prems(2)
    by (cases a) (auto simp: late_use_def Let_def split: if_splits list.splits option.splits bool.splits)
  with Cons r2(2) show ?case by blast
qed simp

section \<open>Properties\<close>

definition counted_bytes :: "bool \<Rightarrow> engine_tunnel \<Rightarrow> int" where
  "counted_bytes upload r =
     (if cy_counted (et_side upload r) then int (length (sk_out (cy_sink (et_side upload r)))) else 0)"

text \<open>
  C18. The bill of a tunnel of the built-in engine, at any moment of any interleaving of its two
  copies and the handler, with HTTP/1 and HTTP/2: the user's account has gained exactly the
  bytes that reached the other side in those of its copies that have ended, and nothing yet
  for a copy that runs; and what reached either side is a beginning of what the other sent.
\<close>

theorem engine_tunnel_billed:
  assumes "engine_acts es as (engine_start client target s) = Some r"
    and "accounts_ok s" and "px_stats s uuid = Some (es_counter es)"
    and "pending_up (abs_stats s) uuid + int (length (concat (rd_chunks client))) < 2 ^ 63"
    and "pending_down (abs_stats s) uuid + int (length (concat (rd_chunks target))) < 2 ^ 63"
  shows "adds uuid (counted_bytes True r) (counted_bytes False r) s (et_server r) \<and>
     (\<exists>rest. concat (rd_chunks client) = sk_out (cy_sink (et_up r)) @ rest) \<and>
     (\<exists>rest. concat (rd_chunks target) = sk_out (cy_sink (et_down r)) @ rest)"
proof -
  note ok = engine_acts_copy_ok [OF assms(1)] and t = engine_acts_ok [OF assms(1)]
  have len: "length (sk_out (cy_sink (et_up r))) \<le> length (concat (rd_chunks client))"
    "length (sk_out (cy_sink (et_down r))) \<le> length (concat (rd_chunks target))"
    using ok by (auto simp: copy_ok_def)
  have "0 \<le> pending_up (abs_stats s) uuid \<and> 0 \<le> pending_down (abs_stats s) uuid"
    using assms(2) by (auto simp: accounts_ok_def dest: pending_nonneg)
  then have w: "cy_written (et_up r) = int (length (sk_out (cy_sink (et_up r))))"
    "cy_written (et_down r) = int (length (sk_out (cy_sink (et_down r))))"
    using ok len assms(4,5) by (auto simp: copy_ok_def wrap_simps in64_def)
  have m: "map_of (et_counted r) d = (if cy_counted (et_side d r) then Some (cy_written (et_side d r)) else None)" for d
    using t by (simp add: tunnel_ok_def del: map_of_eq_Some_iff)
  have "distinct (map fst (et_counted r))" using t by (simp add: tunnel_ok_def)
  then have sums: "copies_sum d (et_counted r) = counted_bytes d r" for d
    using m [of d] w by (cases d) (simp_all add: copies_sum_map_of counted_bytes_def side_sel)
  have "0 \<le> n" if "(d, n) \<in> set (et_counted r)" for d n
  proof -
    have "map_of (et_counted r) d = Some n"
      using that t by (intro map_of_is_SomeI) (simp_all add: tunnel_ok_def)
    with m [of d] w show ?thesis by (cases d) (auto simp: side_sel split: if_splits)
  qed
  then have "\<forall>(d, n)\<in>set (et_counted r). 0 \<le> n" by blast
  moreover have "counted_bytes True r \<le> int (length (concat (rd_chunks client)))"
    "counted_bytes False r \<le> int (length (concat (rd_chunks target)))"
    using len by (simp_all add: counted_bytes_def side_sel)
  ultimately have "adds uuid (copies_sum True (et_counted r)) (copies_sum False (et_counted r)) s
      (pipeTunnel (et_counted r) (es_counter es) s)"
    using assms(2-5) by (intro pipe_adds) (simp_all add: sums)
  then show ?thesis using t ok by (simp add: sums tunnel_ok_def copy_ok_def)
qed

text \<open>
  C37. A tunnel of the built-in engine always comes to its end: however it is interleaved it
  takes at most twice as many steps as the streams have bytes and chunks and eight more, and
  every run can go on until both copies are counted, the target is closed and the handler
  has returned.
\<close>

theorem engine_tunnel_comes_to_end:
  assumes "engine_acts es as (engine_start client target s) = Some r"
  shows "length as \<le> 2 * (chunk_weight (rd_chunks client) + chunk_weight (rd_chunks target)) + 8 \<and>
     (\<exists>more r1. engine_acts es (as @ more) (engine_start client target s) = Some r1 \<and> tunnel_finished r1)"
proof -
  have "acts_left (engine_start client target s) =
      2 * (chunk_weight (rd_chunks client) + chunk_weight (rd_chunks target)) + 8"
    by (simp add: acts_left_def copy_left_def engine_start_def copying_start_def)
  with engine_acts_left [OF assms] engine_to_end [OF assms] show ?thesis by simp
qed

text \<open>A client that sends nothing and closes its side, before the target has answered.\<close>

definition early_close :: "engine_move list" where
  "early_close =
     [CopyRead True, CopyWrite True, CopyEnds True, HandlerWakes, HandlerReturns, CopyRead False, CopyWrite False,
      CopyEnds False]"

lemma early_close_run:
  assumes "rd_chunks client = []" and "rd_end client = EOF"
  shows "\<exists>r. engine_acts es early_close (engine_start client target s) = Some r \<and> tunnel_finished r \<and>
     cy_result (et_up r) = Some None \<and> et_halfTarget r = es_targetTCP es \<and>
     sk_out (cy_sink (et_down r)) = [] \<and> cy_reader (et_down r) = target"
  using assms
  by (simp add: early_close_def engine_start_def copying_start_def copy_reads_def copy_writes_def Read_def
      source_gone_def ends_with_def net_closed_def set_side_def et_side_def tunnel_finished_def Let_def)

text \<open>
  C39. The first copy to end cuts the other one.  Once the handler has taken the first end,
  nothing more reaches the target, and the client gets at most a part of what had already
  been read for it.  So a client that closes its sending side, which the engine passes
  on to the target as a half-close, can lose the whole answer, and without an error.
\<close>

theorem first_end_cuts_other:
  assumes "engine_acts es later r = Some r1" and "et_woken r"
    and "rd_chunks client = []" and "rd_end client = EOF"
  shows "sk_out (cy_sink (et_up r1)) = sk_out (cy_sink (et_up r)) \<and>
     (\<exists>n. sk_out (cy_sink (et_down r1)) = sk_out (cy_sink (et_down r)) @ take n (held_bytes (et_down r))) \<and>
     (\<exists>as r2. engine_acts es as (engine_start client target s) = Some r2 \<and> tunnel_finished r2 \<and>
        cy_result (et_up r2) = Some None \<and> et_halfTarget r2 = es_targetTCP es \<and>
        sk_out (cy_sink (et_down r2)) = [] \<and> cy_reader (et_down r2) = target)"
proof -
  have "closing r r" using assms(2) by (simp add: closing_def)
  from engine_acts_closing [OF assms(1) this] have "closing r r1" .
  then have "\<exists>n. sk_out (cy_sink (et_down r1)) = sk_out (cy_sink (et_down r)) @ take n (held_bytes (et_down r))"
    "sk_out (cy_sink (et_up r1)) = sk_out (cy_sink (et_up r))"
    by (auto simp: closing_def intro: exI [of _ 0])
  with early_close_run [OF assms(3,4)] show ?thesis by blast
qed

text \<open>The same client, but a piece of the answer has been read for it when it closes.\<close>

definition late_write :: "engine_move list" where
  "late_write =
     [CopyRead False, CopyRead True, CopyWrite True, CopyEnds True, HandlerWakes, HandlerReturns, CopyWrite False]"

lemma late_write_run:
  assumes "rd_chunks client = []" and "rd_end client = EOF" and "rd_chunks target = (b # c) # cs"
  shows "\<exists>r. engine_acts es late_write (engine_start client target s) = Some r \<and> et_misused r = es_http2 es"
  using assms
  by (simp add: late_write_def engine_start_def copying_start_def copy_reads_def copy_writes_def Read_def
      source_gone_def ends_with_def net_closed_def set_side_def et_side_def Let_def late_use_def split: prod.split)


section \<open>Witnesses\<close>

text \<open>A user with a bucket; the client sends two bytes, the target answers with three.\<close>

definition sample_esetup :: "bool \<Rightarrow> engine_setup" where
  "sample_esetup http2 =
     \<lparr>es_http2 = http2, es_bucket = True, es_counter = 0, es_targetTCP = True, es_clientTCP = False, es_canFlush = True,
      es_toTarget = (\<lambda>_ p. (length p, None)), es_toClient = (\<lambda>_ p. (length p, None)), es_clientGone = net_closed\<rparr>"

definition sample_proxy :: ProxyServer where
  "sample_proxy = legacy_New sample_node [sample_user] Map.empty"

definition sample_emoves :: "engine_move list" where
  "sample_emoves =
     [CopyRead True, CopyRead False, CopyWrite True, CopyRead True, CopyWrite False, CopyRead False, CopyWrite False,
      CopyEnds False, HandlerWakes]"

lemma sample_proxy_counter: "px_stats sample_proxy ''u'' = Some 0"
  by (simp add: sample_proxy_def legacy_New_def legacy_replaceUsers_def legacy_enter_user_def legacy_set_or_new_def new_counter_def sample_user_def Let_def)

lemma sample_engine_run:
  "\<exists>r. engine_acts (sample_esetup False) sample_emoves (engine_start (sample_reader [1, 2]) (sample_reader [3, 4, 5]) s) = Some r \<and>
     counted_bytes True r = 0 \<and> counted_bytes False r = 3 \<and> et_woken r"
  by (simp add: sample_emoves_def sample_esetup_def sample_reader_def engine_start_def copying_start_def copy_reads_def
      copy_writes_def Read_def source_gone_def ends_with_def set_side_def et_side_def Let_def counted_bytes_def
      tunnel_write_def limitedWriter_Write_def conn_Write_def)

theorem engine_tunnel_billed_witness:
  "\<exists>r. engine_acts (sample_esetup False) sample_emoves
       (engine_start (sample_reader [1, 2]) (sample_reader [3, 4, 5]) sample_proxy) = Some r \<and>
     adds ''u'' 0 3 sample_proxy (et_server r)"
proof -
  obtain r where r: "engine_acts (sample_esetup False) sample_emoves
      (engine_start (sample_reader [1, 2]) (sample_reader [3, 4, 5]) sample_proxy) = Some r"
    "counted_bytes True r = 0" "counted_bytes False r = 3"
    using sample_engine_run [of sample_proxy] by blast
  have p: "accounts_ok sample_proxy" "pending_up (abs_stats sample_proxy) ''u'' = 0"
    "pending_down (abs_stats sample_proxy) ''u'' = 0"
    using legacy_New_ok [of "[sample_user]" sample_node Map.empty]
    by (simp_all add: sample_proxy_def uuids_present_def sample_user_def)
  have c: "px_stats sample_proxy ''u'' = Some (es_counter (sample_esetup False))"
    by (simp add: sample_proxy_counter sample_esetup_def)
  from engine_tunnel_billed [OF r(1) p(1) c] r p show ?thesis by (auto simp: sample_reader_def)
qed

theorem engine_tunnel_comes_to_end_witness:
  "\<exists>more r1. engine_acts (sample_esetup False) (sample_emoves @ more)
       (engine_start (sample_reader [1, 2]) (sample_reader [3, 4, 5]) sample_proxy) = Some r1 \<and> tunnel_finished r1 \<and>
     length sample_emoves = 9"
proof -
  obtain r where r: "engine_acts (sample_esetup False) sample_emoves
      (engine_start (sample_reader [1, 2]) (sample_reader [3, 4, 5]) sample_proxy) = Some r"
    using sample_engine_run [of sample_proxy] by blast
  with engine_tunnel_comes_to_end [OF r] show ?thesis by (simp add: sample_emoves_def)
qed

definition closed_client :: reader where
  "closed_client = \<lparr>rd_chunks = [], rd_eager = False, rd_end = EOF\<rparr>"

theorem first_end_cuts_other_witness:
  "\<exists>as r2. engine_acts (sample_esetup True) as (engine_start closed_client (sample_reader [3, 4, 5]) sample_proxy) = Some r2 \<and>
     tunnel_finished r2 \<and> sk_out (cy_sink (et_down r2)) = [] \<and> cy_reader (et_down r2) = sample_reader [3, 4, 5]"
proof -
  let ?r = "(engine_start closed_client (sample_reader [3, 4, 5]) sample_proxy)\<lparr>et_woken := True\<rparr>"
  have 1: "engine_acts (sample_esetup True) [] ?r = Some ?r" and 2: "et_woken ?r" by simp_all
  have 3: "rd_chunks closed_client = []" "rd_end closed_client = EOF" by (simp_all add: closed_client_def)
  from first_end_cuts_other [OF 1 2 3, of "sample_reader [3, 4, 5]" sample_proxy] show ?thesis by blast
qed


end
