(* ===== verification/Acl.thy ===== *)
theory Acl
  imports Go_Net
begin

text \<open>
  Which targets the forward proxy may reach: the ACL rules of
  \<^verbatim>\<open>runtime/forwardproxy/acl.go\<close>, and in \<^verbatim>\<open>forwardproxy.go\<close> the order in which
  Provision assembles them, the host and port decisions and the dialling loop.

  Name resolution and dialling are arguments (\<open>lookup\<close>, \<open>dial\<close>); the addresses dialled
  are part of the result.
\<close>

section \<open>The handler\<close>

record ACLRule =
  Subjects :: "string list"
  Allow :: bool

datatype aclDecision = aclDecisionAllow | aclDecisionDeny | aclDecisionNoMatch

datatype aclRule =
    aclIPRule (rule_net: IPNet) (rule_allow: bool)
  | aclDomainRule (rule_domain: string) (subdomainsAllowed: bool) (rule_allow: bool)
  | aclAllRule (rule_allow: bool)

record Handler =
  PACPath :: string
  HideIP :: bool
  HideVia :: bool
  DisableInsecureUpstreamsCheck :: bool
  Hosts :: "string list"
  ProbeResistance :: "string option"
  DialTimeout :: int
  MaxIdleConns :: int
  MaxIdleConnsPerHost :: int
  Upstream :: string
  ACL :: "ACLRule list"
  AllowedPorts :: "int list"
  aclRules :: "aclRule list"
  AuthCredentials :: "string list option"
  V2NaiveAuth :: bool

text \<open>\<^verbatim>\<open>caddyhttp.Error\<close> with its status, or any other error.\<close>

datatype proxy_error = HandlerError int string | OtherError string

section \<open>Rules\<close>

definition decision :: "bool \<Rightarrow> aclDecision" where
  "decision allow = (if allow then aclDecisionAllow else aclDecisionDeny)"

fun tryMatch :: "aclRule \<Rightarrow> IP \<Rightarrow> string \<Rightarrow> aclDecision" where
  "tryMatch (aclIPRule net allow) ip domain =
     (if \<not> net_Contains net ip then aclDecisionNoMatch else decision allow)"
| "tryMatch (aclDomainRule d subs allow) ip domain0 =
     (let domain = TrimPrefix domain0 ''.'' in
      if domain = d \<or> subs \<and> HasSuffix domain (''.'' @ d) then decision allow
      else aclDecisionNoMatch)"
| "tryMatch (aclAllRule allow) ip domain = decision allow"

definition domain_char :: "char \<Rightarrow> bool" where
  "domain_char c =
     (let n = of_char c :: nat in
      97 \<le> n \<and> n \<le> 122 \<or> 65 \<le> n \<and> n \<le> 90 \<or> c = CHR ''_'' \<or> 48 \<le> n \<and> n \<le> 57 \<or>
      c = CHR ''-'' \<or> c = CHR ''.'')"

fun section_error :: "string list \<Rightarrow> string option" where
  "section_error [] = None"
| "section_error (s # ss) =
     (if length s = 0
      then Some ''empty section between dots in domain name or trailing dot''
      else if length s > 63 then Some ''domain name section is too long''
      else section_error ss)"

text \<open>\<^verbatim>\<open>string(c)\<close> of a byte is the UTF-8 encoding of the code point.\<close>

definition string_of_byte :: "char \<Rightarrow> string" where
  "string_of_byte c =
     (let n = of_char c :: nat in if n < 128 then [c] else bytes [192 + n div 64, 128 + n mod 64])"

text \<open>\<open>None\<close>: the domain looks valid.\<close>

definition isValidDomainLite :: "string \<Rightarrow> string option" where
  "isValidDomainLite domain =
     (case filter (\<lambda>c. \<not> domain_char c) domain of
        c # _ \<Rightarrow> Some (''character '' @ string_of_byte c @ '' is not allowed'')
      | [] \<Rightarrow> section_error (split_char (CHR ''.'') domain))"

definition newACLRule :: "string \<Rightarrow> bool \<Rightarrow> string + aclRule" where
  "newACLRule ruleSubject allow =
     (if ruleSubject = ''all'' then Inr (aclAllRule allow)
      else
        let ipNet = (case ParseCIDR ruleSubject of
               Some n \<Rightarrow> Some n
             | None \<Rightarrow>
                 (case ParseIP ruleSubject of
                    None \<Rightarrow> None
                  | Some ip \<Rightarrow>
                      if To4 ip \<noteq> None then ParseCIDR (ruleSubject @ ''/32'')
                      else ParseCIDR (ruleSubject @ ''/128'')))
        in (case ipNet of
              Some n \<Rightarrow> Inr (aclIPRule n allow)
            | None \<Rightarrow>
                let subs = HasPrefix ruleSubject ''*.'';
                    domain = (if subs then drop 2 ruleSubject else ruleSubject)
                in (case isValidDomainLite domain of
                      Some err \<Rightarrow>
                        Inl (domain @ '' could not be parsed as either IP, IP network, or domain: '' @ err)
                    | None \<Rightarrow> Inr (aclDomainRule domain subs allow))))"

section \<open>Provision\<close>

fun parse_subjects :: "bool \<Rightarrow> string list \<Rightarrow> string + aclRule list" where
  "parse_subjects allow [] = Inr []"
| "parse_subjects allow (subj # subjs) =
     (case newACLRule subj allow of
        Inl err \<Rightarrow> Inl err
      | Inr ar \<Rightarrow> map_sum id ((#) ar) (parse_subjects allow subjs))"

fun parse_rules :: "ACLRule list \<Rightarrow> string + aclRule list" where
  "parse_rules [] = Inr []"
| "parse_rules (rule # rules) =
     (case parse_subjects (Allow rule) (Subjects rule) of
        Inl err \<Rightarrow> Inl err
      | Inr ars \<Rightarrow> map_sum id ((@) ars) (parse_rules rules))"

definition builtin_denied :: "string list" where
  "builtin_denied =
     [''10.0.0.0/8'', ''127.0.0.0/8'', ''172.16.0.0/12'', ''192.168.0.0/16'', ''::1/128'', ''fe80::/10'']"

definition provision_acl :: "Handler \<Rightarrow> string + Handler" where
  "provision_acl h =
     (case parse_rules (ACL h) of
        Inl err \<Rightarrow> Inl err
      | Inr configured \<Rightarrow>
          (case parse_subjects False builtin_denied of
             Inl err \<Rightarrow> Inl err
           | Inr builtin \<Rightarrow>
               Inr (h\<lparr>aclRules := aclRules h @ configured @ builtin @ [aclAllRule True]\<rparr>)))"

section \<open>Decisions\<close>

fun first_match :: "aclRule list \<Rightarrow> string \<Rightarrow> IP \<Rightarrow> bool" where
  "first_match [] hostname ip = False"
| "first_match (rule # rules) hostname ip =
     (case tryMatch rule ip hostname of
        aclDecisionDeny \<Rightarrow> False
      | aclDecisionAllow \<Rightarrow> True
      | aclDecisionNoMatch \<Rightarrow> first_match rules hostname ip)"

definition hostIsAllowed :: "Handler \<Rightarrow> string \<Rightarrow> IP \<Rightarrow> bool" where
  "hostIsAllowed h hostname ip = first_match (aclRules h) hostname ip"

definition portIsAllowed :: "Handler \<Rightarrow> string \<Rightarrow> bool" where
  "portIsAllowed h port =
     (case Atoi port of
        None \<Rightarrow> False
      | Some portInt \<Rightarrow>
          if portInt \<le> 0 \<or> portInt > 65535 then False
          else if AllowedPorts h = [] then True
          else portInt \<in> set (AllowedPorts h))"

text \<open>The loop over the domain rules before the name is resolved: is the host refused?\<close>

fun host_refused :: "aclRule list \<Rightarrow> string \<Rightarrow> bool" where
  "host_refused [] host = False"
| "host_refused (aclDomainRule d subs allow # rules) host =
     (case tryMatch (aclDomainRule d subs allow) [] host of
        aclDecisionDeny \<Rightarrow> True
      | aclDecisionAllow \<Rightarrow> False
      | aclDecisionNoMatch \<Rightarrow> host_refused rules host)"
| "host_refused (aclIPRule net allow # rules) host = host_refused rules host"
| "host_refused (aclAllRule allow # rules) host = host_refused rules host"

text \<open>The text of SplitHostPort's error is left out: it is shown to nobody but the log.\<close>

text \<open>The addresses of the host in order, until one can be dialled.\<close>

fun dial_ips ::
  "Handler \<Rightarrow> (string \<Rightarrow> string \<Rightarrow> string + 'c) \<Rightarrow> string \<Rightarrow> string \<Rightarrow> string \<Rightarrow> IP list \<Rightarrow>
     (proxy_error + 'c) \<times> string list" where
  "dial_ips h dial network host port [] =
     (Inl (HandlerError 403 (''no allowed IP addresses for '' @ host)), [])"
| "dial_ips h dial network host port (ip # ips) =
     (if \<not> hostIsAllowed h host ip then dial_ips h dial network host port ips
      else
        let address = JoinHostPort (IP_String ip) port in
        (case dial network address of
           Inr conn \<Rightarrow> (Inr conn, [address])
         | Inl _ \<Rightarrow> apsnd ((#) address) (dial_ips h dial network host port ips)))"

definition dialContextCheckACL ::
  "Handler \<Rightarrow> (string \<Rightarrow> string + IP list) \<Rightarrow> (string \<Rightarrow> string \<Rightarrow> string + 'c) \<Rightarrow> string \<Rightarrow> string \<Rightarrow>
     (proxy_error + 'c) \<times> string list" where
  "dialContextCheckACL h lookup dial network hostPort =
     (if network \<noteq> ''tcp'' \<and> network \<noteq> ''tcp4'' \<and> network \<noteq> ''tcp6''
      then (Inl (HandlerError 400 (''network '' @ network @ '' is not supported'')), [])
      else (case SplitHostPort hostPort of
         None \<Rightarrow> (Inl (HandlerError 400 ''bad address''), [])
       | Some (host, port) \<Rightarrow>
           if Upstream h \<noteq> [] then
             (case dial network hostPort of
                Inl err \<Rightarrow> (Inl (HandlerError 502 err), [hostPort])
              | Inr conn \<Rightarrow> (Inr conn, [hostPort]))
           else if \<not> portIsAllowed h port
           then (Inl (HandlerError 403 (''port '' @ port @ '' is not allowed'')), [])
           else if host_refused (aclRules h) host
           then (Inl (HandlerError 403 (''disallowed host '' @ host)), [])
           else (case lookup host of
              Inl err \<Rightarrow> (Inl (HandlerError 502 (''lookup of '' @ host @ '' failed: '' @ err)), [])
            | Inr ips \<Rightarrow> dial_ips h dial network host port ips)))"


section \<open>The built-in rules\<close>

lemma builtin_rules:
  "parse_subjects False builtin_denied =
     Inr [aclIPRule \<lparr>net_IP = [10, 0, 0, 0], net_Mask = [255, 0, 0, 0]\<rparr> False,
          aclIPRule \<lparr>net_IP = [127, 0, 0, 0], net_Mask = [255, 0, 0, 0]\<rparr> False,
          aclIPRule \<lparr>net_IP = [172, 16, 0, 0], net_Mask = [255, 240, 0, 0]\<rparr> False,
          aclIPRule \<lparr>net_IP = [192, 168, 0, 0], net_Mask = [255, 255, 0, 0]\<rparr> False,
          aclIPRule \<lparr>net_IP = replicate 15 0 @ [1], net_Mask = replicate 16 255\<rparr> False,
          aclIPRule \<lparr>net_IP = 0xFE # 0x80 # replicate 14 0,
                     net_Mask = 255 # 192 # replicate 14 0\<rparr> False]"
  by code_simp

text \<open>The private ranges, on the bytes of an address.\<close>

definition private_address :: "IP \<Rightarrow> bool" where
  "private_address ip =
     (case To4 ip of
        Some v4 \<Rightarrow>
          v4 ! 0 = 10 \<or> v4 ! 0 = 127 \<or> (v4 ! 0 = 172 \<and> v4 ! 1 AND 0xF0 = 16) \<or>
          (v4 ! 0 = 192 \<and> v4 ! 1 = 168)
      | None \<Rightarrow> ip = replicate 15 0 @ [1] \<or> (ip ! 0 = 0xFE \<and> ip ! 1 AND 0xC0 = 0x80))"

lemma To4_length: "To4 ip = Some v4 \<Longrightarrow> length v4 = 4"
  by (auto simp: To4_def split: if_splits)

lemma net_Contains_v4:
  "length n = 4 \<Longrightarrow> length m = 4 \<Longrightarrow> length ip = 4 \<or> length ip = 16 \<Longrightarrow>
     net_Contains \<lparr>net_IP = n, net_Mask = m\<rparr> ip \<longleftrightarrow>
       (\<exists>v4. To4 ip = Some v4 \<and> (\<forall>i<4. n ! i AND m ! i = v4 ! i AND m ! i))"
  by (auto simp: net_Contains_def net_number_def Let_def To4_def)

lemma net_Contains_v6:
  "length n = 16 \<Longrightarrow> length m = 16 \<Longrightarrow> To4 n = None \<Longrightarrow> length ip = 4 \<or> length ip = 16 \<Longrightarrow>
     net_Contains \<lparr>net_IP = n, net_Mask = m\<rparr> ip \<longleftrightarrow>
       To4 ip = None \<and> (\<forall>i<16. n ! i AND m ! i = ip ! i AND m ! i)"
  by (auto simp: net_Contains_def net_number_def Let_def To4_def split: if_splits)

lemma all_less_4: "(\<forall>i<4. P i) \<longleftrightarrow> P 0 \<and> P 1 \<and> P 2 \<and> P (3::nat)"
  by (auto simp: numeral_eq_Suc less_Suc_eq)

lemma byte_and_255 [simp]: "(255 :: 8 word) AND x = x" "x AND 255 = (x :: 8 word)"
proof -
  have ones: "(255 :: 8 word) = - 1" by simp
  show "(255 :: 8 word) AND x = x" "x AND 255 = x"
    by (simp_all only: ones and.left_neutral and.right_neutral)
qed

lemma To4_length4: "length ip = 4 \<Longrightarrow> To4 ip = Some ip"
  by (simp add: To4_def)

lemma To4_literals:
  "To4 (replicate 15 0 @ [1]) = None"
  "To4 (0xFE # 0x80 # replicate 14 0) = None"
  by code_simp+

lemma all_less_16: "(\<forall>i<16. P i) \<longleftrightarrow> P 0 \<and> P 1 \<and> (\<forall>i<16. 2 \<le> i \<longrightarrow> P (i::nat))"
  by (metis One_nat_def less_2_cases not_le numeral_2_eq_2 one_less_numeral_iff semiring_norm(76)
      zero_less_numeral)

lemma builtin_first_match:
  assumes "length ip = 4 \<or> length ip = 16" and "parse_subjects False builtin_denied = Inr builtin"
  shows "first_match (builtin @ [aclAllRule True]) host ip \<longleftrightarrow> \<not> private_address ip"
proof (cases "To4 ip")
  case None
  note b = assms(2) [unfolded builtin_rules, simplified, symmetric]
  have len: "length ip = 16" using None assms(1) by (auto simp: To4_def)
  have loop: "(\<forall>i<16. (replicate 15 0 @ [1]) ! i = ip ! i)
      \<longleftrightarrow> ip = replicate 15 0 @ [1 :: 8 word]"
    using len by (auto simp: list_eq_iff_nth_eq)
  have link: "(\<forall>i<16. (0xFE # 0x80 # replicate 14 0) ! i AND (255 # 192 # replicate 14 0) ! i =
        ip ! i AND (255 # 192 # replicate 14 (0 :: 8 word)) ! i)
      \<longleftrightarrow> ip ! 0 = 0xFE \<and> ip ! 1 AND 0xC0 = 0x80"
    by (subst all_less_16) (auto simp: nth_Cons split: nat.split)
  show ?thesis
    using None len
    by (simp add: b private_address_def net_Contains_v4 net_Contains_v6 loop link
        decision_def To4_length4 To4_literals)
next
  case (Some v4)
  note b = assms(2) [unfolded builtin_rules, simplified, symmetric]
  show ?thesis
    using assms(1) Some
    by (simp add: b private_address_def net_Contains_v4 net_Contains_v6 all_less_4
        decision_def To4_length4 To4_literals)
qed

section \<open>The dialling loop\<close>

text \<open>The addresses the loop may dial, in order.\<close>

definition candidates :: "Handler \<Rightarrow> string \<Rightarrow> string \<Rightarrow> IP list \<Rightarrow> string list" where
  "candidates h host port ips =
     map (\<lambda>ip. JoinHostPort (IP_String ip) port) (filter (hostIsAllowed h host) ips)"

lemma dial_ips_eq:
  "dial_ips h dial network host port ips =
     (let cand = candidates h host port ips;
          failed = takeWhile (\<lambda>a. isl (dial network a)) cand
      in case drop (length failed) cand of
           [] \<Rightarrow> (Inl (HandlerError 403 (''no allowed IP addresses for '' @ host)), cand)
         | a # _ \<Rightarrow> (Inr (projr (dial network a)), failed @ [a]))"
proof (induction ips)
  case Nil
  then show ?case by (simp add: candidates_def)
next
  case (Cons ip ips)
  show ?case
  proof (cases "hostIsAllowed h host ip")
    case False
    with Cons show ?thesis by (simp add: candidates_def)
  next
    case True
    then have c: "candidates h host port (ip # ips) =
        JoinHostPort (IP_String ip) port # candidates h host port ips"
      by (simp add: candidates_def)
    show ?thesis
      by (cases "dial network (JoinHostPort (IP_String ip) port)")
         (use True Cons in \<open>simp_all add: c Let_def split: list.split\<close>)
  qed
qed

lemma dial_ips_trace: "set (snd (dial_ips h dial network host port ips)) \<subseteq> set (candidates h host port ips)"
proof (induction ips)
  case Nil
  then show ?case by simp
next
  case (Cons ip ips)
  then show ?case
    by (cases "dial network (JoinHostPort (IP_String ip) port)") (auto simp: candidates_def Let_def)
qed

lemma dial_ips_connected:
  "fst (dial_ips h dial network host port ips) = Inr conn \<Longrightarrow>
     \<exists>failed a. snd (dial_ips h dial network host port ips) = failed @ [a] \<and>
       dial network a = Inr conn \<and> (\<forall>b\<in>set failed. isl (dial network b))"
proof (induction ips)
  case Nil
  then show ?case by simp
next
  case (Cons ip ips)
  show ?case
  proof (cases "hostIsAllowed h host ip")
    case False
    with Cons show ?thesis by simp
  next
    case True
    let ?a = "JoinHostPort (IP_String ip) port"
    show ?thesis
    proof (cases "dial network ?a")
      case (Inr c)
      with True Cons.prems show ?thesis by (auto simp: Let_def)
    next
      case (Inl err)
      with True Cons.prems obtain failed a where
        "snd (dial_ips h dial network host port ips) = failed @ [a]"
        "dial network a = Inr conn" "\<forall>b\<in>set failed. isl (dial network b)"
        using Cons.IH by (auto simp: Let_def)
      with True Inl show ?thesis
        by (intro exI [of _ "?a # failed"] exI [of _ a]) (simp add: Let_def)
    qed
  qed
qed

section \<open>Properties\<close>

definition default_handler :: Handler where
  "default_handler =
     \<lparr>PACPath = [], HideIP = False, HideVia = False, DisableInsecureUpstreamsCheck = False,
      Hosts = [], ProbeResistance = None, DialTimeout = 0, MaxIdleConns = 0,
      MaxIdleConnsPerHost = 0, Upstream = [], ACL = [], AllowedPorts = [], aclRules = [],
      AuthCredentials = None, V2NaiveAuth = True\<rparr>"



text \<open>
  With no ACL configured the handler's own rules decide: an address is reachable
  exactly if it is not private, whatever name it was resolved from.  Loopback, the three
  private IPv4 ranges (also written as IPv4-mapped IPv6 addresses), ::1 and the
  link-local range fe80::/10 are refused, everything else is allowed.
\<close>

theorem builtin_policy:
  assumes "provision_acl h = Inr h1" and "ACL h = []" and "aclRules h = []"
    and "length ip = 4 \<or> length ip = 16"
  shows "hostIsAllowed h1 host ip \<longleftrightarrow> \<not> private_address ip"
proof -
  obtain builtin where b: "parse_subjects False builtin_denied = Inr builtin"
    using builtin_rules by simp
  with assms(1-3) have "aclRules h1 = builtin @ [aclAllRule True]"
    by (auto simp: provision_acl_def)
  then show ?thesis
    using builtin_first_match [OF assms(4) b] by (simp add: hostIsAllowed_def)
qed

theorem builtin_policy_witness:
  "\<exists>h1. provision_acl default_handler = Inr h1 \<and>
     \<not> hostIsAllowed h1 ''localhost'' [127, 0, 0, 1] \<and> hostIsAllowed h1 ''dns'' [8, 8, 8, 8]"
proof -
  obtain h1 where h1: "provision_acl default_handler = Inr h1"
    by (simp add: provision_acl_def default_handler_def builtin_rules)
  then have "hostIsAllowed h1 host ip \<longleftrightarrow> \<not> private_address ip" if "length ip = 4" for host ip
    using that by (intro builtin_policy) (auto simp: default_handler_def)
  with h1 show ?thesis by (auto simp: private_address_def To4_length4)
qed

text \<open>
  A configured rule for all shadows the built-in ones: with \<^verbatim>\<open>allow all\<close>, which the
  generated Caddyfile contains, every address is allowed, loopback and private ranges
  included, so a proxy user reaches the services of the node itself.
\<close>

theorem allow_all_shadows_builtin:
  assumes "provision_acl h = Inr h1" and "ACL h = [\<lparr>Subjects = [''all''], Allow = True\<rparr>]"
    and "aclRules h = []"
  shows "hostIsAllowed h1 host ip \<and> \<not> host_refused (aclRules h1) host"
  using assms
  by (auto simp: provision_acl_def newACLRule_def hostIsAllowed_def decision_def builtin_rules)

theorem allow_all_shadows_builtin_witness:
  "\<exists>h1. provision_acl (default_handler\<lparr>ACL := [\<lparr>Subjects = [''all''], Allow = True\<rparr>]\<rparr>) = Inr h1 \<and>
     hostIsAllowed h1 ''localhost'' [127, 0, 0, 1]"
proof -
  let ?h = "default_handler\<lparr>ACL := [\<lparr>Subjects = [''all''], Allow = True\<rparr>]\<rparr>"
  obtain h1 where h1: "provision_acl ?h = Inr h1"
    by (simp add: provision_acl_def default_handler_def builtin_rules newACLRule_def)
  with allow_all_shadows_builtin [OF h1] show ?thesis by (auto simp: default_handler_def)
qed

text \<open>
  A single address written in its IPv4-mapped form becomes a network of the first 32
  bits of IPv6: the rule misses the address and matches others.
\<close>

lemma mapped_subject_misses:
  "(case newACLRule ''::ffff:1.2.3.4'' False of
      Inl _ \<Rightarrow> False
    | Inr rule \<Rightarrow>
        tryMatch rule [1, 2, 3, 4] [] = aclDecisionNoMatch \<and>
        tryMatch rule (replicate 15 0 @ [1]) [] = aclDecisionDeny)"
  by code_simp

end
