(* ===== verification/RateLimit.thy ===== *)
theory RateLimit
  imports Streams
begin

text \<open>
  The speed limit of a user's tunnels, \<^verbatim>\<open>runtime/forwardproxy/v2naive_ratelimit.go\<close>: one
  \<^verbatim>\<open>dynamicRateLimiter\<close> per user, shared by all tunnels of the user, and the waiting in pieces
  no larger than the burst.

  The limiters are objects the tunnels keep pointers to: a heap from addresses.  The token
  bucket of \<^verbatim>\<open>golang.org/x/time/rate\<close> is a token here, its \<^verbatim>\<open>WaitN\<close> an argument.
\<close>

section \<open>The limiters\<close>

text \<open>\<open>dl_limiter\<close>: the bucket, by the number of its creation.\<close>

record dynamicRateLimiter =
  dl_limiter :: "nat option"
  dl_bytesPerSec :: int

record limiters =
  lm_users :: "string \<rightharpoonup> nat"
  lm_heap :: "nat \<Rightarrow> dynamicRateLimiter"
  lm_next :: nat
  lm_buckets :: nat

definition no_limiters :: limiters where
  "no_limiters =
     \<lparr>lm_users = Map.empty, lm_heap = (\<lambda>_. \<lparr>dl_limiter = None, dl_bytesPerSec = 0\<rparr>), lm_next = 0,
      lm_buckets = 0\<rparr>"

definition speed_bytes :: "int \<Rightarrow> int" where
  "speed_bytes speedLimit = go_quot (wrap64 (speedLimit * 1000000)) 8"

text \<open>\<^verbatim>\<open>LoadOrStore\<close> of a fresh limiter.\<close>

definition load_or_store :: "string \<Rightarrow> limiters \<Rightarrow> nat \<times> limiters" where
  "load_or_store user st =
     (case lm_users st user of
        Some a \<Rightarrow> (a, st)
      | None \<Rightarrow>
          (lm_next st,
           st\<lparr>lm_users := (lm_users st)(user \<mapsto> lm_next st),
             lm_heap := (lm_heap st)(lm_next st := \<lparr>dl_limiter = None, dl_bytesPerSec = 0\<rparr>),
             lm_next := Suc (lm_next st)\<rparr>))"

definition getUserRateLimiter :: "string \<Rightarrow> int \<Rightarrow> limiters \<Rightarrow> nat option \<times> limiters" where
  "getUserRateLimiter user speedLimit st =
     (if user = [] then (None, st)
      else if speedLimit \<le> 0 then
        let st1 = (case lm_users st user of
               None \<Rightarrow> st
             | Some a \<Rightarrow> st\<lparr>lm_heap := (lm_heap st)(a := \<lparr>dl_limiter = None, dl_bytesPerSec = 0\<rparr>)\<rparr>)
        in (None, st1\<lparr>lm_users := (lm_users st1)(user := None)\<rparr>)
      else
        let bytesPerSec = speed_bytes speedLimit in
        if bytesPerSec \<le> 0 then (None, st\<lparr>lm_users := (lm_users st)(user := None)\<rparr>)
        else
          let (a, st1) = load_or_store user st;
              limiter = lm_heap st1 a;
              st2 = (if dl_limiter limiter = None \<or> dl_bytesPerSec limiter \<noteq> bytesPerSec
                     then st1\<lparr>lm_heap := (lm_heap st1)(a :=
                                \<lparr>dl_limiter = Some (lm_buckets st1), dl_bytesPerSec = bytesPerSec\<rparr>),
                              lm_buckets := Suc (lm_buckets st1)\<rparr>
                     else st1)
          in (Some a, st2))"

section \<open>Waiting\<close>

text \<open>The pieces waited for so far and the error; \<open>wait i\<close> answers the i-th wait of the call.\<close>

function wait_chunks ::
  "(nat \<Rightarrow> nat \<Rightarrow> io_error option) \<Rightarrow> nat \<Rightarrow> nat \<Rightarrow> nat \<Rightarrow> nat list \<times> io_error option" where
  "wait_chunks wait burst i remaining =
     (if remaining = 0 \<or> burst = 0 then ([], None)
      else
        let chunk = (if remaining > burst then burst else remaining) in
        (case wait i chunk of
           Some err \<Rightarrow> ([], Some err)
         | None \<Rightarrow>
             (case wait_chunks wait burst (Suc i) (remaining - chunk) of
                (chunks, err) \<Rightarrow> (chunk # chunks, err))))"
  by pat_completeness auto
termination
  by (relation "measure (\<lambda>(wait, burst, i, remaining). remaining)") auto

declare wait_chunks.simps [simp del]

definition WaitN ::
  "(nat \<Rightarrow> nat \<Rightarrow> io_error option) \<Rightarrow> dynamicRateLimiter option \<Rightarrow> int \<Rightarrow> nat list \<times> io_error option" where
  "WaitN wait d n =
     (case d of
        None \<Rightarrow> ([], None)
      | Some l \<Rightarrow>
          if n \<le> 0 then ([], None)
          else if dl_limiter l = None \<or> dl_bytesPerSec l \<le> 0 then ([], None)
          else wait_chunks wait (nat (dl_bytesPerSec l)) 0 (nat n))"

section \<open>Facts\<close>

lemma wait_chunks_exact:
  assumes "0 < burst" and "\<And>i c. 0 < c \<Longrightarrow> c \<le> burst \<Longrightarrow> wait i c = None"
  shows "snd (wait_chunks wait burst i n) = None \<and> sum_list (fst (wait_chunks wait burst i n)) = n \<and>
     (\<forall>c\<in>set (fst (wait_chunks wait burst i n)). 0 < c \<and> c \<le> burst) \<and>
     burst * length (fst (wait_chunks wait burst i n)) < n + burst"
proof (induction n arbitrary: i rule: less_induct)
  case (less n)
  show ?case
  proof (cases "n = 0")
    case True
    then show ?thesis using assms(1) by (simp add: wait_chunks.simps)
  next
    case False
    let ?c = "if n > burst then burst else n"
    have c: "0 < ?c" "?c \<le> burst" "n - ?c < n" using False assms(1) by auto
    obtain cs err where r: "wait_chunks wait burst (Suc i) (n - ?c) = (cs, err)" by (metis surj_pair)
    then have eq: "wait_chunks wait burst i n = (?c # cs, err)"
      using False assms(1) assms(2) [OF c(1,2)] by (simp add: wait_chunks.simps [of wait burst i n] Let_def)
    from less [OF c(3), of "Suc i"] r
    have ih: "err = None" "sum_list cs = n - ?c" "\<forall>c\<in>set cs. 0 < c \<and> c \<le> burst"
      "burst * length cs < n - ?c + burst" by auto
    show ?thesis
    proof (cases "n > burst")
      case True
      with ih c show ?thesis unfolding eq by (simp add: algebra_simps)
    next
      case False
      with ih have "cs = []" using assms(1) by (cases cs) auto
      with ih False c show ?thesis unfolding eq by simp
    qed
  qed
qed

text \<open>No two users share a limiter, and every address in use has been handed out.\<close>

definition limiters_ok :: "limiters \<Rightarrow> bool" where
  "limiters_ok st \<longleftrightarrow>
     (\<forall>u a. lm_users st u = Some a \<longrightarrow> a < lm_next st) \<and>
     (\<forall>u v a. lm_users st u = Some a \<longrightarrow> lm_users st v = Some a \<longrightarrow> u = v)"

lemma no_limiters_ok: "limiters_ok no_limiters"
  by (simp add: limiters_ok_def no_limiters_def)

lemma getUserRateLimiter_ok:
  assumes "limiters_ok st"
  shows "limiters_ok (snd (getUserRateLimiter user speedLimit st))"
  using assms
  by (auto simp: getUserRateLimiter_def load_or_store_def limiters_ok_def Let_def intro: less_SucI
      split: option.splits if_splits)

text \<open>A call for one user leaves the limiters of the others alone.\<close>

lemma getUserRateLimiter_frame:
  assumes "limiters_ok st" and "user \<noteq> other" and "lm_users st other = Some a"
  shows "lm_users (snd (getUserRateLimiter user speedLimit st)) other = Some a \<and>
     lm_heap (snd (getUserRateLimiter user speedLimit st)) a = lm_heap st a"
  using assms
  by (auto simp: getUserRateLimiter_def load_or_store_def limiters_ok_def Let_def split: option.splits if_splits)


lemma granted_limiter:
  assumes "getUserRateLimiter user speedLimit st = (Some a, st1)"
  shows "lm_users st1 user = Some a \<and> dl_limiter (lm_heap st1 a) \<noteq> None \<and>
     dl_bytesPerSec (lm_heap st1 a) = speed_bytes speedLimit \<and> 0 < speed_bytes speedLimit \<and> user \<noteq> []"
  using assms
  by (auto simp: getUserRateLimiter_def load_or_store_def Let_def split: option.splits if_splits)

lemma getUserRateLimiter_known:
  assumes "lm_users st user = Some a" and "0 < speedLimit" and "0 < speed_bytes speedLimit" and "user \<noteq> []"
  shows "fst (getUserRateLimiter user speedLimit st) = Some a"
  using assms by (simp add: getUserRateLimiter_def load_or_store_def Let_def)

section \<open>Properties\<close>

text \<open>
  C40. Waiting never asks for more than the burst: the pieces a write of n bytes waits for
  are positive, each within the burst, add up to n and are as few as possible, so a token
  bucket that refuses only more than its burst never fails a tunnel, and the loop ends.
\<close>

theorem wait_in_pieces:
  assumes "dl_limiter l \<noteq> None" and "0 < dl_bytesPerSec l" and "0 \<le> n"
    and "\<And>i c. 0 < c \<Longrightarrow> int c \<le> dl_bytesPerSec l \<Longrightarrow> wait i c = None"
    and "WaitN wait (Some l) n = (chunks, err)"
  shows "err = None \<and> int (sum_list chunks) = n \<and> (\<forall>c\<in>set chunks. 0 < c \<and> int c \<le> dl_bytesPerSec l) \<and>
     dl_bytesPerSec l * int (length chunks) < n + dl_bytesPerSec l"
proof (cases "n = 0")
  case True
  with assms(2,5) show ?thesis by (auto simp: WaitN_def)
next
  case False
  let ?b = "nat (dl_bytesPerSec l)"
  have w: "wait_chunks wait ?b 0 (nat n) = (chunks, err)"
    using assms(1-3,5) False by (auto simp: WaitN_def)
  have "snd (wait_chunks wait ?b 0 (nat n)) = None \<and> sum_list (fst (wait_chunks wait ?b 0 (nat n))) = nat n \<and>
     (\<forall>c\<in>set (fst (wait_chunks wait ?b 0 (nat n))). 0 < c \<and> c \<le> ?b) \<and>
     ?b * length (fst (wait_chunks wait ?b 0 (nat n))) < nat n + ?b"
    using assms(2,4) by (intro wait_chunks_exact) auto
  then have r: "err = None" "sum_list chunks = nat n" "\<forall>c\<in>set chunks. 0 < c \<and> c \<le> ?b"
    "?b * length chunks < nat n + ?b" by (simp_all add: w)
  then have "int (?b * length chunks) < int (nat n + ?b)" by (simp only: of_nat_less_iff)
  then have "dl_bytesPerSec l * int (length chunks) < n + dl_bytesPerSec l" using assms(2,3) by simp
  with r(1-3) assms(2,3) show ?thesis by (auto simp: le_nat_iff)
qed

theorem wait_in_pieces_witness:
  "\<exists>chunks. WaitN (\<lambda>_ c. if c > 4 then Some (IoError ''burst'') else None)
       (Some \<lparr>dl_limiter = Some 0, dl_bytesPerSec = 4\<rparr>) 10 = (chunks, None) \<and> sum_list chunks = 10 \<and> length chunks < 4"
proof -
  let ?l = "\<lparr>dl_limiter = Some 0, dl_bytesPerSec = 4\<rparr>"
  obtain chunks err where w: "WaitN (\<lambda>_ c. if c > 4 then Some (IoError ''burst'') else None) (Some ?l) 10 = (chunks, err)"
    by (metis surj_pair)
  from wait_in_pieces [OF _ _ _ _ w] have "err = None \<and> int (sum_list chunks) = 10 \<and>
      4 * int (length chunks) < 14" by simp
  with w show ?thesis by auto
qed

text \<open>
  One limiter per user: a further connection of the user gets the limiter the earlier
  ones hold, set to the new speed, so a changed limit reaches the tunnels that already
  run; the limiters of other users keep their speed.
\<close>

theorem speed_change_reaches_tunnels:
  assumes "limiters_ok st" and "getUserRateLimiter user speed1 st = (Some a, st1)"
    and "0 < speed2" and "0 < speed_bytes speed2"
    and "getUserRateLimiter user speed2 st1 = (r, st2)"
  shows "r = Some a \<and> dl_bytesPerSec (lm_heap st2 a) = speed_bytes speed2 \<and> dl_limiter (lm_heap st2 a) \<noteq> None \<and>
     (\<forall>other b. other \<noteq> user \<longrightarrow> lm_users st other = Some b \<longrightarrow> lm_heap st2 b = lm_heap st b)"
proof -
  have st1: "st1 = snd (getUserRateLimiter user speed1 st)" and st2: "st2 = snd (getUserRateLimiter user speed2 st1)"
    using assms(2,5) by simp_all
  have ok1: "limiters_ok st1" unfolding st1 by (rule getUserRateLimiter_ok [OF assms(1)])
  have g: "lm_users st1 user = Some a" "user \<noteq> []" using granted_limiter [OF assms(2)] by auto
  have r: "r = Some a"
    using getUserRateLimiter_known [OF g(1) assms(3,4) g(2)] assms(5) by simp
  have "lm_heap st2 b = lm_heap st b" if "other \<noteq> user" "lm_users st other = Some b" for other b
  proof -
    have "lm_users st1 other = Some b \<and> lm_heap st1 b = lm_heap st b"
      unfolding st1 using getUserRateLimiter_frame [OF assms(1) _ that(2)] that(1) by metis
    moreover from this have "lm_heap st2 b = lm_heap st1 b"
      unfolding st2 using getUserRateLimiter_frame [OF ok1, of user other b] that(1) by metis
    ultimately show ?thesis by simp
  qed
  with granted_limiter [OF assms(5) [unfolded r]] r show ?thesis by blast
qed

theorem speed_change_reaches_tunnels_witness:
  "\<exists>a st1 st2. getUserRateLimiter ''u'' 8 no_limiters = (Some a, st1) \<and>
     getUserRateLimiter ''u'' 16 st1 = (Some a, st2) \<and> dl_bytesPerSec (lm_heap st2 a) = 2000000"
proof -
  have sp: "speed_bytes 8 = 1000000" "speed_bytes 16 = 2000000" by code_simp+
  obtain a st1 where 1: "getUserRateLimiter ''u'' 8 no_limiters = (Some a, st1)"
    by (simp add: getUserRateLimiter_def load_or_store_def no_limiters_def sp Let_def)
  obtain r st2 where 2: "getUserRateLimiter ''u'' 16 st1 = (r, st2)" by (metis surj_pair)
  from speed_change_reaches_tunnels [OF no_limiters_ok 1 _ _ 2] 1 2 show ?thesis by (auto simp: sp)
qed

text \<open>
  A limit that is lifted and set again does not reach the tunnels that were open before:
  they keep the limiter that was emptied and forgotten, and wait for nothing.
\<close>

lemma lifted_limit_forgets_tunnels:
  assumes "limiters_ok st" and "getUserRateLimiter user speed1 st = (Some a, st1)"
    and "speed2 \<le> 0" and "getUserRateLimiter user speed2 st1 = (r2, st2)"
    and "getUserRateLimiter user speed3 st2 = (r3, st3)"
  shows "WaitN wait (Some (lm_heap st3 a)) n = ([], None)"
proof -
  have g: "lm_users st1 user = Some a" "user \<noteq> []" using granted_limiter [OF assms(2)] by auto
  have "limiters_ok (snd (getUserRateLimiter user speed1 st))" by (rule getUserRateLimiter_ok [OF assms(1)])
  then have a: "a < lm_next st1" using g(1) assms(2) by (auto simp: limiters_ok_def)
  have st2: "st2 = st1\<lparr>lm_heap := (lm_heap st1)(a := \<lparr>dl_limiter = None, dl_bytesPerSec = 0\<rparr>),
      lm_users := (lm_users st1)(user := None)\<rparr>"
    using assms(3,4) g by (simp add: getUserRateLimiter_def Let_def)
  have "dl_limiter (lm_heap st3 a) = None"
    using assms(5) a by (auto simp: st2 getUserRateLimiter_def load_or_store_def Let_def split: if_splits)
  then show ?thesis by (simp add: WaitN_def)
qed

end
