(* ===== verification/ForwardAuth.thy ===== *)
theory ForwardAuth
  imports Acl LegacyProxy CaddyProc
begin

text \<open>
  Who may use the forward proxy: the credential checks of \<^verbatim>\<open>forwardproxy.go\<close> and the calls to
  the engine's local endpoints, \<^verbatim>\<open>v2naive_auth.go\<close> and \<^verbatim>\<open>v2naive_release.go\<close>.

  A check returns its error, if any, and what it stores under \<^verbatim>\<open>http.auth.user.id\<close>.  The
  request's \<^verbatim>\<open>Proxy-Authorization\<close> header is read as in the built-in engine.
\<close>

section \<open>Credentials\<close>

definition auth_parts :: "Request \<Rightarrow> string + string" where
  "auth_parts r =
     (case split_char (CHR '' '') (header_Get (rq_Header r) ''Proxy-Authorization'') of
        [kind, value] \<Rightarrow>
          if ToLower kind \<noteq> ''basic'' then Inl ''auth type is not supported'' else Inr value
      | _ \<Rightarrow> Inl ''Proxy-Authorization is required! Expected format: <type> <credentials>'')"

definition hasAuthentication :: "Handler \<Rightarrow> bool" where
  "hasAuthentication h \<longleftrightarrow> AuthCredentials h \<noteq> None \<or> V2NaiveAuth h"

text \<open>What a refused value is recorded as.\<close>

definition refused_id :: "string \<Rightarrow> string" where
  "refused_id cred =
     (case split2 (CHR '':'') cred of
        Some (user, _) \<Rightarrow> ''invalid:'' @ user
      | None \<Rightarrow> ''invalidformat:'' @ cred)"

text \<open>
  The configured credentials are base64 texts of \<^verbatim>\<open>user:password\<close>, as the Caddyfile's
  \<^verbatim>\<open>basic_auth\<close> encodes them; one without a colon makes the slice expression panic.
\<close>

datatype 'a go_result = Returns 'a | Panics

definition checkCredentials :: "Handler \<Rightarrow> Request \<Rightarrow> (string option \<times> string option) go_result" where
  "checkCredentials h r =
     (case auth_parts r of
        Inl err \<Rightarrow> Returns (Some err, None)
      | Inr value \<Rightarrow>
          if value \<in> set (case AuthCredentials h of None \<Rightarrow> [] | Some creds \<Rightarrow> creds) then
            (case Option.bind (b64_decode value) (split2 (CHR '':'')) of
               None \<Rightarrow> Panics
             | Some (user, _) \<Rightarrow> Returns (None, Some user))
          else (case b64_decode value of
             None \<Rightarrow> Returns (Some ''illegal base64 data'', Some ''invalidbase64:illegal base64 data'')
           | Some cred \<Rightarrow>
               Returns (Some ''invalid credentials'',
                        Some (if utf8_Valid cred then refused_id cred else ''invalid::''))))"

definition checkV2NaiveCredentials :: "Request \<Rightarrow> string option \<times> string option" where
  "checkV2NaiveCredentials r =
     (case auth_parts r of
        Inl err \<Rightarrow> (Some err, None)
      | Inr value \<Rightarrow>
          (case b64_decode value of
             None \<Rightarrow> (Some ''illegal base64 data'', Some ''invalidbase64:illegal base64 data'')
           | Some cred \<Rightarrow>
               if \<not> utf8_Valid cred then (Some ''invalid credentials'', Some ''invalid::'')
               else (case split2 (CHR '':'') cred of
                  None \<Rightarrow> (Some ''invalid credentials'', Some (''invalidformat:'' @ cred))
                | Some (user, pass) \<Rightarrow>
                    if user = [] \<or> user \<noteq> pass
                    then (Some ''invalid credentials'', Some (''invalid:'' @ user))
                    else (None, Some user))))"

section \<open>The authorisation endpoint\<close>

record v2naiveAuthResponse =
  vr_SpeedLimit :: int
  vr_UserID :: int

definition no_response :: v2naiveAuthResponse where
  "no_response = \<lparr>vr_SpeedLimit = 0, vr_UserID = 0\<rparr>"

datatype auth_failure =
    v2naiveAuthError (fail_StatusCode: int) (fail_Reason: string) (fail_UserID: int)
  | OtherFailure string

definition isV2NaiveUnauthorized :: "auth_failure \<Rightarrow> bool" where
  "isV2NaiveUnauthorized err =
     (case err of v2naiveAuthError _ reason _ \<Rightarrow> reason = ''unauthorized'' | OtherFailure _ \<Rightarrow> False)"

text \<open>
  \<open>post\<close> sends a request and returns status and body, \<open>decode_err\<close> reads the reason and the
  id out of a refusal (both empty when it cannot), \<open>decode\<close> the answer of a grant.
\<close>

definition authorizeV2naiveUser ::
  "string \<Rightarrow> (authRequest \<Rightarrow> string + int \<times> string) \<Rightarrow> (string \<Rightarrow> string \<times> int) \<Rightarrow>
     (string \<Rightarrow> string + v2naiveAuthResponse) \<Rightarrow> string \<Rightarrow> string \<Rightarrow> string \<Rightarrow> string \<Rightarrow>
     auth_failure + v2naiveAuthResponse" where
  "authorizeV2naiveUser authURL post decode_err decode user ip host target =
     (if authURL = [] \<or> user = [] \<or> ip = [] then Inr no_response
      else (case post \<lparr>ar_User = user, ar_IP = ip, ar_Host = host, ar_Target = target\<rparr> of
         Inl err \<Rightarrow> Inl (OtherFailure err)
       | Inr (status, body) \<Rightarrow>
           if status < 200 \<or> status \<ge> 300 then
             (case decode_err body of (reason, uid) \<Rightarrow> Inl (v2naiveAuthError status reason uid))
           else (case decode body of
              Inl err \<Rightarrow> Inl (OtherFailure err)
            | Inr resp \<Rightarrow> Inr resp)))"

text \<open>The request sent to release an address, if one is sent.\<close>

definition releaseV2naiveUser :: "string \<Rightarrow> string \<Rightarrow> string \<Rightarrow> authRequest option" where
  "releaseV2naiveUser releaseURL user ip =
     (if releaseURL = [] \<or> user = [] \<or> ip = [] then None
      else Some \<lparr>ar_User = user, ar_IP = ip, ar_Host = [], ar_Target = []\<rparr>)"

section \<open>Facts\<close>

lemma auth_parts_basic:
  assumes "header_Get (rq_Header r) ''Proxy-Authorization'' = kind @ CHR '' '' # value"
    and "CHR '' '' \<notin> set kind" and "CHR '' '' \<notin> set value" and "ToLower kind = ''basic''"
  shows "auth_parts r = Inr value"
proof -
  have none: "CHR '' '' \<notin> set xs \<Longrightarrow> split_char (CHR '' '') xs = [xs]" for xs
    by (induction xs) auto
  have "split_char (CHR '' '') (kind @ CHR '' '' # value) = [kind, value]"
    using assms(2,3) by (induction kind) (auto simp: none)
  with assms(1,4) show ?thesis by (simp add: auth_parts_def)
qed

lemma auth_parts_Inr:
  assumes "auth_parts r = Inr value"
  obtains kind where "split_char (CHR '' '') (header_Get (rq_Header r) ''Proxy-Authorization'') = [kind, value]"
    "ToLower kind = ''basic''"
  using assms by (auto simp: auth_parts_def split: list.splits if_splits)

text \<open>The V2Naive check accepts exactly the base64 of \<open>uuid:uuid\<close>.\<close>

lemma checkV2NaiveCredentials_ok:
  "fst (checkV2NaiveCredentials r) = None \<longleftrightarrow>
     (\<exists>value cred user. auth_parts r = Inr value \<and> b64_decode value = Some cred \<and> utf8_Valid cred \<and>
        cred = user @ CHR '':'' # user \<and> user \<noteq> [] \<and> CHR '':'' \<notin> set user \<and>
        snd (checkV2NaiveCredentials r) = Some user)"
  by (auto simp: checkV2NaiveCredentials_def split2_Some split: sum.split option.split)

end
