(* ===== verification/ForwardProxy.thy ===== *)
theory ForwardProxy
  imports ForwardAuth RateLimit Tunnels
begin

text \<open>
  The forward proxy's handler, \<^verbatim>\<open>ServeHTTP\<close> of \<^verbatim>\<open>runtime/forwardproxy/forwardproxy.go\<close>: what is
  handed to the next handler, who is refused and how, the life of a tunnel, and the
  forwarding of plain requests.

  The result comes with the actions taken on the way, in their order: calls to the
  authorisation and release endpoints, the early 200, dialled addresses and events.
\<close>

section \<open>Requests\<close>

definition req_url :: "Request \<Rightarrow> http_url" where
  "req_url r =
     (case rq_URL r of
        Some u \<Rightarrow> u
      | None \<Rightarrow> \<lparr>url_Scheme = [], url_Host = [], url_Path = [], url_RawQuery = []\<rparr>)"

text \<open>\<^verbatim>\<open>URL.Hostname\<close> and \<^verbatim>\<open>URL.Port\<close>: a port is the digits after the last colon.\<close>

definition url_split :: "string \<Rightarrow> string \<times> string" where
  "url_split hostPort =
     (let (host, port) =
        (case last_index_char (CHR '':'') hostPort of
           None \<Rightarrow> (hostPort, [])
         | Some i \<Rightarrow>
             if list_all (\<lambda>c. c \<in> set ''0123456789'') (drop (Suc i) hostPort)
             then (take i hostPort, drop (Suc i) hostPort) else (hostPort, []))
      in (if HasPrefix host ''['' \<and> HasSuffix host '']'' then butlast (tl host) else host, port))"

definition url_Hostname :: "string \<Rightarrow> string" where
  "url_Hostname hostPort = fst (url_split hostPort)"

definition url_Port :: "string \<Rightarrow> string" where
  "url_Port hostPort = snd (url_split hostPort)"

definition remoteIPOnly :: "string \<Rightarrow> string" where
  "remoteIPOnly remoteAddr =
     (case SplitHostPort remoteAddr of None \<Rightarrow> remoteAddr | Some (host, _) \<Rightarrow> host)"

definition targetHostPort :: "Request \<Rightarrow> string" where
  "targetHostPort r =
     (case rq_URL r of
        Some u \<Rightarrow> if url_Host u \<noteq> [] then url_Host u else rq_Host r
      | None \<Rightarrow> rq_Host r)"

definition shouldServePACFile :: "Handler \<Rightarrow> Request \<Rightarrow> bool" where
  "shouldServePACFile h r \<longleftrightarrow> length (PACPath h) > 0 \<and> url_Path (req_url r) = PACPath h"

definition isLocalhost :: "string \<Rightarrow> bool" where
  "isLocalhost hostname \<longleftrightarrow> hostname \<in> {''localhost'', ''127.0.0.1'', ''::1''}"

section \<open>Headers\<close>

definition header_Del :: "string \<Rightarrow> header \<Rightarrow> header" where
  "header_Del key h = h(CanonicalMIMEHeaderKey key := None)"

definition header_Set :: "string \<Rightarrow> string \<Rightarrow> header \<Rightarrow> header" where
  "header_Set key v h = h(CanonicalMIMEHeaderKey key \<mapsto> [v])"

definition hopByHopHeaders :: "string list" where
  "hopByHopHeaders =
     [''Keep-Alive'', ''Proxy-Authenticate'', ''Proxy-Authorization'', ''Upgrade'', ''Connection'',
      ''Proxy-Connection'', ''Te'', ''Trailer'', ''Transfer-Encoding'']"

definition removeHopByHop :: "header \<Rightarrow> header" where
  "removeHopByHop h =
     (let named = map TrimSpace (split_char (CHR '','') (header_Get h ''Connection''))
      in fold header_Del hopByHopHeaders (fold header_Del named h))"

text \<open>The \<^verbatim>\<open>Padding\<close> header of the early answer: 16 characters drawn from \<open>bits\<close>, then tildes.\<close>

definition padding_alphabet :: string where
  "padding_alphabet = ''!#$()+<>?@[]^'' @ [CHR 0x60] @ ''{}''"

fun padding_chars :: "nat \<Rightarrow> nat \<Rightarrow> string" where
  "padding_chars 0 bits = []"
| "padding_chars (Suc n) bits = padding_alphabet ! (bits mod 16) # padding_chars n (bits div 16)"

definition padding_value :: "nat \<Rightarrow> nat \<Rightarrow> string" where
  "padding_value rnd bits = (let paddingLen = rnd mod 32 + 30
     in padding_chars 16 bits @ replicate (paddingLen - 16) (CHR ''~''))"

section \<open>Results and actions\<close>

record Response =
  rs_Status :: int
  rs_ProtoMajor :: int
  rs_ProtoMinor :: int
  rs_Header :: "(string \<times> string list) list"
  rs_Body :: string

datatype fp_result =
    ServedPAC string
  | PassedOn
  | HiddenPage "string option"
  | Failed proxy_error bool
  | TunnelEnded "proxy_error option"
  | Responded int header string
  | PanickedInCheck

datatype fp_action =
    AskedAuth string string string
  | UsedLimiter string int
  | Accepted string
  | Dialled string
  | Emitted tunnelEvent
  | AskedRelease string string

text \<open>
  What the handler meets: whether the host matcher matches, the authorisation endpoint, the
  random numbers of the padding header, the flusher, the resolver and the dialler, how a
  tunnel went (what it copied and its ticks, and the error it ended with), the credentials
  in the upstream's URL, and the round trip of a plain request.
\<close>

record fp_env =
  fe_hostMatch :: bool
  fe_authorize :: "string \<Rightarrow> string \<Rightarrow> string \<Rightarrow> string \<Rightarrow> auth_failure + v2naiveAuthResponse"
  fe_rnd :: "nat \<times> nat"
  fe_flush :: "string option"
  fe_lookup :: "string \<Rightarrow> string + IP list"
  fe_dial :: "string \<Rightarrow> string \<Rightarrow> string + string option"
  fe_tunnel :: "tunnel_op list"
  fe_tunnelErr :: "proxy_error option"
  fe_upstreamCreds :: string
  fe_roundTrip :: "Request \<Rightarrow> proxy_error + Response"

section \<open>Plain requests\<close>

definition forwardResponse :: "Response \<Rightarrow> header \<Rightarrow> int \<times> header \<times> string" where
  "forwardResponse response w =
     (let via = Itoa (rs_ProtoMajor response) @ ''.'' @ Itoa (rs_ProtoMinor response) @ '' caddy'';
          w1 = header_Add ''Via'' via (header_Del ''Server'' w);
          w2 = fold (\<lambda>(key, values) h. fold (header_Add (CanonicalMIMEHeaderKey key)) values h)
                 (rs_Header response) w1
      in (rs_Status response, removeHopByHop w2, rs_Body response))"

text \<open>The request as it leaves the proxy.\<close>

definition fp_outReq :: "Handler \<Rightarrow> Request \<Rightarrow> Request" where
  "fp_outReq h r =
     (let u = req_url r;
          u1 = (if url_Scheme u = [] then u\<lparr>url_Scheme := ''http''\<rparr> else u);
          u2 = (if url_Host u1 = [] then u1\<lparr>url_Host := rq_Host r\<rparr> else u1);
          h0 = removeHopByHop (rq_Header r);
          h1 = (if HideIP h then h0
                else header_Add ''Forwarded'' (''for='' @ [CHR 0x22] @ rq_RemoteAddr r @ [CHR 0x22]) h0);
          h2 = (if HideVia h then h1 else header_Add ''Via'' ''1.1 caddy'' h1)
      in r\<lparr>rq_URL := Some u2, rq_ProtoMajor := 1, rq_RequestURI := [], rq_Header := h2\<rparr>)"

text \<open>To an upstream proxy it goes with the upstream's credentials and an explicit port.\<close>

definition upstream_outReq :: "string \<Rightarrow> Request \<Rightarrow> Request" where
  "upstream_outReq creds r =
     (let r1 = (if creds \<noteq> []
                then r\<lparr>rq_Header := header_Set ''Proxy-Authorization'' (''Basic '' @ b64_encode creds) (rq_Header r)\<rparr>
                else r);
          u = req_url r1
      in if url_Port (url_Host u) = [] then r1\<lparr>rq_URL := Some (u\<lparr>url_Host := JoinHostPort (url_Host u) ''80''\<rparr>)\<rparr> else r1)"

definition forward_plain :: "fp_env \<Rightarrow> Handler \<Rightarrow> Request \<Rightarrow> fp_result" where
  "forward_plain env h r =
     (case fe_roundTrip env (if Upstream h = [] then fp_outReq h r
                             else upstream_outReq (fe_upstreamCreds env) (fp_outReq h r)) of
        Inl (HandlerError code msg) \<Rightarrow> Failed (HandlerError code msg) False
      | Inl (Acl.OtherError msg) \<Rightarrow> Failed (HandlerError 502 (''failed to read response: '' @ msg)) False
      | Inr response \<Rightarrow>
          (case forwardResponse response Map.empty of (status, hdr, body) \<Rightarrow> Responded status hdr body))"

section \<open>Tunnels\<close>

definition serve_connect ::
  "fp_env \<Rightarrow> Handler \<Rightarrow> Request \<Rightarrow> string \<Rightarrow> v2naiveAuthResponse \<Rightarrow> limiters \<Rightarrow>
     fp_result \<times> fp_action list \<times> limiters" where
  "serve_connect env h r userID authResult lims =
     (let clientIP = remoteIPOnly (rq_RemoteAddr r);
          requestedHostPort = targetHostPort r;
          (userLimiter, lims1) = getUserRateLimiter userID (vr_SpeedLimit authResult) lims;
          used = [UsedLimiter userID (vr_SpeedLimit authResult)];
          release = [AskedRelease userID clientIP]
      in if (rq_ProtoMajor r = 2 \<or> rq_ProtoMajor r = 3) \<and>
            (length (url_Scheme (req_url r)) > 0 \<or> length (url_Path (req_url r)) > 0)
         then (Failed (HandlerError 400
                 ''CONNECT request has :scheme and/or :path pseudo-header fields'') False,
               used @ release, lims1)
         else
           let accepted = used @ [Accepted (padding_value (fst (fe_rnd env)) (snd (fe_rnd env)))] in
           (case fe_flush env of
              Some err \<Rightarrow>
                (Failed (HandlerError 500 (''ResponseWriter flush error: '' @ err)) False,
                 accepted @ release, lims1)
            | None \<Rightarrow>
                (case dialContextCheckACL h (fe_lookup env) (fe_dial env) ''tcp'' requestedHostPort of
                   (conn, dialled) \<Rightarrow>
                     let acts = accepted @ map Dialled dialled in
                     (case conn of
                        Inl err \<Rightarrow> (Failed err False, acts @ release, lims1)
                      | Inr None \<Rightarrow>
                          (Failed (HandlerError 403
                             (''hostname '' @ url_Hostname (url_Host (req_url r)) @ '' is not allowed'')) False,
                           acts @ release, lims1)
                      | Inr (Some remoteHostPort) \<Rightarrow>
                          let t = \<lparr>ti_user = userID, ti_userID = vr_UserID authResult, ti_ip = clientIP,
                                   ti_host = requestedHostPort, ti_target = remoteHostPort\<rparr>
                          in (TunnelEnded (fe_tunnelErr env),
                              acts @ [Emitted (tunnel_event ''open'' t 0 0)]
                                @ map Emitted (run_tunnel t (fe_tunnel env) (Some new_stats)),
                              lims1)))))"

text \<open>
  \<^verbatim>\<open>serveHijack\<close>: what the client had sent ahead goes to the target first, outside the
  counters; the tunnel proper starts once the client connection is flushed.
\<close>

definition serveHijack ::
  "string option \<Rightarrow> byte list \<Rightarrow> string option \<Rightarrow> (unit \<Rightarrow> proxy_error option) \<Rightarrow>
     byte list \<times> proxy_error option" where
  "serveHijack hijackErr buffered flushErr stream =
     (case hijackErr of
        Some err \<Rightarrow> ([], Some (HandlerError 500 (''hijack failed: '' @ err)))
      | None \<Rightarrow>
          (buffered,
           (case flushErr of
              Some err \<Rightarrow> Some (HandlerError 500 (''failed to flush to client: '' @ err))
            | None \<Rightarrow> stream ())))"

section \<open>The handler\<close>

text \<open>The page of the secret domain: status, \<^verbatim>\<open>Proxy-Authenticate\<close> header, message.\<close>

definition serveHiddenPage :: "string option \<Rightarrow> int \<times> string option \<times> string" where
  "serveHiddenPage authErr =
     (case authErr of
        Some _ \<Rightarrow> (407, Some (''Basic realm='' @ [CHR 0x22] @ ''Caddy Secure Web Proxy'' @ [CHR 0x22]),
                   ''Please authenticate yourself to the proxy.'')
      | None \<Rightarrow> (200, None,
          ''Congratulations, you are successfully authenticated to the proxy! Go browse all the things!''))"

text \<open>The error of the credential check and the user id it stores; \<open>Panics\<close> ends the request.\<close>

definition check_request :: "Handler \<Rightarrow> Request \<Rightarrow> (string option \<times> string option) go_result" where
  "check_request h r =
     (if AuthCredentials h \<noteq> None then checkCredentials h r
      else if V2NaiveAuth h then Returns (checkV2NaiveCredentials r)
      else Returns (None, None))"

definition quoted :: "string \<Rightarrow> string" where
  "quoted s = [CHR 0x22] @ s @ [CHR 0x22]"

definition servePacFile :: "string \<Rightarrow> string" where
  "servePacFile host =
     concat (map (\<lambda>l. l @ [CHR 0x0A])
       [[],
        ''function FindProxyForURL(url, host) {'',
        [CHR 0x09] @ ''if (host === '' @ quoted ''127.0.0.1'' @ '' || host === '' @ quoted ''::1''
          @ '' || host === '' @ quoted ''localhost'' @ '')'',
        [CHR 0x09, CHR 0x09] @ ''return '' @ quoted ''DIRECT'' @ '';'',
        [CHR 0x09] @ ''return '' @ quoted (''HTTPS '' @ host) @ '';'',
        ''}''])"

definition pac_or_next :: "Handler \<Rightarrow> Request \<Rightarrow> fp_result" where
  "pac_or_next h r = (if shouldServePACFile h r then ServedPAC (servePacFile (rq_Host r)) else PassedOn)"

definition proxy_ServeHTTP ::
  "fp_env \<Rightarrow> Handler \<Rightarrow> Request \<Rightarrow> limiters \<Rightarrow> fp_result \<times> fp_action list \<times> limiters" where
  "proxy_ServeHTTP env h r lims =
     (let reqHost = (case SplitHostPort (rq_Host r) of None \<Rightarrow> rq_Host r | Some (host, _) \<Rightarrow> host);
          connect = (rq_Method r = ''CONNECT'')
      in if \<not> connect \<and> url_Scheme (req_url r) = [] then (pac_or_next h r, [], lims)
         else (case check_request h r of
            Panics \<Rightarrow> (PanickedInCheck, [], lims)
          | Returns (authErr, storedID) \<Rightarrow>
              if (\<exists>d. ProbeResistance h = Some d \<and> length d > 0 \<and> reqHost = d)
              then (HiddenPage authErr, [], lims)
              else if fe_hostMatch env \<and> (\<not> connect \<or> authErr \<noteq> None)
              then (pac_or_next h r, [], lims)
              else (case authErr of
                 Some err \<Rightarrow>
                   (if ProbeResistance h \<noteq> None then PassedOn else Failed (HandlerError 407 err) True,
                    [], lims)
               | None \<Rightarrow>
                   if rq_ProtoMajor r \<noteq> 1 \<and> rq_ProtoMajor r \<noteq> 2 \<and> rq_ProtoMajor r \<noteq> 3
                   then (Failed (HandlerError 505
                           (''unsupported HTTP major version: '' @ Itoa (rq_ProtoMajor r))) False, [], lims)
                   else
                     let clientIP = remoteIPOnly (rq_RemoteAddr r);
                         target = targetHostPort r;
                         userID = (if hasAuthentication h
                                   then (case storedID of None \<Rightarrow> [] | Some u \<Rightarrow> u) else []);
                         asked = (if hasAuthentication h then [AskedAuth userID clientIP target] else []);
                         verdict = (if hasAuthentication h
                                    then fe_authorize env userID clientIP target target
                                    else Inr no_response)
                     in (case verdict of
                           Inl err \<Rightarrow>
                             ((if isV2NaiveUnauthorized err then
                                 (if ProbeResistance h \<noteq> None then PassedOn
                                  else Failed (HandlerError 407 ''unauthorized'') True)
                               else Failed (HandlerError 403 ''device limit reached'') False),
                              asked, lims)
                         | Inr authResult \<Rightarrow>
                             if connect
                             then (case serve_connect env h r userID authResult lims of
                                     (res, acts, lims1) \<Rightarrow> (res, asked @ acts, lims1))
                             else (forward_plain env h r, asked, lims)))))"

end
