(* ===== verification/ForwardFacts.thy ===== *)
theory ForwardFacts
  imports ForwardProxy
begin

text \<open>
  The forward proxy's promises: a refused request gets nowhere, an admitted address is
  always given back, and the verdict of the engine is the verdict the client sees.
\<close>

section \<open>Traces\<close>

fun events :: "fp_action list \<Rightarrow> tunnelEvent list" where
  "events [] = []"
| "events (Emitted e # acts) = e # events acts"
| "events (_ # acts) = events acts"

fun releases :: "fp_action list \<Rightarrow> (string \<times> string) list" where
  "releases [] = []"
| "releases (AskedRelease user ip # acts) = (user, ip) # releases acts"
| "releases (_ # acts) = releases acts"

lemma events_append [simp]: "events (as @ bs) = events as @ events bs"
  by (induction as rule: events.induct) simp_all

lemma releases_append [simp]: "releases (as @ bs) = releases as @ releases bs"
  by (induction as rule: releases.induct) simp_all

lemma events_map [simp]: "events (map Emitted evs) = evs" "events (map Dialled ds) = []"
  by (induction evs, simp_all, induction ds, simp_all)

lemma releases_map [simp]: "releases (map Emitted evs) = []" "releases (map Dialled ds) = []"
  by (induction evs, simp_all, induction ds, simp_all)

text \<open>A tunnel's events: traffic as long as it runs, and one close at its end.\<close>

lemma run_tunnel_shape:
  "\<exists>mid last. run_tunnel t ops stats = mid @ [last] \<and> ev_Type last = ''close'' \<and>
     (\<forall>e\<in>set mid. ev_Type e = ''traffic'') \<and> (\<forall>e\<in>set (mid @ [last]). ev_User e = ti_user t \<and> ev_IP e = ti_ip t)"
proof (induction t ops stats rule: run_tunnel.induct)
  case (1 t stats)
  then show ?case by (auto simp: close_event_def split: prod.split)
next
  case (2 t upload n ops stats)
  then show ?case by simp
next
  case (3 t authorized ops stats)
  obtain evs closed stats1 where tick: "reportActiveTunnel_tick t authorized stats = (evs, closed, stats1)"
    by (metis prod_cases3)
  then have evs: "\<forall>e\<in>set evs. ev_Type e = ''traffic'' \<and> ev_User e = ti_user t \<and> ev_IP e = ti_ip t"
    by (auto simp: reportActiveTunnel_tick_def split: prod.splits if_splits)
  from 3 [OF tick [symmetric] refl] obtain mid last where
    "run_tunnel t ops stats1 = mid @ [last]" "ev_Type last = ''close''" "\<forall>e\<in>set mid. ev_Type e = ''traffic''"
    "\<forall>e\<in>set (mid @ [last]). ev_User e = ti_user t \<and> ev_IP e = ti_ip t" by blast
  with tick evs show ?case by (intro exI [of _ "evs @ mid"] exI [of _ last]) auto
qed

lemma serve_connect_trace:
  assumes "serve_connect env h r user resp lims = (res, acts, lims1)"
  shows "releases acts = [(user, remoteIPOnly (rq_RemoteAddr r))] \<and> events acts = [] \<or>
     releases acts = [] \<and>
     (\<exists>opened mid last. events acts = opened # mid @ [last] \<and> ev_Type opened = ''open'' \<and> ev_Type last = ''close'' \<and>
        (\<forall>e\<in>set mid. ev_Type e = ''traffic'') \<and>
        (\<forall>e\<in>set (events acts). ev_User e = user \<and> ev_IP e = remoteIPOnly (rq_RemoteAddr r)))"
proof -
  obtain ul lims' where ul: "getUserRateLimiter user (vr_SpeedLimit resp) lims = (ul, lims')" by (metis surj_pair)
  obtain conn dialled where d: "dialContextCheckACL h (fe_lookup env) (fe_dial env) ''tcp'' (targetHostPort r) = (conn, dialled)"
    by (metis surj_pair)
  let ?bad = "(rq_ProtoMajor r = 2 \<or> rq_ProtoMajor r = 3) \<and>
      (length (url_Scheme (req_url r)) > 0 \<or> length (url_Path (req_url r)) > 0)"
  show ?thesis
  proof (cases "\<not> ?bad \<and> fe_flush env = None \<and> (\<exists>remote. conn = Inr (Some remote))")
    case True
    then obtain remote where c: "conn = Inr (Some remote)" by blast
    define t where "t = \<lparr>ti_user = user, ti_userID = vr_UserID resp, ti_ip = remoteIPOnly (rq_RemoteAddr r),
      ti_host = targetHostPort r, ti_target = remote\<rparr>"
    have acts: "releases acts = []"
      "events acts = tunnel_event ''open'' t 0 0 # run_tunnel t (fe_tunnel env) (Some new_stats)"
      using assms ul d True c by (auto simp: serve_connect_def Let_def t_def)
    obtain mid last where "run_tunnel t (fe_tunnel env) (Some new_stats) = mid @ [last]"
      "ev_Type last = ''close''" "\<forall>e\<in>set mid. ev_Type e = ''traffic''"
      "\<forall>e\<in>set (mid @ [last]). ev_User e = ti_user t \<and> ev_IP e = ti_ip t"
      using run_tunnel_shape [of t "fe_tunnel env" "Some new_stats"] by blast
    with acts show ?thesis by (auto simp: t_def)
  next
    case False
    with assms ul d show ?thesis
      by (auto simp: serve_connect_def Let_def split: if_splits option.splits sum.splits)
  qed
qed

section \<open>The handler case by case\<close>

lemma serve_refused:
  assumes "proxy_ServeHTTP env h r lims = (res, acts, lims1)" and "check_request h r = Returns (Some err, stored)"
  shows "acts = [] \<and> lims1 = lims \<and>
     (res = pac_or_next h r \<or> res = PassedOn \<or> res = HiddenPage (Some err) \<or>
      res = Failed (HandlerError 407 err) True \<and> ProbeResistance h = None)"
  using assms by (auto simp: proxy_ServeHTTP_def Let_def split: if_splits)

lemma serve_connect_authorized:
  assumes "proxy_ServeHTTP env h r lims = (res, acts, lims1)" and "rq_Method r = ''CONNECT''"
    and "AskedAuth user ip target \<in> set acts" and "fe_authorize env user ip target target = Inr resp"
  obtains acts1 where "acts = AskedAuth user ip target # acts1" "ip = remoteIPOnly (rq_RemoteAddr r)"
    "serve_connect env h r user resp lims = (res, acts1, lims1)"
proof -
  have no: "AskedAuth u i t \<notin> set bs" if "serve_connect env h r v rs lims = (q, bs, l)" for u i t v rs q bs l
    using that by (auto simp: serve_connect_def Let_def split: prod.splits if_splits option.splits sum.splits)
  show thesis
    using assms that
    by (auto simp: proxy_ServeHTTP_def Let_def split: if_splits option.splits sum.splits prod.splits go_result.splits
        dest: no)
qed

lemma serve_plain:
  assumes "proxy_ServeHTTP env h r lims = (res, acts, lims1)" and "rq_Method r \<noteq> ''CONNECT''"
  shows "lims1 = lims \<and> events acts = [] \<and> releases acts = [] \<and> length acts \<le> 1"
  using assms
  by (auto simp: proxy_ServeHTTP_def Let_def split: if_splits option.splits sum.splits prod.splits go_result.splits)


section \<open>The engine behind the endpoint\<close>

text \<open>
  The engine's answer to a POST, on the wire: \<open>enc\<close> encodes the request, \<open>dec\<close> decodes it,
  \<open>grant\<close> and \<open>refusal\<close> encode the two answers.
\<close>

definition engine_post ::
  "(authRequest \<Rightarrow> string) \<Rightarrow> (string \<Rightarrow> authRequest option) \<Rightarrow> (int \<Rightarrow> int \<Rightarrow> string) \<Rightarrow> (int \<Rightarrow> string \<Rightarrow> string) \<Rightarrow>
     CaddyServer \<Rightarrow> authRequest \<Rightarrow> string + int \<times> string" where
  "engine_post enc dec grant refusal s req =
     (case fst (handleAuthorize dec ''POST'' (enc req) s) of
        MethodNotAllowed \<Rightarrow> Inr (405, [])
      | BadRequest \<Rightarrow> Inr (400, [])
      | Forbidden uid reason \<Rightarrow> Inr (403, refusal uid reason)
      | Granted speed uid \<Rightarrow> Inr (200, grant speed uid))"

section \<open>Properties\<close>

definition sample_connect :: "string \<Rightarrow> Request" where
  "sample_connect auth =
     \<lparr>rq_Method = ''CONNECT'', rq_Host = ''t:443'', rq_URL = None, rq_RequestURI = ''t:443'',
      rq_Header = [''Proxy-Authorization'' \<mapsto> [auth]], rq_RemoteAddr = ''1.2.3.4:5'', rq_ProtoMajor = 2\<rparr>"

definition sample_fenv :: fp_env where
  "sample_fenv =
     \<lparr>fe_hostMatch = False, fe_authorize = (\<lambda>_ _ _ _. Inr \<lparr>vr_SpeedLimit = 0, vr_UserID = 7\<rparr>),
      fe_rnd = (0, 0), fe_flush = None, fe_lookup = (\<lambda>_. Inr [[8, 8, 8, 8]]),
      fe_dial = (\<lambda>_ a. Inr (Some a)), fe_tunnel = [Copied True 5, Tick True], fe_tunnelErr = None,
      fe_upstreamCreds = [], fe_roundTrip = (\<lambda>_. Inl (Acl.OtherError ''down''))\<rparr>"






text \<open>
  Plain HTTP requests are proxied outside the books: whatever a request other than
  CONNECT carries and however it ends, the proxy emits no event, uses no limiter and never
  gives the address back that it had the engine admit.
\<close>

theorem plain_requests_unaccounted:
  assumes "proxy_ServeHTTP env h r lims = (res, acts, lims1)" and "rq_Method r \<noteq> ''CONNECT''"
  shows "lims1 = lims \<and> events acts = [] \<and> releases acts = []"
  using serve_plain [OF assms] by simp

theorem plain_requests_unaccounted_witness:
  "\<exists>res acts. proxy_ServeHTTP sample_fenv default_handler ((sample_connect ''Basic dTp1'')\<lparr>rq_Method := ''GET''\<rparr>)
     no_limiters = (res, acts, no_limiters) \<and> events acts = []"
proof -
  obtain res acts lims1 where s: "proxy_ServeHTTP sample_fenv default_handler
      ((sample_connect ''Basic dTp1'')\<lparr>rq_Method := ''GET''\<rparr>) no_limiters = (res, acts, lims1)"
    by (metis prod_cases3)
  from plain_requests_unaccounted [OF s] s show ?thesis by auto
qed

text \<open>
  C16. The proxy's verdict is the engine's: with the engine behind the endpoint and codecs
  that decode what they encoded, a user is let in exactly if the limiter admits the
  address, at the limiter's speed and with the engine's user id, and a refusal counts as
  unauthorised exactly if the engine does not know the user.
\<close>

theorem endpoint_verdict:
  assumes "authURL \<noteq> []" and "user \<noteq> []" and "ip \<noteq> []"
    and "dec (enc \<lparr>ar_User = user, ar_IP = ip, ar_Host = host, ar_Target = target\<rparr>) =
      Some \<lparr>ar_User = user, ar_IP = ip, ar_Host = host, ar_Target = target\<rparr>"
    and "decode (grant speed (userIDByUUID user s)) = Inr \<lparr>vr_SpeedLimit = speed, vr_UserID = userIDByUUID user s\<rparr>"
    and "\<And>reason. decode_err (refusal (userIDByUUID user s) reason) = (reason, userIDByUUID user s)"
    and "Authorize user ip (cs_limiter s) = ((speed, reject), l1)"
    and "verdict = authorizeV2naiveUser authURL (engine_post enc dec grant refusal s) decode_err decode user ip host target"
  shows "(if reject then \<exists>reason. verdict = Inl (v2naiveAuthError 403 reason (userIDByUUID user s))
          else verdict = Inr \<lparr>vr_SpeedLimit = speed, vr_UserID = userIDByUUID user s\<rparr>) \<and>
     (\<forall>err. verdict = Inl err \<longrightarrow> isV2NaiveUnauthorized err = (userIDByUUID user s = 0))"
  using assms(1-3,7)
  by (auto simp: assms(8) authorizeV2naiveUser_def engine_post_def handleAuthorize_def assms(4-6)
      isV2NaiveUnauthorized_def Let_def)


theorem endpoint_verdict_witness:
  "authorizeV2naiveUser ''url'' (engine_post (\<lambda>_. []) (\<lambda>_. Some \<lparr>ar_User = ''x'', ar_IP = ''1'', ar_Host = [], ar_Target = []\<rparr>)
      (\<lambda>_ _. []) (\<lambda>_ reason. reason) sample_engine) (\<lambda>body. (body, 0)) (\<lambda>_. Inr no_response) ''x'' ''1'' [] [] =
     Inl (v2naiveAuthError 403 ''unauthorized'' 0)"
proof -
  let ?v = "authorizeV2naiveUser ''url'' (engine_post (\<lambda>_. []) (\<lambda>_. Some \<lparr>ar_User = ''x'', ar_IP = ''1'', ar_Host = [], ar_Target = []\<rparr>)
      (\<lambda>_ _. []) (\<lambda>_ reason. reason) sample_engine) (\<lambda>body. (body, 0)) (\<lambda>_. Inr no_response) ''x'' ''1'' [] []"
  have l: "cs_limiter sample_engine = Limiter.New [sample_user] Map.empty"
    by (simp add: sample_engine_def caddy_New_def replaceUsers_def Let_def)
  have "LimitInfo (Limiter.New [sample_user] Map.empty) ''x'' = None"
    by (simp add: New_def store_info_def sample_user_def Let_def)
  then have a: "Authorize ''x'' ''1'' (cs_limiter sample_engine) = ((0, True), cs_limiter sample_engine)"
    by (simp add: l Authorize_def admit_unknown)
  have uid: "userIDByUUID ''x'' sample_engine = 0"
    by (simp add: userIDByUUID_def userByUUID_def sample_engine_def caddy_New_def replaceUsers_def Let_def
        enter_user_def cache_id_def sample_user_def zero_user_def)
  obtain reason where r: "?v = Inl (v2naiveAuthError 403 reason 0)"
    "isV2NaiveUnauthorized (v2naiveAuthError 403 reason 0)"
    using endpoint_verdict [OF _ _ _ _ _ _ a refl, of "''url''" "\<lambda>_. Some \<lparr>ar_User = ''x'', ar_IP = ''1'', ar_Host = [], ar_Target = []\<rparr>"
        "\<lambda>_. []" "[]" "[]" "\<lambda>_. Inr no_response" "\<lambda>_ _. []" "\<lambda>body. (body, 0)" "\<lambda>_ reason. reason"]
    by (auto simp: uid no_response_def)
  then show ?thesis by (simp add: isV2NaiveUnauthorized_def)
qed

end
