(* ===== verification/FpConfig.thy ===== *)
theory FpConfig
  imports ForwardProxy CaddyConfig
begin

text \<open>
  How the forward proxy is configured: the Caddyfile directive of
  \<^verbatim>\<open>runtime/forwardproxy/caddyfile.go\<close> and the handler's \<^verbatim>\<open>Provision\<close>.

  Caddy's dispenser delivers the block as lines: a name, its arguments, and for \<^verbatim>\<open>acl\<close> the
  lines of the nested block.  The duration parser, the files of the ACL, the URL parser and
  the upstream dialler are arguments.
\<close>

section \<open>The directive\<close>

record cf_line =
  cf_name :: string
  cf_args :: "string list"
  cf_block :: "(string \<times> string list) list"

datatype cf_error = ArgErr | Err string

definition empty_handler :: Handler where
  "empty_handler =
     \<lparr>PACPath = [], HideIP = False, HideVia = False, DisableInsecureUpstreamsCheck = False,
      Hosts = [], ProbeResistance = None, DialTimeout = 0, MaxIdleConns = 0,
      MaxIdleConnsPerHost = 0, Upstream = [], ACL = [], AllowedPorts = [], aclRules = [],
      AuthCredentials = None, V2NaiveAuth = False\<rparr>"

definition EncodeAuthCredentials :: "string \<Rightarrow> string \<Rightarrow> string" where
  "EncodeAuthCredentials user pass = b64_encode (user @ '':'' @ pass)"

fun parse_ports :: "string list \<Rightarrow> cf_error + int list" where
  "parse_ports [] = Inr []"
| "parse_ports (p # ps) =
     (case Atoi p of
        None \<Rightarrow> Inl (Err (''ports are expected to be space-separated and in 0-65535 range, but got: '' @ p))
      | Some port \<Rightarrow>
          if port \<le> 0 \<or> port > 65535
          then Inl (Err (''ports are expected to be space-separated and in 0-65535 range, but got: '' @ p))
          else map_sum id ((#) port) (parse_ports ps))"

definition acl_line ::
  "(string \<Rightarrow> string + string list) \<Rightarrow> string \<times> string list \<Rightarrow> cf_error + ACLRule" where
  "acl_line readLinesFromFile l =
     (case l of (directive, args) \<Rightarrow>
        if length args = 0 then Inl ArgErr
        else if directive = ''allow'' then Inr \<lparr>Subjects = args, Allow = True\<rparr>
        else if directive = ''allow_file'' then
          (if length args \<noteq> 1 then Inl (Err ''allowfile accepts a single filename argument'')
           else (case readLinesFromFile (hd args) of
              Inl err \<Rightarrow> Inl (Err err)
            | Inr subjects \<Rightarrow> Inr \<lparr>Subjects = subjects, Allow = True\<rparr>))
        else if directive = ''deny'' then Inr \<lparr>Subjects = args, Allow = False\<rparr>
        else if directive = ''deny_file'' then
          (if length args \<noteq> 1 then Inl (Err ''denyfile accepts a single filename argument'')
           else (case readLinesFromFile (hd args) of
              Inl err \<Rightarrow> Inl (Err err)
            | Inr subjects \<Rightarrow> Inr \<lparr>Subjects = subjects, Allow = False\<rparr>))
        else Inl (Err (''expected acl directive: allow/allowfile/deny/denyfile.got: '' @ directive)))"

fun acl_block ::
  "(string \<Rightarrow> string + string list) \<Rightarrow> (string \<times> string list) list \<Rightarrow> cf_error + ACLRule list" where
  "acl_block readLinesFromFile [] = Inr []"
| "acl_block readLinesFromFile (l # ls) =
     (case acl_line readLinesFromFile l of
        Inl err \<Rightarrow> Inl err
      | Inr rule \<Rightarrow> map_sum id ((#) rule) (acl_block readLinesFromFile ls))"

definition flag :: "string list \<Rightarrow> Handler \<Rightarrow> cf_error + Handler" where
  "flag args h = (if length args \<noteq> 0 then Inl ArgErr else Inr h)"

definition unmarshal_line ::
  "(string \<Rightarrow> int option) \<Rightarrow> (string \<Rightarrow> string + string list) \<Rightarrow> cf_line \<Rightarrow> Handler \<Rightarrow> cf_error + Handler" where
  "unmarshal_line parseDuration readLinesFromFile l h =
     (let name = cf_name l; args = cf_args l in
      if name = ''basic_auth'' then
        (case args of
           [user, pass] \<Rightarrow>
             if length user = 0 then Inl (Err ''empty usernames are not allowed'')
             else if Contains user '':'' then Inl (Err ''character ':' in usernames is not allowed'')
             else Inr (h\<lparr>AuthCredentials :=
                Some ((case AuthCredentials h of None \<Rightarrow> [] | Some creds \<Rightarrow> creds) @ [EncodeAuthCredentials user pass])\<rparr>)
         | _ \<Rightarrow> Inl ArgErr)
      else if name = ''v2naive_auth'' then flag args (h\<lparr>V2NaiveAuth := True\<rparr>)
      else if name = ''hosts'' then
        (if length args = 0 then Inl ArgErr
         else if length (Hosts h) \<noteq> 0 then Inl (Err ''hosts subdirective specified twice'')
         else Inr (h\<lparr>Hosts := args\<rparr>))
      else if name = ''ports'' then
        (if length args = 0 then Inl ArgErr
         else if length (AllowedPorts h) \<noteq> 0 then Inl (Err ''ports subdirective specified twice'')
         else (case parse_ports args of Inl err \<Rightarrow> Inl err | Inr ports \<Rightarrow> Inr (h\<lparr>AllowedPorts := ports\<rparr>)))
      else if name = ''hide_ip'' then flag args (h\<lparr>HideIP := True\<rparr>)
      else if name = ''hide_via'' then flag args (h\<lparr>HideVia := True\<rparr>)
      else if name = ''disable_insecure_upstreams_check''
      then flag args (h\<lparr>DisableInsecureUpstreamsCheck := True\<rparr>)
      else if name = ''probe_resistance'' then
        (case args of
           [] \<Rightarrow> Inr (h\<lparr>ProbeResistance := Some []\<rparr>)
         | [domain] \<Rightarrow> Inr (h\<lparr>ProbeResistance := Some domain\<rparr>)
         | _ \<Rightarrow> Inl ArgErr)
      else if name = ''serve_pac'' then
        (if length args > 1 then Inl ArgErr
         else if length (PACPath h) \<noteq> 0 then Inl (Err ''serve_pac subdirective specified twice'')
         else (case args of
            p # _ \<Rightarrow> Inr (h\<lparr>PACPath := if HasPrefix p ''/'' then p else ''/'' @ p\<rparr>)
          | [] \<Rightarrow> Inr (h\<lparr>PACPath := ''/proxy.pac''\<rparr>)))
      else if name = ''dial_timeout'' then
        (case args of
           [d] \<Rightarrow>
             (case parseDuration d of
                None \<Rightarrow> Inl ArgErr
              | Some timeout \<Rightarrow>
                  if timeout < 0 then Inl (Err ''dial_timeout cannot be negative.'')
                  else Inr (h\<lparr>DialTimeout := timeout\<rparr>))
         | _ \<Rightarrow> Inl ArgErr)
      else if name = ''max_idle_conns'' then
        (case args of
           [n] \<Rightarrow> (case Atoi n of None \<Rightarrow> Inl ArgErr | Some val \<Rightarrow> Inr (h\<lparr>MaxIdleConns := val\<rparr>))
         | _ \<Rightarrow> Inl ArgErr)
      else if name = ''max_idle_conns_per_host'' then
        (case args of
           [n] \<Rightarrow> (case Atoi n of None \<Rightarrow> Inl ArgErr | Some val \<Rightarrow> Inr (h\<lparr>MaxIdleConnsPerHost := val\<rparr>))
         | _ \<Rightarrow> Inl ArgErr)
      else if name = ''upstream'' then
        (case args of
           [u] \<Rightarrow>
             if Upstream h \<noteq> [] then Inl (Err ''upstream directive specified more than once'')
             else Inr (h\<lparr>Upstream := u\<rparr>)
         | _ \<Rightarrow> Inl ArgErr)
      else if name = ''acl'' then
        (case acl_block readLinesFromFile (cf_block l) of
           Inl err \<Rightarrow> Inl err
         | Inr rules \<Rightarrow> Inr (h\<lparr>ACL := ACL h @ rules\<rparr>))
      else Inl ArgErr)"

text \<open>An argument behind \<^verbatim>\<open>acl\<close> is not consumed: the loop meets it as the next name.\<close>

function unmarshal_lines ::
  "(string \<Rightarrow> int option) \<Rightarrow> (string \<Rightarrow> string + string list) \<Rightarrow> cf_line list \<Rightarrow> Handler \<Rightarrow> cf_error + Handler" where
  "unmarshal_lines parseDuration readLinesFromFile [] h = Inr h"
| "unmarshal_lines parseDuration readLinesFromFile (l # ls) h =
     (if cf_name l = ''acl'' \<and> cf_args l \<noteq> []
      then unmarshal_lines parseDuration readLinesFromFile
             (\<lparr>cf_name = hd (cf_args l), cf_args = tl (cf_args l), cf_block = cf_block l\<rparr> # ls) h
      else (case unmarshal_line parseDuration readLinesFromFile l h of
         Inl err \<Rightarrow> Inl err
       | Inr h1 \<Rightarrow> unmarshal_lines parseDuration readLinesFromFile ls h1))"
  by pat_completeness auto
termination
  by (relation "measure (\<lambda>(d, r, ls, h). sum_list (map (\<lambda>l. Suc (length (cf_args l))) ls))") auto

text \<open>\<open>args\<close>: the arguments of the directive itself, of which there may be none.\<close>

definition UnmarshalCaddyfile ::
  "(string \<Rightarrow> int option) \<Rightarrow> (string \<Rightarrow> string + string list) \<Rightarrow> string list \<Rightarrow> cf_line list \<Rightarrow> Handler \<Rightarrow>
     cf_error + Handler" where
  "UnmarshalCaddyfile parseDuration readLinesFromFile args ls h =
     (if length args > 0 then Inl ArgErr else unmarshal_lines parseDuration readLinesFromFile ls h)"

definition parseCaddyfile ::
  "(string \<Rightarrow> int option) \<Rightarrow> (string \<Rightarrow> string + string list) \<Rightarrow> string list \<Rightarrow> cf_line list \<Rightarrow> cf_error + Handler" where
  "parseCaddyfile parseDuration readLinesFromFile args ls =
     UnmarshalCaddyfile parseDuration readLinesFromFile args ls empty_handler"

section \<open>Provision\<close>

text \<open>The settings of the HTTP transport and of the dialler.\<close>

record fp_transport =
  tr_MaxIdleConns :: int
  tr_MaxIdleConnsPerHost :: int
  tr_DialTimeout :: int
  tr_upstream :: "(string \<times> string) option"
  tr_skipVerify :: bool

text \<open>\<open>parseURL\<close> yields scheme and host name; \<open>fromURL\<close> the error of making the dialler.\<close>

definition Provision ::
  "(string \<Rightarrow> string + string \<times> string) \<Rightarrow> (string \<Rightarrow> string option) \<Rightarrow> Handler \<Rightarrow> string + Handler \<times> fp_transport" where
  "Provision parseURL fromURL h =
     (let h1 = (if DialTimeout h \<le> 0 then h\<lparr>DialTimeout := seconds 30\<rparr> else h);
          idle0 = (if MaxIdleConns h1 = 0 then 50 else MaxIdleConns h1);
          idle = (if idle0 < 0 then 0 else idle0);
          transport = \<lparr>tr_MaxIdleConns = idle, tr_MaxIdleConnsPerHost = MaxIdleConnsPerHost h1,
                       tr_DialTimeout = DialTimeout h1, tr_upstream = None, tr_skipVerify = False\<rparr>
      in case provision_acl h1 of
           Inl err \<Rightarrow> Inl err
         | Inr h2 \<Rightarrow>
             if ProbeResistance h2 \<noteq> None \<and> \<not> hasAuthentication h2
             then Inl ''probe resistance requires authentication''
             else if Upstream h2 = [] then Inr (h2, transport)
             else (case parseURL (Upstream h2) of
                Inl err \<Rightarrow> Inl (''bad upstream URL: '' @ err)
              | Inr (scheme, hostname) \<Rightarrow>
                  if \<not> DisableInsecureUpstreamsCheck h2 \<and> \<not> isLocalhost hostname \<and> scheme \<noteq> ''https''
                  then Inl ''insecure schemes are only allowed to localhost upstreams''
                  else (case fromURL (Upstream h2) of
                     Some err \<Rightarrow> Inl (''failed to create proxy to upstream: '' @ err)
                   | None \<Rightarrow>
                       Inr (h2, transport\<lparr>tr_upstream := Some (scheme, hostname),
                                          tr_skipVerify := isLocalhost hostname \<and> scheme = ''https''\<rparr>))))"

section \<open>Well-formed handlers\<close>

text \<open>What every handler read from a Caddyfile satisfies, and what Provision adds.\<close>

definition parsed_handler :: "Handler \<Rightarrow> bool" where
  "parsed_handler h \<longleftrightarrow>
     (\<forall>port\<in>set (AllowedPorts h). 1 \<le> port \<and> port \<le> 65535) \<and>
     (\<forall>creds. AuthCredentials h = Some creds \<longrightarrow> creds \<noteq> [] \<and>
        (\<forall>c\<in>set creds. \<exists>user pass. user \<noteq> [] \<and> CHR '':'' \<notin> set user \<and> c = EncodeAuthCredentials user pass)) \<and>
     0 \<le> DialTimeout h \<and>
     (PACPath h = [] \<or> HasPrefix (PACPath h) ''/'') \<and>
     aclRules h = []"

definition provisioned_handler :: "Handler \<Rightarrow> fp_transport \<Rightarrow> bool" where
  "provisioned_handler h tr \<longleftrightarrow>
     0 < DialTimeout h \<and> tr_DialTimeout tr = DialTimeout h \<and> 0 \<le> tr_MaxIdleConns tr \<and>
     aclRules h \<noteq> [] \<and> last (aclRules h) = aclAllRule True \<and>
     (ProbeResistance h \<noteq> None \<longrightarrow> hasAuthentication h) \<and>
     (tr_upstream tr = None \<longleftrightarrow> Upstream h = []) \<and>
     (\<forall>scheme host. tr_upstream tr = Some (scheme, host) \<longrightarrow>
        scheme = ''https'' \<or> isLocalhost host \<or> DisableInsecureUpstreamsCheck h) \<and>
     (tr_skipVerify tr \<longrightarrow> (\<exists>host. tr_upstream tr = Some (''https'', host) \<and> isLocalhost host))"

lemma parse_ports_range: "parse_ports ps = Inr ports \<Longrightarrow> \<forall>port\<in>set ports. 1 \<le> port \<and> port \<le> 65535"
  by (induction ps arbitrary: ports) (auto split: option.splits if_splits simp: map_sum_def split: sum.splits)

definition directives :: "string list" where
  "directives =
     [''basic_auth'', ''v2naive_auth'', ''hosts'', ''ports'', ''hide_ip'', ''hide_via'',
      ''disable_insecure_upstreams_check'', ''probe_resistance'', ''serve_pac'', ''dial_timeout'',
      ''max_idle_conns'', ''max_idle_conns_per_host'', ''upstream'', ''acl'']"

lemma unknown_directive:
  "cf_name l \<notin> set directives \<Longrightarrow> unmarshal_line parseDuration rd l h = Inl ArgErr"
  by (simp add: unmarshal_line_def directives_def Let_def)

lemma parsed_handler_frame [simp]:
  "parsed_handler (h\<lparr>V2NaiveAuth := b\<rparr>) = parsed_handler h" "parsed_handler (h\<lparr>Hosts := hs\<rparr>) = parsed_handler h"
  "parsed_handler (h\<lparr>HideIP := b\<rparr>) = parsed_handler h" "parsed_handler (h\<lparr>HideVia := b\<rparr>) = parsed_handler h"
  "parsed_handler (h\<lparr>DisableInsecureUpstreamsCheck := b\<rparr>) = parsed_handler h"
  "parsed_handler (h\<lparr>ProbeResistance := p\<rparr>) = parsed_handler h"
  "parsed_handler (h\<lparr>MaxIdleConns := n\<rparr>) = parsed_handler h"
  "parsed_handler (h\<lparr>MaxIdleConnsPerHost := n\<rparr>) = parsed_handler h"
  "parsed_handler (h\<lparr>Upstream := u\<rparr>) = parsed_handler h" "parsed_handler (h\<lparr>ACL := rules\<rparr>) = parsed_handler h"
  by (simp_all add: parsed_handler_def)

lemma unmarshal_line_basic_auth:
  assumes "unmarshal_line parseDuration rd l h = Inr h1" and "cf_name l = ''basic_auth''" and "parsed_handler h"
  shows "parsed_handler h1"
proof -
  obtain user pass where a: "cf_args l = [user, pass]"
    using assms(1,2) by (simp add: unmarshal_line_def Let_def split: list.split_asm)
  then have u: "user \<noteq> []" "CHR '':'' \<notin> set user"
    and h1: "h1 = h\<lparr>AuthCredentials :=
      Some ((case AuthCredentials h of None \<Rightarrow> [] | Some creds \<Rightarrow> creds) @ [EncodeAuthCredentials user pass])\<rparr>"
    using assms(1,2) by (simp_all add: unmarshal_line_def Let_def Contains_char split: if_split_asm)
  from assms(3) u show ?thesis unfolding parsed_handler_def h1 by (cases "AuthCredentials h") auto
qed

lemma unmarshal_line_parsed:
  assumes "unmarshal_line parseDuration rd l h = Inr h1" and "parsed_handler h"
  shows "parsed_handler h1"
proof -
  have "cf_name l \<in> set directives"
    using assms(1) unknown_directive [of l parseDuration rd h] by force
  moreover have ?thesis if "cf_name l = ''ports''"
    using assms that by (auto simp: unmarshal_line_def Let_def parsed_handler_def split: if_split_asm sum.split_asm
      dest: parse_ports_range)
  moreover have ?thesis if "cf_name l = ''serve_pac''"
    using assms that by (auto simp: unmarshal_line_def Let_def parsed_handler_def HasPrefix_def split: if_split_asm list.split_asm)
  moreover have ?thesis if "cf_name l = ''dial_timeout''"
    using assms that by (auto simp: unmarshal_line_def Let_def parsed_handler_def split: if_split_asm list.split_asm option.split_asm)
  moreover have ?thesis if "cf_name l \<in> {''v2naive_auth'', ''hosts'', ''hide_ip'', ''hide_via'',
      ''disable_insecure_upstreams_check'', ''probe_resistance'', ''max_idle_conns'', ''max_idle_conns_per_host'',
      ''upstream'', ''acl''}"
    using that assms
    by (elim insertE emptyE)
      (simp_all add: unmarshal_line_def Let_def flag_def split: if_split_asm list.split_asm option.split_asm sum.split_asm,
       auto)
  ultimately show ?thesis
    using unmarshal_line_basic_auth [OF assms(1) _ assms(2)] unfolding directives_def list.set insert_iff by metis
qed

lemma unmarshal_lines_parsed:
  "unmarshal_lines parseDuration rd ls h = Inr h1 \<Longrightarrow> parsed_handler h \<Longrightarrow> parsed_handler h1"
proof (induction parseDuration rd ls h rule: unmarshal_lines.induct)
  case (2 parseDuration rd l ls h)
  show ?case
  proof (cases "cf_name l = ''acl'' \<and> cf_args l \<noteq> []")
    case True
    from 2(3) have "unmarshal_lines parseDuration rd
        (\<lparr>cf_name = hd (cf_args l), cf_args = tl (cf_args l), cf_block = cf_block l\<rparr> # ls) h = Inr h1"
      by (simp only: unmarshal_lines.simps(2) [of parseDuration rd l ls h, unfolded if_P [OF True]])
    then show ?thesis using 2(4) by (rule 2(1) [OF True])
  next
    case False
    note eq = unmarshal_lines.simps(2) [of parseDuration rd l ls h, unfolded if_not_P [OF False]]
    obtain h2 where h2: "unmarshal_line parseDuration rd l h = Inr h2"
      using 2(3) eq by (cases "unmarshal_line parseDuration rd l h") (simp_all only: sum.case Inl_not_Inr)
    have "unmarshal_lines parseDuration rd ls h2 = Inr h1"
      using 2(3) by (simp only: eq h2 sum.case)
    then show ?thesis by (rule 2(2) [OF False h2 _ unmarshal_line_parsed [OF h2 2(4)]])
  qed
qed simp

lemma parseCaddyfile_parsed:
  assumes "parseCaddyfile parseDuration rd args ls = Inr h"
  shows "parsed_handler h"
proof -
  have "parsed_handler empty_handler" by (simp add: parsed_handler_def empty_handler_def)
  with assms show ?thesis
    by (auto simp: parseCaddyfile_def UnmarshalCaddyfile_def split: if_split_asm intro: unmarshal_lines_parsed)
qed

lemma provision_acl_result:
  assumes "provision_acl h = Inr h1"
  obtains rules where "h1 = h\<lparr>aclRules := rules @ [aclAllRule True]\<rparr>"
proof -
  obtain configured builtin where "h1 = h\<lparr>aclRules := (aclRules h @ configured @ builtin) @ [aclAllRule True]\<rparr>"
    using assms by (auto simp: provision_acl_def split: sum.split_asm)
  then show thesis by (rule that)
qed

lemma Provision_provisioned:
  assumes "Provision parseURL fromURL h = Inr (h1, tr)"
  shows "provisioned_handler h1 tr"
proof -
  let ?h0 = "if DialTimeout h \<le> 0 then h\<lparr>DialTimeout := seconds 30\<rparr> else h"
  obtain h2 where h2: "provision_acl ?h0 = Inr h2"
    using assms unfolding Provision_def Let_def by (auto split: sum.split_asm)
  obtain rules where rules: "h2 = ?h0\<lparr>aclRules := rules @ [aclAllRule True]\<rparr>"
    using provision_acl_result [OF h2] .
  have "0 < DialTimeout ?h0" by (simp add: seconds_def wrap64_def)
  then have "0 < DialTimeout h2" "DialTimeout h2 = DialTimeout ?h0" by (simp_all add: rules)
  moreover have "aclRules h2 \<noteq> [] \<and> last (aclRules h2) = aclAllRule True" by (simp add: rules)
  moreover note assms [unfolded Provision_def Let_def h2 sum.case]
  ultimately show ?thesis
    unfolding provisioned_handler_def
    by (simp split: if_split_asm sum.split_asm option.split_asm prod.split_asm) auto
qed

lemma Provision_keeps:
  assumes "Provision parseURL fromURL h = Inr (h1, tr)"
  shows "AllowedPorts h1 = AllowedPorts h \<and> AuthCredentials h1 = AuthCredentials h \<and> PACPath h1 = PACPath h"
proof -
  let ?h0 = "if DialTimeout h \<le> 0 then h\<lparr>DialTimeout := seconds 30\<rparr> else h"
  obtain h2 where h2: "provision_acl ?h0 = Inr h2"
    using assms unfolding Provision_def Let_def by (auto split: sum.split_asm)
  obtain rules where "h2 = ?h0\<lparr>aclRules := rules @ [aclAllRule True]\<rparr>"
    using provision_acl_result [OF h2] .
  then show ?thesis
    using assms [unfolded Provision_def Let_def h2 sum.case]
    by (auto split: if_split_asm sum.split_asm option.split_asm prod.split_asm)
qed

section \<open>Lists of hosts\<close>

text \<open>The lines of a file as \<^verbatim>\<open>bufio.Scanner\<close> reads them, with its limit of 64 KiB for a line.\<close>

fun scan_lines :: "string list \<Rightarrow> string + string list" where
  "scan_lines [] = Inr []"
| "scan_lines (l # ls) =
     (if ls = [] \<and> l = [] then Inr []
      else if length l \<ge> 65536 then Inl ''bufio.Scanner: token too long''
      else map_sum id (\<lambda>rest. dropCR l # rest) (scan_lines ls))"

definition readLinesFromFile :: "(string \<Rightarrow> string + string) \<Rightarrow> string \<Rightarrow> string + string list" where
  "readLinesFromFile open_file filename =
     (case open_file (Clean filename) of
        Inl err \<Rightarrow> Inl err
      | Inr content \<Rightarrow> scan_lines (split_char (CHR 0x0A) content))"

text \<open>Written one per line, the entries of such a file are read back.\<close>

lemma readLines_written:
  assumes "\<forall>l\<in>set ls. CHR 0x0A \<notin> set l \<and> length l < 65536 \<and> dropCR l = l"
    and "open_file (Clean filename) = Inr (concat (map (\<lambda>l. l @ [CHR 0x0A]) ls))"
  shows "readLinesFromFile open_file filename = Inr ls"
proof -
  have "scan_lines (split_char (CHR 0x0A) (concat (map (\<lambda>l. l @ [CHR 0x0A]) ls))) = Inr ls"
    using assms(1) by (induction ls) (simp_all add: split_char_append)
  then show ?thesis by (simp add: readLinesFromFile_def assms(2))
qed

section \<open>What the engine generates\<close>

text \<open>The block \<^verbatim>\<open>renderConfig\<close> writes, as the dispenser delivers it.\<close>

definition generated_lines :: "cf_line list" where
  "generated_lines =
     [\<lparr>cf_name = ''v2naive_auth'', cf_args = [], cf_block = []\<rparr>,
      \<lparr>cf_name = ''probe_resistance'', cf_args = [], cf_block = []\<rparr>,
      \<lparr>cf_name = ''hide_ip'', cf_args = [], cf_block = []\<rparr>,
      \<lparr>cf_name = ''hide_via'', cf_args = [], cf_block = []\<rparr>,
      \<lparr>cf_name = ''dial_timeout'', cf_args = [''10s''], cf_block = []\<rparr>,
      \<lparr>cf_name = ''max_idle_conns'', cf_args = [''1024''], cf_block = []\<rparr>,
      \<lparr>cf_name = ''max_idle_conns_per_host'', cf_args = [''64''], cf_block = []\<rparr>,
      \<lparr>cf_name = ''acl'', cf_args = [], cf_block = [(''allow'', [''all''])]\<rparr>]"

text \<open>A line as it is written at the indentation of the block.\<close>

definition words :: "string list \<Rightarrow> string" where
  "words ws = join '' '' ws"

definition line_text :: "cf_line \<Rightarrow> string list" where
  "line_text l =
     (if cf_block l = [] then [''    '' @ words (cf_name l # cf_args l)]
      else [''    '' @ words (cf_name l # cf_args l @ [''{''])]
           @ map (\<lambda>(name, args). ''      '' @ words (name # args)) (cf_block l) @ [''    }''])"


lemma generated_text:
  "concat (map line_text generated_lines) =
     [''    v2naive_auth'', ''    probe_resistance'', ''    hide_ip'', ''    hide_via'',
      ''    dial_timeout 10s'', ''    max_idle_conns 1024'', ''    max_idle_conns_per_host 64'',
      ''    acl {'', ''      allow all'', ''    }'']"
  by (simp add: generated_lines_def line_text_def words_def)

lemma generated_in_config:
  assumes "ni_CertInfo (cs_node s) = Some cert"
  shows "\<exists>before after. renderConfig s = Some (before @ concat (map line
     (''  forward_proxy {'' # concat (map line_text generated_lines) @ [''  }''])) @ after)"
proof -
  let ?node = "cs_node s"
  let ?before = "concat (map line
      ([''{'', ''  admin '' @ cs_adminAddr s, ''  auto_https off'', ''  order forward_proxy first'',
        ''  servers {'', ''    protocols h1 h2'', ''  }'', ''}'', [],
        join '', '' ((CHR '':'' # Itoa (ni_ServerPort ?node)) # collectHosts ?node) @ '' {'']
       @ (if ni_ListenIP ?node \<noteq> [] then [''  bind '' @ ni_ListenIP ?node] else [])
       @ [''  tls '' @ quote (ci_CertFile cert) @ '' '' @ quote (ci_KeyFile cert)]))"
  let ?after = "concat (map line [''  root * '' @ quote (coverDir s), ''  file_server'', ''}''])"
  have "renderConfig s = Some (?before @ concat (map line
     (''  forward_proxy {'' # concat (map line_text generated_lines) @ [''  }''])) @ ?after)"
    unfolding generated_text using assms by (simp add: renderConfig_def Let_def)
  then show ?thesis by blast
qed

lemma generated_handler:
  assumes "parseDuration ''10s'' = Some timeout" and "0 < timeout"
  shows "parseCaddyfile parseDuration rd [] generated_lines = Inr
     (empty_handler\<lparr>V2NaiveAuth := True, ProbeResistance := Some [], HideIP := True, HideVia := True,
        DialTimeout := timeout, MaxIdleConns := 1024, MaxIdleConnsPerHost := 64,
        ACL := [\<lparr>Subjects = [''all''], Allow = True\<rparr>]\<rparr>)"
proof -
  have n: "Atoi ''1024'' = Some 1024" "Atoi ''64'' = Some 64" by code_simp+
  show ?thesis using assms
    by (simp add: parseCaddyfile_def UnmarshalCaddyfile_def generated_lines_def unmarshal_line_def flag_def
        acl_line_def n empty_handler_def Let_def)
qed

lemma generated_provision:
  assumes "0 < timeout"
    and "h = empty_handler\<lparr>V2NaiveAuth := True, ProbeResistance := Some [], HideIP := True, HideVia := True,
        DialTimeout := timeout, MaxIdleConns := 1024, MaxIdleConnsPerHost := 64,
        ACL := [\<lparr>Subjects = [''all''], Allow = True\<rparr>]\<rparr>"
  shows "\<exists>rules. Provision parseURL fromURL h =
     Inr (h\<lparr>aclRules := aclAllRule True # rules\<rparr>,
          \<lparr>tr_MaxIdleConns = 1024, tr_MaxIdleConnsPerHost = 64, tr_DialTimeout = timeout,
           tr_upstream = None, tr_skipVerify = False\<rparr>)"
proof -
  obtain builtin where b: "parse_subjects False builtin_denied = Inr builtin"
    using builtin_rules by simp
  have "provision_acl h = Inr (h\<lparr>aclRules := aclAllRule True # builtin @ [aclAllRule True]\<rparr>)"
    by (simp add: provision_acl_def b newACLRule_def assms(2) empty_handler_def)
  then show ?thesis using assms(1)
    by (simp add: Provision_def Let_def assms(2) empty_handler_def hasAuthentication_def)
qed

section \<open>Properties\<close>


definition certified_engine :: CaddyServer where
  "certified_engine = sample_engine\<lparr>cs_node := sample_node\<lparr>ni_CertInfo := Some
     \<lparr>ci_CertMode = ''none'', ci_CertFile = ''/etc/c.pem'', ci_KeyFile = ''/etc/k.pem'', ci_Email = [],
      ci_CertDomain = ''edge.example'', ci_DNSEnv = Map.empty, ci_Provider = [], ci_RejectUnknownSni = False\<rparr>\<rparr>\<rparr>"


text \<open>
  C25. Whatever block an administrator writes, a handler that is accepted is well-formed:
  allowed ports are ports, every stored credential encodes a non-empty user name without a
  colon (so that it can be told from the password), a PAC path is absolute, the timeout is
  not negative.  Once provisioned, the timeout and the transport's limits are set, the rules
  end with the one that decides every address, probe resistance comes with
  authentication, and an upstream is reached over TLS unless it is on this host or the check
  was disabled; only for an upstream on this host the certificate is not verified.
\<close>

theorem accepted_configuration_well_formed:
  assumes "parseCaddyfile parseDuration rd args ls = Inr h"
  shows "parsed_handler h \<and>
     (\<forall>h1 tr. Provision parseURL fromURL h = Inr (h1, tr) \<longrightarrow>
        provisioned_handler h1 tr \<and> AllowedPorts h1 = AllowedPorts h \<and> AuthCredentials h1 = AuthCredentials h \<and>
        PACPath h1 = PACPath h)"
  using parseCaddyfile_parsed [OF assms] Provision_provisioned Provision_keeps by blast

definition sample_lines :: "cf_line list" where
  "sample_lines =
     [\<lparr>cf_name = ''basic_auth'', cf_args = [''alice'', ''secret''], cf_block = []\<rparr>,
      \<lparr>cf_name = ''ports'', cf_args = [''443'', ''8443''], cf_block = []\<rparr>,
      \<lparr>cf_name = ''serve_pac'', cf_args = [''p.pac''], cf_block = []\<rparr>]"

lemma sample_handler:
  "parseCaddyfile (\<lambda>_. None) (\<lambda>_. Inl []) [] sample_lines = Inr
     (empty_handler\<lparr>AuthCredentials := Some [EncodeAuthCredentials ''alice'' ''secret''],
        AllowedPorts := [443, 8443], PACPath := ''/p.pac''\<rparr>)"
proof -
  have n: "Atoi ''443'' = Some 443" "Atoi ''8443'' = Some 8443" by code_simp+
  show ?thesis
    by (simp add: parseCaddyfile_def UnmarshalCaddyfile_def sample_lines_def unmarshal_line_def n empty_handler_def
        Let_def Contains_char HasPrefix_def)
qed

theorem accepted_configuration_well_formed_witness:
  "\<exists>h h1 tr. parseCaddyfile (\<lambda>_. None) (\<lambda>_. Inl []) [] sample_lines = Inr h \<and> AllowedPorts h = [443, 8443] \<and>
     parsed_handler h \<and> Provision (\<lambda>_. Inl []) (\<lambda>_. None) h = Inr (h1, tr) \<and> provisioned_handler h1 tr"
proof -
  let ?h = "empty_handler\<lparr>AuthCredentials := Some [EncodeAuthCredentials ''alice'' ''secret''],
        AllowedPorts := [443, 8443], PACPath := ''/p.pac''\<rparr>"
  obtain builtin where "parse_subjects False builtin_denied = Inr builtin" using builtin_rules by simp
  then obtain h1 tr where "Provision (\<lambda>_. Inl []) (\<lambda>_. None) ?h = Inr (h1, tr)"
    by (simp add: Provision_def Let_def provision_acl_def empty_handler_def)
  with accepted_configuration_well_formed [OF sample_handler] sample_handler show ?thesis by fastforce
qed

end
