(* ===== verification/UpstreamConn.thy ===== *)
theory UpstreamConn
  imports HttpClient Duplex
begin

text \<open>
  A tunnel through an HTTP/2 upstream proxy as a connection: the methods of \<^verbatim>\<open>http2Conn\<close>
  (\<^verbatim>\<open>runtime/forwardproxy/httpclient/httpclient.go\<close>).  All tunnels of a dialler share one
  connection; each has a pipe of its own for what it sends and a response body of its own
  for what it receives.
\<close>

section \<open>The connection\<close>

text \<open>Connections, pipes and bodies are numbers.\<close>

record http2Conn =
  h2_Conn :: nat
  h2_in :: nat
  h2_out :: nat

definition NewHttp2Conn :: "nat \<Rightarrow> nat \<Rightarrow> nat \<Rightarrow> http2Conn" where
  "NewHttp2Conn c pipedReqBody respBody = \<lparr>h2_Conn = c, h2_in = pipedReqBody, h2_out = respBody\<rparr>"

text \<open>
  What is sent on every pipe, what every body still delivers, and which of them, and of the
  connections, are closed.  \<open>tr_closeErr\<close> is what closing a body answers, \<open>tr_rawErr\<close> a
  connection.
\<close>

record transport =
  tr_sent :: "nat \<Rightarrow> byte list"
  tr_body :: "nat \<Rightarrow> reader"
  tr_pipesClosed :: "nat list"
  tr_bodiesClosed :: "nat list"
  tr_rawsClosed :: "nat list"
  tr_closeErr :: "nat \<Rightarrow> io_error option"
  tr_rawErr :: "nat \<Rightarrow> io_error option"

definition body_closed :: io_error where
  "body_closed = IoError ''http2: response body closed''"

definition pipe_closed :: io_error where
  "pipe_closed = IoError ''io: read/write on closed pipe''"

definition h2_Read :: "http2Conn \<Rightarrow> nat \<Rightarrow> transport \<Rightarrow> (byte list \<times> io_error option) \<times> transport" where
  "h2_Read h k tr =
     (if h2_Conn h \<in> set (tr_rawsClosed tr) then (([], Some net_closed), tr)
      else if h2_out h \<in> set (tr_bodiesClosed tr) then (([], Some body_closed), tr)
      else (case Read k (tr_body tr (h2_out h)) of
         (d, er, rd) \<Rightarrow> ((d, er), tr\<lparr>tr_body := (tr_body tr)(h2_out h := rd)\<rparr>)))"

definition h2_Write :: "http2Conn \<Rightarrow> byte list \<Rightarrow> transport \<Rightarrow> (nat \<times> io_error option) \<times> transport" where
  "h2_Write h p tr =
     (if h2_Conn h \<in> set (tr_rawsClosed tr) then ((0, Some net_closed), tr)
      else if h2_in h \<in> set (tr_pipesClosed tr) then ((0, Some pipe_closed), tr)
      else ((length p, None), tr\<lparr>tr_sent := (tr_sent tr)(h2_in h := tr_sent tr (h2_in h) @ p)\<rparr>))"

text \<open>Closing a pipe never fails, and closing it again changes nothing.\<close>

definition h2_CloseWrite :: "http2Conn \<Rightarrow> transport \<Rightarrow> io_error option \<times> transport" where
  "h2_CloseWrite h tr = (None, tr\<lparr>tr_pipesClosed := List.insert (h2_in h) (tr_pipesClosed tr)\<rparr>)"

definition h2_CloseRead :: "http2Conn \<Rightarrow> transport \<Rightarrow> io_error option \<times> transport" where
  "h2_CloseRead h tr =
     (tr_closeErr tr (h2_out h), tr\<lparr>tr_bodiesClosed := List.insert (h2_out h) (tr_bodiesClosed tr)\<rparr>)"

definition h2_Close :: "http2Conn \<Rightarrow> transport \<Rightarrow> io_error option \<times> transport" where
  "h2_Close h tr =
     (case h2_CloseWrite h tr of
        (inErr, tr1) \<Rightarrow> (case h2_CloseRead h tr1 of
           (outErr, tr2) \<Rightarrow> (if inErr \<noteq> None then inErr else outErr, tr2)))"

definition h2_CloseConn :: "http2Conn \<Rightarrow> transport \<Rightarrow> io_error option \<times> transport" where
  "h2_CloseConn h tr =
     (tr_rawErr tr (h2_Conn h), tr\<lparr>tr_rawsClosed := List.insert (h2_Conn h) (tr_rawsClosed tr)\<rparr>)"

datatype h2_method = H2Read nat | H2Write "byte list" | H2Close | H2CloseWrite | H2CloseRead | H2CloseConn

fun h2_call :: "http2Conn \<Rightarrow> h2_method \<Rightarrow> transport \<Rightarrow> transport" where
  "h2_call h (H2Read k) tr = snd (h2_Read h k tr)"
| "h2_call h (H2Write p) tr = snd (h2_Write h p tr)"
| "h2_call h H2Close tr = snd (h2_Close h tr)"
| "h2_call h H2CloseWrite tr = snd (h2_CloseWrite h tr)"
| "h2_call h H2CloseRead tr = snd (h2_CloseRead h tr)"
| "h2_call h H2CloseConn tr = snd (h2_CloseConn h tr)"

definition h2_calls :: "http2Conn \<Rightarrow> h2_method list \<Rightarrow> transport \<Rightarrow> transport" where
  "h2_calls h cs tr = fold (h2_call h) cs tr"

section \<open>A tunnel over HTTP/1\<close>

text \<open>
  \<^verbatim>\<open>http.ReadResponse(bufio.NewReader(rawConn), req)\<close>: the buffered reader takes up to 4096
  bytes at a time until it has the response's head, of \<open>n\<close> bytes; the tunnel then goes on
  with the connection itself, and what else the buffer holds is dropped with it.
\<close>

function read_head :: "nat \<Rightarrow> reader \<Rightarrow> byte list \<times> reader" where
  "read_head n rd =
     (if n = 0 then ([], rd)
      else (case Read 4096 rd of
         (d, Some e, rd1) \<Rightarrow> (d, rd1)
       | (d, None, rd1) \<Rightarrow> (case read_head (n - length d) rd1 of (d1, rd2) \<Rightarrow> (d @ d1, rd2))))"
  by pat_completeness auto

termination
  by (relation "measure (\<lambda>(n, rd). chunk_weight (rd_chunks rd))") (auto dest!: sym [of "(_, _, _)"] Read_progress)

declare read_head.simps [simp del]

lemma read_head_split:
  "read_head n rd = (buf, rd1) \<Longrightarrow> buf @ concat (rd_chunks rd1) = concat (rd_chunks rd)"
proof (induction n rd arbitrary: buf rd1 rule: read_head.induct)
  case (1 n rd)
  obtain d er rd2 where rd2: "Read 4096 rd = (d, er, rd2)" by (metis surj_pair)
  show ?case
  proof (cases "n = 0 \<or> er \<noteq> None")
    case True
    with 1(2) rd2 Read_split [OF rd2] show ?thesis
      by (auto simp: read_head.simps [of n rd] split: if_splits)
  next
    case False
    obtain d1 rd3 where h: "read_head (n - length d) rd2 = (d1, rd3)" by fastforce
    have "buf = d @ d1" "rd1 = rd3" using 1(2) False rd2 h by (auto simp: read_head.simps [of n rd])
    moreover have "d1 @ concat (rd_chunks rd3) = concat (rd_chunks rd2)"
      using 1(1) rd2 False h by auto
    ultimately show ?thesis using Read_split [OF rd2] by simp
  qed
qed

text \<open>
  Bytes that the upstream sends right behind its answer, such as a server's greeting, and
  that arrive with it, never reach the client.
\<close>

lemma greeting_lost:
  assumes "rd_chunks rd = (head @ greeting) # cs" and "head \<noteq> []" and "length (head @ greeting) \<le> 4096" and "cs \<noteq> []"
  shows "read_head (length head) rd = (head @ greeting, rd\<lparr>rd_chunks := cs\<rparr>)"
  using assms by (simp add: read_head.simps Read_def)

section \<open>Tunnels beside each other\<close>

text \<open>What a tunnel can see of the transport.\<close>

definition same_view :: "http2Conn \<Rightarrow> transport \<Rightarrow> transport \<Rightarrow> bool" where
  "same_view h tr tr1 \<longleftrightarrow>
     tr_sent tr1 (h2_in h) = tr_sent tr (h2_in h) \<and> tr_body tr1 (h2_out h) = tr_body tr (h2_out h) \<and>
     (h2_in h \<in> set (tr_pipesClosed tr1) \<longleftrightarrow> h2_in h \<in> set (tr_pipesClosed tr)) \<and>
     (h2_out h \<in> set (tr_bodiesClosed tr1) \<longleftrightarrow> h2_out h \<in> set (tr_bodiesClosed tr)) \<and>
     (h2_Conn h \<in> set (tr_rawsClosed tr1) \<longleftrightarrow> h2_Conn h \<in> set (tr_rawsClosed tr)) \<and>
     tr_closeErr tr1 = tr_closeErr tr \<and> tr_rawErr tr1 = tr_rawErr tr"

lemmas h2_defs = h2_Read_def h2_Write_def h2_Close_def h2_CloseWrite_def h2_CloseRead_def h2_CloseConn_def

lemma same_view_results:
  assumes "same_view h tr tr1"
  shows "fst (h2_Read h k tr1) = fst (h2_Read h k tr)" "fst (h2_Write h p tr1) = fst (h2_Write h p tr)"
    "fst (h2_Close h tr1) = fst (h2_Close h tr)"
  using assms by (auto simp: same_view_def h2_defs split: prod.split)

lemma same_view_trans: "same_view h tr tr1 \<Longrightarrow> same_view h tr1 tr2 \<Longrightarrow> same_view h tr tr2"
  by (simp add: same_view_def)

lemma call_same_view:
  assumes "h2_in h \<noteq> h2_in g" and "h2_out h \<noteq> h2_out g" and "c \<noteq> H2CloseConn"
  shows "same_view g tr (h2_call h c tr)"
  using assms by (cases c) (auto simp: same_view_def h2_defs split: prod.split)

lemma calls_same_view:
  assumes "h2_in h \<noteq> h2_in g" and "h2_out h \<noteq> h2_out g" and "H2CloseConn \<notin> set cs"
  shows "same_view g tr (h2_calls h cs tr)"
  using assms(3)
proof (induction cs arbitrary: tr)
  case Nil
  then show ?case by (simp add: same_view_def h2_calls_def)
next
  case (Cons c cs)
  have "same_view g tr (h2_call h c tr)" by (rule call_same_view [OF assms(1,2)]) (use Cons.prems in auto)
  moreover have "same_view g (h2_call h c tr) (h2_calls h cs (h2_call h c tr))" using Cons by simp
  ultimately show ?case by (simp add: h2_calls_def) (rule same_view_trans)
qed

section \<open>Properties\<close>

text \<open>
  The tunnels that share the connection to an upstream proxy do not disturb each other: whatever
  one does, closing it in any way included, another reads, writes and closes as if it had
  not been there, unless the connection itself is closed, after which nothing is read or
  written on any of them.
\<close>

theorem upstream_tunnels_isolated:
  assumes "h2_in h \<noteq> h2_in g" and "h2_out h \<noteq> h2_out g" and "h2_Conn h = h2_Conn g"
  shows "(H2CloseConn \<notin> set cs \<longrightarrow>
       fst (h2_Read g k (h2_calls h cs tr)) = fst (h2_Read g k tr) \<and>
       fst (h2_Write g p (h2_calls h cs tr)) = fst (h2_Write g p tr) \<and>
       fst (h2_Close g (h2_calls h cs tr)) = fst (h2_Close g tr)) \<and>
     h2_Read g k (h2_call h H2CloseConn tr) = (([], Some net_closed), h2_call h H2CloseConn tr) \<and>
     h2_Write g p (h2_call h H2CloseConn tr) = ((0, Some net_closed), h2_call h H2CloseConn tr)"
proof (intro conjI impI)
  assume "H2CloseConn \<notin> set cs"
  note v = same_view_results [OF calls_same_view [OF assms(1,2) this]]
  show "fst (h2_Read g k (h2_calls h cs tr)) = fst (h2_Read g k tr)" by (rule v(1))
  show "fst (h2_Write g p (h2_calls h cs tr)) = fst (h2_Write g p tr)" by (rule v(2))
  show "fst (h2_Close g (h2_calls h cs tr)) = fst (h2_Close g tr)" by (rule v(3))
qed (use assms(3) in \<open>simp_all add: h2_defs\<close>)

definition two_tunnels_shared :: transport where
  "two_tunnels_shared =
     \<lparr>tr_sent = (\<lambda>_. []), tr_body = (\<lambda>n. sample_reader [word_of_nat n]), tr_pipesClosed = [], tr_bodiesClosed = [],
      tr_rawsClosed = [], tr_closeErr = (\<lambda>_. None), tr_rawErr = (\<lambda>_. None)\<rparr>"

theorem upstream_tunnels_isolated_witness:
  "fst (h2_Read (NewHttp2Conn 0 3 4) 8 (h2_calls (NewHttp2Conn 0 1 2) [H2Write [9], H2Close] two_tunnels_shared)) =
     ([4], None) \<and>
   fst (h2_Read (NewHttp2Conn 0 3 4) 8 (h2_call (NewHttp2Conn 0 1 2) H2CloseConn two_tunnels_shared)) =
     ([], Some net_closed)"
proof -
  have "h2_in (NewHttp2Conn 0 1 2) \<noteq> h2_in (NewHttp2Conn 0 3 4)" "h2_out (NewHttp2Conn 0 1 2) \<noteq> h2_out (NewHttp2Conn 0 3 4)"
    "h2_Conn (NewHttp2Conn 0 1 2) = h2_Conn (NewHttp2Conn 0 3 4)"
    by (simp_all add: NewHttp2Conn_def)
  note iso = upstream_tunnels_isolated [OF this, of "[H2Write [9], H2Close]" 8 two_tunnels_shared]
  have "fst (h2_Read (NewHttp2Conn 0 3 4) 8 two_tunnels_shared) = ([4], None)"
    by (simp add: h2_Read_def NewHttp2Conn_def two_tunnels_shared_def sample_reader_def Read_def)
  with iso show ?thesis by simp
qed

end
