(* ===== verification/Task.thy ===== *)
theory Task
  imports Controller
begin

text \<open>
  Periodic tasks, \<^verbatim>\<open>internal/task/task.go\<close>, as a step relation over the task's fields and the
  goroutines it has started, and the loop that keeps a node running, \<^verbatim>\<open>runNode\<close> of
  \<^verbatim>\<open>main.go\<close>.
\<close>

section \<open>A task\<close>

text \<open>Stop channels are numbered in the order they are made.\<close>

record Task =
  tk_Name :: string
  tk_Interval :: int
  tk_Running :: bool
  tk_Stop :: nat
  tk_hasReload :: bool

text \<open>
  Where a goroutine of the task is: executing for the first time, about to reset the timer,
  in the select on the stop channel it read, executing, or finished.
\<close>

datatype loop_pc = LoopFirst | LoopReset | LoopSelect nat | LoopRun | LoopDone

record task_state =
  ts_task :: Task
  ts_closed :: "nat set"
  ts_made :: nat
  ts_loops :: "loop_pc list"
  ts_reload :: bool

definition new_task :: "string \<Rightarrow> int \<Rightarrow> bool \<Rightarrow> task_state" where
  "new_task name interval hasReload =
     \<lparr>ts_task = \<lparr>tk_Name = name, tk_Interval = interval, tk_Running = False, tk_Stop = 0, tk_hasReload = hasReload\<rparr>,
      ts_closed = {}, ts_made = 0, ts_loops = [], ts_reload = False\<rparr>"

definition task_Start :: "bool \<Rightarrow> task_state \<Rightarrow> task_state" where
  "task_Start first s =
     (if tk_Running (ts_task s) then s
      else s\<lparr>ts_task := (ts_task s)\<lparr>tk_Running := True, tk_Stop := ts_made s\<rparr>,
             ts_made := Suc (ts_made s),
             ts_loops := ts_loops s @ [if first then LoopFirst else LoopReset]\<rparr>)"

definition task_Close :: "task_state \<Rightarrow> task_state" where
  "task_Close s =
     (if tk_Running (ts_task s)
      then s\<lparr>ts_task := (ts_task s)\<lparr>tk_Running := False\<rparr>,
             ts_closed := insert (tk_Stop (ts_task s)) (ts_closed s)\<rparr>
      else s)"

text \<open>How long one execution may take, in nanoseconds.\<close>

definition task_timeout :: "Task \<Rightarrow> int" where
  "task_timeout t = min (wrap64 (5 * tk_Interval t)) (5 * minute)"

datatype execution = TimedOut | Finished "panel_error option"

text \<open>The error and whether a reload is requested; a context error is none.\<close>

definition ExecuteWithTimeout :: "Task \<Rightarrow> execution \<Rightarrow> bool \<Rightarrow> panel_error option \<times> bool" where
  "ExecuteWithTimeout t result reload =
     (case result of
        TimedOut \<Rightarrow> (None, reload \<or> tk_hasReload t)
      | Finished None \<Rightarrow> (None, reload)
      | Finished (Some err) \<Rightarrow> ((if is_ctx_error err then None else Some err), reload))"

inductive task_step :: "task_state \<Rightarrow> task_state \<Rightarrow> bool" where
  step_start: "task_step s (task_Start first s)"
| step_close: "task_step s (task_Close s)"
| step_reset:
    "i < length (ts_loops s) \<Longrightarrow> ts_loops s ! i = LoopReset \<Longrightarrow>
     task_step s (s\<lparr>ts_loops := (ts_loops s)[i := LoopSelect (tk_Stop (ts_task s))]\<rparr>)"
| step_timer:
    "i < length (ts_loops s) \<Longrightarrow> ts_loops s ! i = LoopSelect ch \<Longrightarrow>
     task_step s (s\<lparr>ts_loops := (ts_loops s)[i := LoopRun]\<rparr>)"
| step_stopped:
    "i < length (ts_loops s) \<Longrightarrow> ts_loops s ! i = LoopSelect ch \<Longrightarrow> ch \<in> ts_closed s \<Longrightarrow>
     task_step s (s\<lparr>ts_loops := (ts_loops s)[i := LoopDone]\<rparr>)"
| step_executed:
    "i < length (ts_loops s) \<Longrightarrow> ts_loops s ! i = LoopFirst \<or> ts_loops s ! i = LoopRun \<Longrightarrow>
     ExecuteWithTimeout (ts_task s) result (ts_reload s) = (err, reload) \<Longrightarrow>
     task_step s (s\<lparr>ts_loops := (ts_loops s)[i := if err = None then LoopReset else LoopDone],
                   ts_reload := reload\<rparr>)"

inductive task_reachable :: "task_state \<Rightarrow> bool" where
  task_made: "task_reachable (new_task name interval hasReload)"
| task_next: "task_reachable s \<Longrightarrow> task_step s s1 \<Longrightarrow> task_reachable s1"

text \<open>
  A running task's channel is open, so \<^verbatim>\<open>Close\<close> never closes one twice; once it is closed,
  the channel the goroutines go back to is closed too.
\<close>

definition task_ok :: "task_state \<Rightarrow> bool" where
  "task_ok s \<longleftrightarrow>
     (tk_Running (ts_task s) \<longrightarrow> tk_Stop (ts_task s) \<notin> ts_closed s) \<and>
     (\<not> tk_Running (ts_task s) \<longrightarrow> ts_loops s \<noteq> [] \<longrightarrow> tk_Stop (ts_task s) \<in> ts_closed s) \<and>
     (\<forall>ch\<in>ts_closed s. ch < ts_made s) \<and>
     (tk_Running (ts_task s) \<longrightarrow> tk_Stop (ts_task s) < ts_made s \<and> ts_loops s \<noteq> [])"

lemma task_step_ok:
  assumes "task_step s s1" and "task_ok s"
  shows "task_ok s1"
  using assms by cases (auto simp: task_ok_def task_Start_def task_Close_def)

lemma task_reachable_ok: "task_reachable s \<Longrightarrow> task_ok s"
proof (induction rule: task_reachable.induct)
  case (task_made name interval hasReload)
  then show ?case by (simp add: task_ok_def new_task_def)
next
  case (task_next s s1)
  then show ?case by (blast intro: task_step_ok)
qed

section \<open>The controller's tasks\<close>

text \<open>The two tasks return nothing but context errors.\<close>

lemma ctx_result_ctx: "ctx_result err = Some e \<Longrightarrow> is_ctx_error e"
  by (auto simp: ctx_result_def split: if_splits)

lemma monitor_result:
  assumes "nodeInfoMonitor srv order env senv c = (Some err, c1)"
  shows "is_ctx_error err"
  using assms
  by (auto simp: nodeInfoMonitor_def Let_def split: prod.splits sum.splits option.splits dest: ctx_result_ctx)

lemma report_result:
  assumes "reportUserTrafficTask srv post_traffic post_online c = (Some err, c1)"
  shows "is_ctx_error err"
  using assms
  by (auto simp: reportUserTrafficTask_def Let_def split: prod.splits option.splits if_splits dest: ctx_result_ctx)


text \<open>
  \<^verbatim>\<open>renewCertTask\<close>: \<open>renew\<close> is what NewLego and RenewCert come to, an error or whether the
  certificate was renewed.
\<close>

definition renewCertTask :: "string + bool \<Rightarrow> 's Controller \<Rightarrow> panel_error option \<times> 's Controller" where
  "renewCertTask renew c =
     (case renew of
        Inl err \<Rightarrow> (Some (OtherError err), c)
      | Inr renewed \<Rightarrow> (None, if renewed then triggerReload c else c))"

definition hour :: int where
  "hour = 60 * minute"

definition startTasks :: "NodeInfo \<Rightarrow> task_state list" where
  "startTasks info =
     [task_Start False (new_task ''nodeInfoMonitor'' (ni_PullInterval info) True),
      task_Start False (new_task ''reportUserTrafficTask'' (ni_PushInterval info) True)]
     @ (if ni_TLS info = 1 \<and> (\<exists>cert. ni_CertInfo info = Some cert \<and> ci_CertMode cert \<in> {''dns'', ''http''})
        then [task_Start True (new_task ''renewCertTask'' (24 * hour) True)] else [])"

definition controller_Close :: "'s Server \<Rightarrow> task_state list \<Rightarrow> 's Controller \<Rightarrow> task_state list \<times> 's Controller" where
  "controller_Close srv tasks c = (map task_Close tasks, c\<lparr>ct_server := sv_Close srv (ct_server c)\<rparr>)"

section \<open>Keeping a node running\<close>

datatype node_phase = NodeIdle | NodeWaiting | NodeServing | NodeStopped

text \<open>
  What the loop of \<^verbatim>\<open>runNode\<close> meets at its selects: the program is stopped, making the client
  or starting the controller fails or succeeds, the ten seconds are over, a reload is
  requested.
\<close>

datatype node_input = ProgramStopped | StartFailed | StartWorked | WaitOver | ReloadRequested

datatype node_action = StartedController | ClosedController

fun runNode_step :: "node_input \<Rightarrow> node_phase \<Rightarrow> node_phase \<times> node_action list" where
  "runNode_step ProgramStopped NodeIdle = (NodeStopped, [])"
| "runNode_step StartFailed NodeIdle = (NodeWaiting, [])"
| "runNode_step StartWorked NodeIdle = (NodeServing, [StartedController])"
| "runNode_step WaitOver NodeWaiting = (NodeIdle, [])"
| "runNode_step ProgramStopped NodeWaiting = (NodeIdle, [])"
| "runNode_step ProgramStopped NodeServing = (NodeStopped, [ClosedController])"
| "runNode_step ReloadRequested NodeServing = (NodeIdle, [ClosedController])"
| "runNode_step input phase = (phase, [])"

fun runNode :: "node_input list \<Rightarrow> node_phase \<Rightarrow> node_phase \<times> node_action list" where
  "runNode [] phase = (phase, [])"
| "runNode (input # inputs) phase =
     (case runNode_step input phase of
        (phase1, acts) \<Rightarrow> (case runNode inputs phase1 of (phase2, acts2) \<Rightarrow> (phase2, acts @ acts2)))"

text \<open>Controllers are started and closed in turn, and one is left open only while serving.\<close>

fun alternating :: "bool \<Rightarrow> node_action list \<Rightarrow> bool option" where
  "alternating opened [] = Some opened"
| "alternating opened (StartedController # acts) = (if opened then None else alternating True acts)"
| "alternating opened (ClosedController # acts) = (if opened then alternating False acts else None)"

lemma alternating_append:
  "alternating b (as @ bs) = Option.bind (alternating b as) (\<lambda>c. alternating c bs)"
  by (induction b as rule: alternating.induct) auto

lemma runNode_step_alternates:
  "runNode_step input phase = (phase1, acts) \<Longrightarrow> alternating (phase = NodeServing) acts = Some (phase1 = NodeServing)"
  by (cases input; cases phase) auto

lemma runNode_alternates:
  "runNode inputs phase = (phase1, acts) \<Longrightarrow> alternating (phase = NodeServing) acts = Some (phase1 = NodeServing)"
proof (induction inputs arbitrary: phase phase1 acts)
  case (Cons input inputs)
  obtain p a where st: "runNode_step input phase = (p, a)" by (metis surj_pair)
  obtain p2 a2 where r: "runNode inputs p = (p2, a2)" by (metis surj_pair)
  from Cons.prems st r have "phase1 = p2" "acts = a @ a2" by auto
  with runNode_step_alternates [OF st] Cons.IH [OF r] show ?case by (simp add: alternating_append)
qed simp

section \<open>Properties\<close>

text \<open>
  Stopping a task is safe: however starts, stops, timers and executions interleave, a
  running task's stop channel is open, so no channel is closed twice (which would panic),
  and once the task is stopped the channel its goroutines select on next is closed.
\<close>

theorem task_stop_safe:
  assumes "task_reachable s"
  shows "(tk_Running (ts_task s) \<longrightarrow> tk_Stop (ts_task s) \<notin> ts_closed s) \<and>
     (\<not> tk_Running (ts_task s) \<longrightarrow> ts_loops s \<noteq> [] \<longrightarrow> tk_Stop (ts_task s) \<in> ts_closed s)"
  using task_reachable_ok [OF assms] by (simp add: task_ok_def)

theorem task_stop_safe_witness:
  "tk_Stop (ts_task (task_Close (task_Start False (new_task ''t'' 5 True)))) \<in>
     ts_closed (task_Close (task_Start False (new_task ''t'' 5 True)))"
proof -
  have "task_reachable (task_Close (task_Start False (new_task ''t'' 5 True)))"
    by (intro task_next [OF task_next [OF task_made step_start] step_close])
  from task_stop_safe [OF this] show ?thesis
    by (simp add: task_Close_def task_Start_def new_task_def)
qed

text \<open>
  C35. The panel cannot stop a node's tasks: whatever it answers, and however long it takes,
  an execution of the polling or the reporting task ends without an error for the loop,
  which therefore goes on to its next interval.
\<close>

theorem panel_tasks_survive:
  "fst (ExecuteWithTimeout t (Finished (fst (nodeInfoMonitor srv order env senv c))) reload) = None \<and>
   fst (ExecuteWithTimeout t (Finished (fst (reportUserTrafficTask srv post_traffic post_online c))) reload) = None \<and>
   fst (ExecuteWithTimeout t TimedOut reload) = None"
proof -
  have "fst (ExecuteWithTimeout t (Finished res) reload) = None" if "\<And>err. res = Some err \<Longrightarrow> is_ctx_error err" for res
    using that by (cases res) (auto simp: ExecuteWithTimeout_def)
  moreover have "is_ctx_error err" if "fst (nodeInfoMonitor srv order env senv c) = Some err" for err
    using that monitor_result [of srv order env senv c err] by (cases "nodeInfoMonitor srv order env senv c") auto
  moreover have "is_ctx_error err" if "fst (reportUserTrafficTask srv post_traffic post_online c) = Some err" for err
    using that report_result [of srv post_traffic post_online c err]
    by (cases "reportUserTrafficTask srv post_traffic post_online c") auto
  ultimately show ?thesis by (simp add: ExecuteWithTimeout_def)
qed

text \<open>
  The renewal task is different: one failed renewal ends its goroutine for good, while the
  task still counts as running, so that starting it again does nothing.
\<close>

lemma failed_renewal_is_last:
  assumes "ts_loops s = [LoopRun]" and "tk_Running (ts_task s)"
    and "fst (renewCertTask (Inl msg) c) = err"
  shows "\<exists>s1. task_step s s1 \<and> ts_loops s1 = [LoopDone] \<and> tk_Running (ts_task s1) \<and> task_Start first s1 = s1"
proof -
  have "ExecuteWithTimeout (ts_task s) (Finished err) (ts_reload s) = (Some (OtherError msg), ts_reload s)"
    using assms(3) by (auto simp: ExecuteWithTimeout_def renewCertTask_def)
  from step_executed [of 0 s, OF _ _ this] assms(1,2) show ?thesis
    by (intro exI [of _ "s\<lparr>ts_loops := [LoopDone], ts_reload := ts_reload s\<rparr>"]) (auto simp: task_Start_def)
qed

text \<open>
  A node never runs two controllers: whatever happens to the loop that keeps it running,
  controllers are started and closed in turn, and one is open exactly while it serves.
\<close>

theorem one_controller_at_a_time:
  assumes "runNode inputs NodeIdle = (phase, acts)"
  shows "alternating False acts = Some (phase = NodeServing)"
  using runNode_alternates [OF assms] by simp

theorem one_controller_at_a_time_witness:
  "alternating False (snd (runNode [StartFailed, WaitOver, StartWorked, ReloadRequested, StartWorked] NodeIdle)) = Some True"
proof -
  have "runNode [StartFailed, WaitOver, StartWorked, ReloadRequested, StartWorked] NodeIdle =
      (NodeServing, [StartedController, ClosedController, StartedController])" by simp
  from one_controller_at_a_time [OF this] show ?thesis by simp
qed

end
