(* ===== verification/Program.thy ===== *)
theory Program
  imports Task
begin

text \<open>
  The entry point, \<^verbatim>\<open>main\<close> and \<^verbatim>\<open>setupLog\<close> of \<^verbatim>\<open>main.go\<close>: flags, configuration, logging, and
  one loop per configured node, each in a goroutine of its own, until a signal arrives.
  Parsing the flags, viper and logrus' level names are arguments.
\<close>

section \<open>Logging\<close>

text \<open>The package state of logrus: level, whether the formatter is ours, the output file.\<close>

record logger =
  lg_level :: string
  lg_compact :: bool
  lg_output :: "string option"

definition initial_logger :: logger where
  "initial_logger = \<lparr>lg_level = ''info'', lg_compact = False, lg_output = None\<rparr>"

definition setupLog ::
  "(string \<Rightarrow> string + string) \<Rightarrow> (string \<Rightarrow> string option) \<Rightarrow> LogConfig \<Rightarrow> logger \<Rightarrow> string option \<times> logger" where
  "setupLog parseLevel openFile cfg lg =
     (case parseLevel (lc_Level cfg) of
        Inl err \<Rightarrow> (Some err, lg)
      | Inr level \<Rightarrow>
          let lg1 = lg\<lparr>lg_level := level, lg_compact := True\<rparr> in
          if lc_Output cfg \<noteq> []
          then (case openFile (lc_Output cfg) of
                  Some err \<Rightarrow> (Some err, lg1)
                | None \<Rightarrow> (None, lg1\<lparr>lg_output := Some (lc_Output cfg)\<rparr>))
          else (None, lg1))"

section \<open>Starting up\<close>

text \<open>How main goes on: it prints the version, ends with a fatal message, or runs the nodes.\<close>

datatype startup =
    PrintsVersion string
  | Fatal string
  | RunsNodes "(NodeConfig \<times> RuntimeConfig) list"

record main_env =
  me_version :: string
  me_commit :: string
  me_open :: "string \<Rightarrow> string option"
  me_read :: "string \<Rightarrow> string option"
  me_unmarshal :: "string \<Rightarrow> Conf \<Rightarrow> string + Conf"
  me_parseLevel :: "string \<Rightarrow> string + string"
  me_openFile :: "string \<Rightarrow> string option"

definition main_start :: "main_env \<Rightarrow> bool \<Rightarrow> string \<Rightarrow> startup \<times> logger" where
  "main_start env showVersion configPath =
     (if showVersion
      then (PrintsVersion (''v2naive '' @ me_version env @ '' commit '' @ me_commit env @ [CHR 0x0A]), initial_logger)
      else (case LoadFromPath (me_open env configPath) (me_read env configPath) (me_unmarshal env configPath) conf_New of
         Inl err \<Rightarrow> (Fatal (''load config failed: '' @ err), initial_logger)
       | Inr cfg \<Rightarrow>
           (case setupLog (me_parseLevel env) (me_openFile env) (cf_LogConfig cfg) initial_logger of
              (Some err, lg) \<Rightarrow> (Fatal (''setup log failed: '' @ err), lg)
            | (None, lg) \<Rightarrow>
                if cf_NodeConfigs cfg = [] then (Fatal ''no node configured'', lg)
                else (RunsNodes (map (\<lambda>n. (n, cf_RuntimeConfig cfg)) (cf_NodeConfigs cfg)), lg))))"

section \<open>The running program\<close>

text \<open>
  \<open>pg_nodes\<close>: where each node's loop is and what it has done; \<open>pg_signal\<close>: the context is
  done; \<open>pg_exited\<close>: main has returned, which ends the process with all its goroutines.
\<close>

record program =
  pg_nodes :: "(node_phase \<times> node_action list) list"
  pg_signal :: bool
  pg_exited :: bool

definition program_start :: "(NodeConfig \<times> RuntimeConfig) list \<Rightarrow> program" where
  "program_start nodes =
     \<lparr>pg_nodes = map (\<lambda>_. (NodeIdle, [])) nodes, pg_signal = False, pg_exited = False\<rparr>"

definition advance :: "node_input \<Rightarrow> node_phase \<times> node_action list \<Rightarrow> node_phase \<times> node_action list" where
  "advance input node =
     (case node of (phase, acts) \<Rightarrow> (case runNode_step input phase of (phase1, new) \<Rightarrow> (phase1, acts @ new)))"

text \<open>A loop sees the program stopped only after the signal; main waits for the signal alone.\<close>

inductive program_step :: "program \<Rightarrow> program \<Rightarrow> bool" where
  program_node:
    "\<not> pg_exited p \<Longrightarrow> i < length (pg_nodes p) \<Longrightarrow> input = ProgramStopped \<longrightarrow> pg_signal p \<Longrightarrow>
     program_step p (p\<lparr>pg_nodes := (pg_nodes p)[i := advance input (pg_nodes p ! i)]\<rparr>)"
| program_signal: "\<not> pg_exited p \<Longrightarrow> program_step p (p\<lparr>pg_signal := True\<rparr>)"
| program_return: "\<not> pg_exited p \<Longrightarrow> pg_signal p \<Longrightarrow> program_step p (p\<lparr>pg_exited := True\<rparr>)"

inductive program_reachable :: "(NodeConfig \<times> RuntimeConfig) list \<Rightarrow> program \<Rightarrow> bool" for nodes where
  program_new: "program_reachable nodes (program_start nodes)"
| program_next: "program_reachable nodes p \<Longrightarrow> program_step p q \<Longrightarrow> program_reachable nodes q"

section \<open>Lemmas\<close>

definition node_ok :: "node_phase \<times> node_action list \<Rightarrow> bool" where
  "node_ok node \<longleftrightarrow> alternating False (snd node) = Some (fst node = NodeServing)"

lemma advance_ok: "node_ok node \<Longrightarrow> node_ok (advance input node)"
proof -
  obtain phase acts where node: "node = (phase, acts)" by (cases node)
  obtain phase1 new where st: "runNode_step input phase = (phase1, new)" by (metis surj_pair)
  assume "node_ok node"
  then show ?thesis
    using runNode_step_alternates [OF st] by (simp add: node_ok_def node advance_def st alternating_append)
qed

definition program_ok :: "program \<Rightarrow> bool" where
  "program_ok p \<longleftrightarrow>
     (\<forall>node\<in>set (pg_nodes p). node_ok node \<and> (fst node = NodeStopped \<longrightarrow> pg_signal p)) \<and>
     (pg_exited p \<longrightarrow> pg_signal p)"

lemma advance_stopped:
  "fst (advance input node) = NodeStopped \<Longrightarrow> fst node = NodeStopped \<or> input = ProgramStopped"
  by (cases node; cases input; cases "fst node") (auto simp: advance_def)

lemma program_step_ok:
  assumes "program_step p q" and "program_ok p"
  shows "program_ok q"
  using assms
proof (cases rule: program_step.cases)
  case (program_node i input)
  have mem: "pg_nodes p ! i \<in> set (pg_nodes p)" using program_node by simp
  have "node_ok node \<and> (fst node = NodeStopped \<longrightarrow> pg_signal p)"
    if "node \<in> set ((pg_nodes p)[i := advance input (pg_nodes p ! i)])" for node
  proof (cases "node = advance input (pg_nodes p ! i)")
    case True
    with assms(2) mem program_node(4) show ?thesis
      by (auto simp: program_ok_def intro: advance_ok dest: advance_stopped)
  next
    case False
    with that have "node \<in> set (pg_nodes p)"
      using set_update_subset_insert [of "pg_nodes p" i "advance input (pg_nodes p ! i)"] by auto
    with assms(2) show ?thesis by (auto simp: program_ok_def)
  qed
  with assms(2) program_node(1) show ?thesis by (auto simp: program_ok_def)
qed (auto simp: program_ok_def)

lemma program_reachable_ok: "program_reachable nodes p \<Longrightarrow> program_ok p"
proof (induction rule: program_reachable.induct)
  case program_new
  then show ?case by (auto simp: program_ok_def program_start_def node_ok_def)
next
  case (program_next p q)
  then show ?case by (blast intro: program_step_ok)
qed

lemma program_step_length: "program_step p q \<Longrightarrow> length (pg_nodes q) = length (pg_nodes p)"
  by (cases rule: program_step.cases) auto

lemma program_reachable_length: "program_reachable nodes p \<Longrightarrow> length (pg_nodes p) = length nodes"
  by (induction rule: program_reachable.induct) (auto simp: program_start_def program_step_length)

section \<open>Properties\<close>

text \<open>
  Main runs the nodes exactly if it is not asked for the version, the configuration loads,
  logging is set up and a node is configured; it then runs one loop for each configured
  node, in order, with the defaults filled in, and logs in the compact format.
\<close>

theorem main_runs_configured_nodes:
  assumes "LoadFromPath (me_open env path) (me_read env path) (me_unmarshal env path) conf_New = Inr cfg"
  shows "main_start env False path = (RunsNodes nodes, lg) \<longleftrightarrow>
     cf_NodeConfigs cfg \<noteq> [] \<and> nodes = map (\<lambda>n. (n, cf_RuntimeConfig cfg)) (cf_NodeConfigs cfg) \<and>
     setupLog (me_parseLevel env) (me_openFile env) (cf_LogConfig cfg) initial_logger = (None, lg)"
  by (auto simp: main_start_def assms split: prod.split option.split)

text \<open>
  However the node loops, the signal and the end of main interleave: every node has at most
  one controller open, it is open exactly while the loop serves, and no loop ends for
  good before the signal.
\<close>

theorem nodes_keep_running:
  assumes "program_reachable nodes p"
  shows "length (pg_nodes p) = length nodes \<and>
     (\<forall>i<length nodes.
        alternating False (snd (pg_nodes p ! i)) = Some (fst (pg_nodes p ! i) = NodeServing) \<and>
        (fst (pg_nodes p ! i) = NodeStopped \<longrightarrow> pg_signal p))"
proof -
  have "node_ok (pg_nodes p ! i) \<and> (fst (pg_nodes p ! i) = NodeStopped \<longrightarrow> pg_signal p)"
    if "i < length nodes" for i
    using program_reachable_ok [OF assms] nth_mem [of i "pg_nodes p"] that program_reachable_length [OF assms]
    unfolding program_ok_def by auto
  then show ?thesis using program_reachable_length [OF assms] by (simp add: node_ok_def)
qed

text \<open>
  Main does not wait for the nodes: after the signal it may return while a node still has its
  controller open, and the process ends before the loop has closed it, with the Caddy
  process of that node still running.
\<close>

lemma main_leaves_controllers_open:
  assumes "program_reachable nodes p" and "\<not> pg_exited p" and "i < length nodes"
    and "fst (pg_nodes p ! i) = NodeServing"
  shows "\<exists>q. program_reachable nodes q \<and> pg_exited q \<and> fst (pg_nodes q ! i) = NodeServing \<and> (\<nexists>r. program_step q r)"
proof -
  let ?q = "p\<lparr>pg_signal := True, pg_exited := True\<rparr>"
  have "program_step p (p\<lparr>pg_signal := True\<rparr>)" by (rule program_signal [OF assms(2)])
  moreover have "program_step (p\<lparr>pg_signal := True\<rparr>) ?q"
    using program_return [of "p\<lparr>pg_signal := True\<rparr>"] assms(2) by simp
  ultimately have "program_reachable nodes ?q" using assms(1) by (blast intro: program_next)
  moreover have "\<nexists>r. program_step ?q r" by (auto elim: program_step.cases)
  ultimately show ?thesis using assms(4) by (intro exI [of _ ?q]) simp
qed

section \<open>Witnesses\<close>

definition sample_main :: main_env where
  "sample_main =
     \<lparr>me_version = ''v1'', me_commit = ''c'', me_open = \<lambda>_. None, me_read = \<lambda>_. None,
      me_unmarshal = \<lambda>_ c. Inr (c\<lparr>cf_NodeConfigs := [sample_conf, sample_conf\<lparr>nc_NodeID := 2\<rparr>]\<rparr>),
      me_parseLevel = Inr, me_openFile = \<lambda>_. None\<rparr>"

theorem main_runs_configured_nodes_witness:
  "\<exists>nodes lg. main_start sample_main False ''config.yml'' = (RunsNodes nodes, lg) \<and> length nodes = 2"
proof -
  let ?cfg = "conf_New\<lparr>cf_NodeConfigs := map default_retry [sample_conf, sample_conf\<lparr>nc_NodeID := 2\<rparr>]\<rparr>"
  have "LoadFromPath (me_open sample_main ''config.yml'') (me_read sample_main ''config.yml'')
      (me_unmarshal sample_main ''config.yml'') conf_New = Inr ?cfg"
    by (simp add: LoadFromPath_def sample_main_def conf_New_def)
  from main_runs_configured_nodes [OF this] show ?thesis
    by (simp add: setupLog_def sample_main_def conf_New_def)
qed

text \<open>Two nodes; the second serves, reloads, and serves again.\<close>

definition two_nodes :: "(NodeConfig \<times> RuntimeConfig) list" where
  "two_nodes = [(sample_conf, default_runtime), (sample_conf\<lparr>nc_NodeID := 2\<rparr>, default_runtime)]"

lemma second_node_step:
  assumes "program_reachable two_nodes \<lparr>pg_nodes = [a, b], pg_signal = False, pg_exited = False\<rparr>"
    and "input \<noteq> ProgramStopped"
  shows "program_reachable two_nodes \<lparr>pg_nodes = [a, advance input b], pg_signal = False, pg_exited = False\<rparr>"
  using program_next [OF assms(1) program_node [of _ 1 input]] assms(2) by simp

theorem nodes_keep_running_witness:
  "\<exists>p. program_reachable two_nodes p \<and>
     snd (pg_nodes p ! 1) = [StartedController, ClosedController, StartedController] \<and>
     alternating False (snd (pg_nodes p ! 1)) = Some True"
proof -
  let ?b = "advance StartWorked (advance ReloadRequested (advance StartWorked (NodeIdle, [])))"
  let ?p = "\<lparr>pg_nodes = [(NodeIdle, []), ?b], pg_signal = False, pg_exited = False\<rparr>"
  have "program_reachable two_nodes \<lparr>pg_nodes = [(NodeIdle, []), (NodeIdle, [])], pg_signal = False, pg_exited = False\<rparr>"
    using program_new [of two_nodes] by (simp add: program_start_def two_nodes_def)
  then have "program_reachable two_nodes ?p" by (intro second_node_step) simp_all
  from this nodes_keep_running [OF this] show ?thesis
    by (intro exI [of _ ?p]) (auto simp: advance_def two_nodes_def)
qed

end
