(* ===== verification/Cert.thy ===== *)
theory Cert
  imports Task Go_OS
begin

text \<open>
  Certificates, \<^verbatim>\<open>internal/certutil/cert.go\<close>: the modes of \<open>RequestCert\<close>, the lock key, the
  self-signed template, the ACME account file and the renewal.  The disk is a map from
  paths to entries; what it answers to a call, random keys, the encodings of crypto/x509,
  encoding/pem and encoding/json, and the lego library are the fields of \<open>cert_env\<close>.
\<close>

section \<open>The disk\<close>

record cert_world =
  cw_fs :: disk
  cw_env :: "string \<rightharpoonup> string"

text \<open>The template of a self-signed certificate; \<open>tpl_years\<close> is what AddDate adds to NotBefore.\<close>

record certificate_template =
  tpl_Version :: int
  tpl_CommonName :: string
  tpl_DNSNames :: "string list"
  tpl_IPAddresses :: "IP list"
  tpl_KeyUsage :: "string list"
  tpl_ExtKeyUsage :: "string list"
  tpl_NotBefore :: int
  tpl_years :: int

record legoUser =
  lu_Email :: string
  lu_Registration :: "string option"
  lu_KeyEncoded :: string
  lu_key :: "string option"

text \<open>
  \<open>ce_mkdir\<close> is the error of MkdirAll, if any, with the number of ancestors made before it;
  \<open>ce_json\<close> and \<open>ce_unjson\<close> are the account file's encoding of the e-mail address, the
  registration and the encoded key.
\<close>

record cert_env =
  ce_mkdir :: "string \<Rightarrow> (nat \<times> string) option"
  ce_write :: "string \<Rightarrow> write_outcome"
  ce_now :: int
  ce_rsaKey :: "string + string"
  ce_createCert :: "certificate_template \<Rightarrow> string \<Rightarrow> string + string"
  ce_pem :: "string \<Rightarrow> string \<Rightarrow> string"
  ce_unpem :: "string \<Rightarrow> string option"
  ce_parseCert :: "string \<Rightarrow> string + int"
  ce_ecKey :: "string + string"
  ce_marshalEC :: "string \<Rightarrow> string + string"
  ce_parseEC :: "string \<Rightarrow> string + string"
  ce_json :: "string \<times> string option \<times> string \<Rightarrow> string"
  ce_unjson :: "string \<Rightarrow> string + string \<times> string option \<times> string"
  ce_newClient :: "legoUser \<Rightarrow> string option"
  ce_register :: "legoUser \<Rightarrow> string + string"
  ce_http01 :: "string option"
  ce_dnsProvider :: "(string \<rightharpoonup> string) \<Rightarrow> string \<Rightarrow> string option"
  ce_dns01 :: "string option"
  ce_obtain :: "legoUser \<Rightarrow> string list \<Rightarrow> string + string \<times> string"
  ce_renew :: "legoUser \<Rightarrow> string \<Rightarrow> string \<Rightarrow> string + string \<times> string"

definition is_file :: "cert_world \<Rightarrow> string \<Rightarrow> bool" where
  "is_file w p = holds_file (cw_fs w) p"

definition MkdirAll :: "cert_env \<Rightarrow> string \<Rightarrow> cert_world \<Rightarrow> string option \<times> cert_world" where
  "MkdirAll env dir w = (case os_MkdirAll (ce_mkdir env) dir (cw_fs w) of (err, fs) \<Rightarrow> (err, w\<lparr>cw_fs := fs\<rparr>))"

definition ensureDir :: "cert_env \<Rightarrow> string \<Rightarrow> cert_world \<Rightarrow> string option \<times> cert_world" where
  "ensureDir env filePath w = MkdirAll env (path_Dir filePath) w"

definition fileExists :: "cert_world \<Rightarrow> string \<Rightarrow> bool" where
  "fileExists w filePath = (cw_fs w filePath \<noteq> None)"

definition WriteFile :: "cert_env \<Rightarrow> string \<Rightarrow> string \<Rightarrow> cert_world \<Rightarrow> string option \<times> cert_world" where
  "WriteFile env path data w =
     (case os_WriteFile (ce_write env) path data (cw_fs w) of (err, fs) \<Rightarrow> (err, w\<lparr>cw_fs := fs\<rparr>))"

definition ReadFile :: "string \<Rightarrow> cert_world \<Rightarrow> string + string" where
  "ReadFile path w =
     (case cw_fs w path of
        None \<Rightarrow> Inl ''no such file or directory''
      | Some Directory \<Rightarrow> Inl ''is a directory''
      | Some (File content) \<Rightarrow> Inr content)"

text \<open>The certificate first, then the key: the end of generateSelfSigned and all of writeCert.\<close>

definition write_pair ::
  "cert_env \<Rightarrow> string \<Rightarrow> string \<Rightarrow> string \<Rightarrow> string \<Rightarrow> cert_world \<Rightarrow> string option \<times> cert_world" where
  "write_pair env certPath certData keyPath keyData =
     and_then (ensureDir env certPath)
       (and_then (WriteFile env certPath certData)
         (and_then (ensureDir env keyPath) (WriteFile env keyPath keyData)))"

section \<open>Self-signed certificates\<close>

definition self_signed_template :: "cert_env \<Rightarrow> string \<Rightarrow> certificate_template" where
  "self_signed_template env domain =
     (let ip = ParseIP domain in
      \<lparr>tpl_Version = 3, tpl_CommonName = domain,
       tpl_DNSNames = (if ip = None then [domain] else []),
       tpl_IPAddresses = (case ip of None \<Rightarrow> [] | Some address \<Rightarrow> [address]),
       tpl_KeyUsage = [''DigitalSignature'', ''KeyEncipherment''], tpl_ExtKeyUsage = [''ServerAuth''],
       tpl_NotBefore = ce_now env, tpl_years = 30\<rparr>)"

definition generateSelfSigned ::
  "cert_env \<Rightarrow> string \<Rightarrow> string \<Rightarrow> string \<Rightarrow> cert_world \<Rightarrow> string option \<times> cert_world" where
  "generateSelfSigned env domain certPath keyPath w =
     (case ce_rsaKey env of
        Inl err \<Rightarrow> (Some err, w)
      | Inr key \<Rightarrow>
          (case ce_createCert env (self_signed_template env domain) key of
             Inl err \<Rightarrow> (Some err, w)
           | Inr certBytes \<Rightarrow>
               write_pair env certPath (ce_pem env ''CERTIFICATE'' certBytes)
                 keyPath (ce_pem env ''RSA PRIVATE KEY'' key) w))"

section \<open>The ACME account\<close>

definition encodePrivate :: "cert_env \<Rightarrow> string \<Rightarrow> string + string" where
  "encodePrivate env key =
     (case ce_marshalEC env key of
        Inl err \<Rightarrow> Inl err
      | Inr encoded \<Rightarrow> Inr (ce_pem env ''EC PRIVATE KEY'' encoded))"

definition decodePrivate :: "cert_env \<Rightarrow> string \<Rightarrow> string + string" where
  "decodePrivate env pemEncoded =
     (case ce_unpem env pemEncoded of
        None \<Rightarrow> Inl ''invalid private key''
      | Some block \<Rightarrow> ce_parseEC env block)"

text \<open>\<open>Save\<close> empties KeyEncoded again when it returns; a user without a key is a panic.\<close>

definition user_Save ::
  "cert_env \<Rightarrow> string \<Rightarrow> legoUser \<Rightarrow> cert_world \<Rightarrow> string option \<times> legoUser \<times> cert_world" where
  "user_Save env filePath u w =
     (case ensureDir env filePath w of
        (Some err, w1) \<Rightarrow> (Some err, u, w1)
      | (None, w1) \<Rightarrow>
          (case lu_key u of
             None \<Rightarrow> (Some ''interface conversion: interface is nil'', u, w1)
           | Some key \<Rightarrow>
               (case encodePrivate env key of
                  Inl err \<Rightarrow> (Some err, u, w1)
                | Inr encoded \<Rightarrow>
                    (case WriteFile env filePath (ce_json env (lu_Email u, lu_Registration u, encoded)) w1 of
                       (err, w2) \<Rightarrow> (err, u\<lparr>lu_KeyEncoded := []\<rparr>, w2)))))"

definition user_Load :: "cert_env \<Rightarrow> string \<Rightarrow> cert_world \<Rightarrow> string + legoUser" where
  "user_Load env filePath w =
     (case ReadFile filePath w of
        Inl err \<Rightarrow> Inl err
      | Inr file \<Rightarrow>
          (case ce_unjson env file of
             Inl err \<Rightarrow> Inl err
           | Inr (email, reg, encoded) \<Rightarrow>
               (case decodePrivate env encoded of
                  Inl err \<Rightarrow> Inl err
                | Inr key \<Rightarrow>
                    Inr \<lparr>lu_Email = email, lu_Registration = reg, lu_KeyEncoded = encoded, lu_key = Some key\<rparr>)))"

definition registerLegoUser ::
  "cert_env \<Rightarrow> string \<Rightarrow> legoUser \<Rightarrow> cert_world \<Rightarrow> (string + legoUser) \<times> cert_world" where
  "registerLegoUser env filePath user w =
     (case ce_ecKey env of
        Inl err \<Rightarrow> (Inl err, w)
      | Inr privateKey \<Rightarrow>
          (let user1 = user\<lparr>lu_key := Some privateKey\<rparr> in
           case ce_newClient env user1 of
             Some err \<Rightarrow> (Inl err, w)
           | None \<Rightarrow>
               (case ce_register env user1 of
                  Inl err \<Rightarrow> (Inl err, w)
                | Inr reg \<Rightarrow>
                    (case user_Save env filePath (user1\<lparr>lu_Registration := Some reg\<rparr>) w of
                       (Some err, user2, w1) \<Rightarrow> (Inl err, w1)
                     | (None, user2, w1) \<Rightarrow> (Inr user2, w1)))))"

definition no_user :: legoUser where
  "no_user = \<lparr>lu_Email = [], lu_Registration = None, lu_KeyEncoded = [], lu_key = None\<rparr>"

definition newLegoUser :: "cert_env \<Rightarrow> string \<Rightarrow> string \<Rightarrow> cert_world \<Rightarrow> (string + legoUser) \<times> cert_world" where
  "newLegoUser env filePath email w =
     (if fileExists w filePath then
        (case user_Load env filePath w of
           Inl err \<Rightarrow> (Inl err, w)
         | Inr user \<Rightarrow>
             if lu_Email user = email then (Inr user, w)
             else registerLegoUser env filePath (user\<lparr>lu_Email := email\<rparr>) w)
      else registerLegoUser env filePath (no_user\<lparr>lu_Email := email\<rparr>) w)"

section \<open>Obtaining and renewing\<close>

record Lego =
  lg_client :: legoUser
  lg_config :: CertInfo

definition Setenv :: "string \<Rightarrow> string \<Rightarrow> (string \<rightharpoonup> string) \<Rightarrow> (string \<rightharpoonup> string)" where
  "Setenv key v env =
     (if key = [] \<or> CHR ''='' \<in> set key \<or> CHR 0x00 \<in> set key \<or> CHR 0x00 \<in> set v then env
      else env(key \<mapsto> v))"

text \<open>
  The keys of the map are different variables, so the order of the loop does not matter and
  the environment after it is read off per variable.
\<close>

definition set_dns_env :: "(string \<rightharpoonup> string) \<Rightarrow> (string \<rightharpoonup> string) \<Rightarrow> (string \<rightharpoonup> string)" where
  "set_dns_env dns env key =
     (case dns key of None \<Rightarrow> env key | Some v \<Rightarrow> Setenv key v env key)"

definition setProvider :: "cert_env \<Rightarrow> CertInfo \<Rightarrow> cert_world \<Rightarrow> string option \<times> cert_world" where
  "setProvider env config w =
     (if ci_CertMode config = ''http'' then (ce_http01 env, w)
      else if ci_CertMode config = ''dns'' then
        (let w1 = w\<lparr>cw_env := set_dns_env (ci_DNSEnv config) (cw_env w)\<rparr> in
         case ce_dnsProvider env (cw_env w1) (ci_Provider config) of
           Some err \<Rightarrow> (Some err, w1)
         | None \<Rightarrow> (ce_dns01 env, w1))
      else (None, w))"

definition account_path :: "CertInfo \<Rightarrow> string" where
  "account_path config =
     path_Join [path_Dir (ci_CertFile config), ''user'', ''user-'' @ ci_Email config @ ''.json'']"

definition NewLego :: "cert_env \<Rightarrow> CertInfo \<Rightarrow> cert_world \<Rightarrow> (string + Lego) \<times> cert_world" where
  "NewLego env config w =
     (case newLegoUser env (account_path config) (ci_Email config) w of
        (Inl err, w1) \<Rightarrow> (Inl err, w1)
      | (Inr user, w1) \<Rightarrow>
          (case ce_newClient env user of
             Some err \<Rightarrow> (Inl err, w1)
           | None \<Rightarrow>
               (case setProvider env config w1 of
                  (Some err, w2) \<Rightarrow> (Inl err, w2)
                | (None, w2) \<Rightarrow> (Inr \<lparr>lg_client = user, lg_config = config\<rparr>, w2))))"

definition writeCert :: "cert_env \<Rightarrow> CertInfo \<Rightarrow> string \<times> string \<Rightarrow> cert_world \<Rightarrow> string option \<times> cert_world" where
  "writeCert env config resource =
     write_pair env (ci_CertFile config) (fst resource) (ci_KeyFile config) (snd resource)"

definition CreateCert :: "cert_env \<Rightarrow> Lego \<Rightarrow> cert_world \<Rightarrow> string option \<times> cert_world" where
  "CreateCert env l w =
     (case ce_obtain env (lg_client l) [ci_CertDomain (lg_config l)] of
        Inl err \<Rightarrow> (Some err, w)
      | Inr resource \<Rightarrow> writeCert env (lg_config l) resource w)"

text \<open>\<open>int(time.Until(notAfter).Hours() / 24)\<close>, times in nanoseconds.\<close>

definition days_left :: "cert_env \<Rightarrow> int \<Rightarrow> int" where
  "days_left env notAfter = go_quot (notAfter - ce_now env) (24 * hour)"

definition RenewCert :: "cert_env \<Rightarrow> Lego \<Rightarrow> cert_world \<Rightarrow> (bool \<times> string option) \<times> cert_world" where
  "RenewCert env l w =
     (case ReadFile (ci_CertFile (lg_config l)) w of
        Inl err \<Rightarrow> ((False, Some err), w)
      | Inr content \<Rightarrow>
          (case ce_parseCert env content of
             Inl err \<Rightarrow> ((False, Some err), w)
           | Inr notAfter \<Rightarrow>
               if days_left env notAfter > 30 then ((False, None), w)
               else (case ce_renew env (lg_client l) (ci_CertDomain (lg_config l)) content of
                  Inl err \<Rightarrow> ((False, Some err), w)
                | Inr resource \<Rightarrow>
                    (case writeCert env (lg_config l) resource w of (err, w1) \<Rightarrow> ((True, err), w1)))))"

text \<open>What the renewal task does before it looks at the outcome.\<close>

definition renew_attempt :: "cert_env \<Rightarrow> CertInfo \<Rightarrow> cert_world \<Rightarrow> (string + bool) \<times> cert_world" where
  "renew_attempt env config w =
     (case NewLego env config w of
        (Inl err, w1) \<Rightarrow> (Inl err, w1)
      | (Inr l, w1) \<Rightarrow>
          (case RenewCert env l w1 of
             ((renewed, Some err), w2) \<Rightarrow> (Inl err, w2)
           | ((renewed, None), w2) \<Rightarrow> (Inr renewed, w2)))"

section \<open>RequestCert\<close>

definition pair_exists :: "CertInfo \<Rightarrow> cert_world \<Rightarrow> bool" where
  "pair_exists cert w \<longleftrightarrow> fileExists w (ci_CertFile cert) \<and> fileExists w (ci_KeyFile cert)"

definition request_self_signed :: "cert_env \<Rightarrow> CertInfo \<Rightarrow> cert_world \<Rightarrow> string option \<times> cert_world" where
  "request_self_signed env cert w =
     (if pair_exists cert w then (None, w)
      else if ci_CertDomain cert = [] then (Some ''empty cert domain for self-signed certificate'', w)
      else generateSelfSigned env (ci_CertDomain cert) (ci_CertFile cert) (ci_KeyFile cert) w)"

definition RequestCert :: "cert_env \<Rightarrow> CertInfo \<Rightarrow> cert_world \<Rightarrow> string option \<times> cert_world" where
  "RequestCert env cert w =
     (if ci_CertMode cert = [] \<or> ci_CertMode cert = ''none'' then request_self_signed env cert w
      else if ci_CertMode cert = ''file'' then
        (if \<not> pair_exists cert w then (Some ''cert file path or key file path not exist'', w) else (None, w))
      else if ci_CertMode cert = ''dns'' \<or> ci_CertMode cert = ''http'' then
        (if pair_exists cert w then (None, w)
         else (case NewLego env cert w of
            (Inl err, w1) \<Rightarrow> (Some err, w1)
          | (Inr l, w1) \<Rightarrow> CreateCert env l w1))
      else if ci_CertMode cert = ''self'' then request_self_signed env cert w
      else (Some (''unsupported cert mode: '' @ ci_CertMode cert), w))"

section \<open>The lock\<close>

definition certLockKey :: "CertInfo option \<Rightarrow> string" where
  "certLockKey cert =
     (case cert of
        None \<Rightarrow> ''nil''
      | Some c \<Rightarrow> join [CHR 0x00]
          [ci_CertMode c, ci_CertDomain c, ci_CertFile c, ci_KeyFile c, ci_Provider c])"

text \<open>
  Concurrent calls of \<open>RequestCert\<close> and \<open>RenewCert\<close>: \<open>cl_lock\<close> is the map of mutexes with
  the call that holds each, \<open>cl_inside\<close> the certificate a call is working on.
\<close>

record cert_calls =
  cl_lock :: "string \<Rightarrow> nat option"
  cl_inside :: "nat \<Rightarrow> CertInfo option"

inductive cert_step :: "cert_calls \<Rightarrow> cert_calls \<Rightarrow> bool" where
  lockCert: "cl_inside s call = None \<Longrightarrow> cl_lock s (certLockKey (Some c)) = None \<Longrightarrow>
    cert_step s (s\<lparr>cl_lock := (cl_lock s)(certLockKey (Some c) \<mapsto> call),
                   cl_inside := (cl_inside s)(call \<mapsto> c)\<rparr>)"
| unlock: "cl_inside s call = Some c \<Longrightarrow>
    cert_step s (s\<lparr>cl_lock := (cl_lock s)(certLockKey (Some c) := None),
                   cl_inside := (cl_inside s)(call := None)\<rparr>)"

inductive cert_reachable :: "cert_calls \<Rightarrow> bool" where
  initial: "cert_reachable \<lparr>cl_lock = Map.empty, cl_inside = Map.empty\<rparr>"
| step: "cert_reachable s \<Longrightarrow> cert_step s s1 \<Longrightarrow> cert_reachable s1"

section \<open>The DNS variables\<close>

definition dns_pair :: "string \<Rightarrow> (string \<rightharpoonup> string) \<Rightarrow> (string \<rightharpoonup> string)" where
  "dns_pair pair out = (case split2 (CHR ''='') pair of None \<Rightarrow> out | Some (k, v) \<Rightarrow> out(k \<mapsto> v))"

definition ParseDNSPairs :: "string \<Rightarrow> (string \<rightharpoonup> string)" where
  "ParseDNSPairs raw =
     (if raw = [] then Map.empty else fold dns_pair (split_char (CHR '','') raw) Map.empty)"

section \<open>Nothing is ever removed\<close>

lemma ensureDir_keeps:
  assumes "ensureDir env path w = (err, w1)" and "fileExists w p"
  shows "cw_fs w1 p = cw_fs w p"
  using assms unfolding ensureDir_def MkdirAll_def os_MkdirAll_def fileExists_def
  by (auto split: if_splits option.splits prod.splits simp: fold_make_dir_Some)

lemma WriteFile_keeps: "WriteFile env path data w = (err, w1) \<Longrightarrow> fileExists w p \<Longrightarrow> fileExists w1 p"
  by (auto simp: WriteFile_def os_WriteFile_def fileExists_def split: if_splits write_outcome.splits)

lemma WriteFile_wrote: "WriteFile env path data w = (None, w1) \<Longrightarrow> cw_fs w1 = (cw_fs w)(path \<mapsto> File data)"
  by (auto simp: WriteFile_def os_WriteFile_def split: if_splits write_outcome.splits)

lemma write_pair_wrote:
  assumes "write_pair env certPath certData keyPath keyData w = (None, w1)"
  shows "cw_fs w1 certPath = Some (File (if keyPath = certPath then keyData else certData))"
    and "cw_fs w1 keyPath = Some (File keyData)"
proof -
  obtain wa wb wc where 1: "ensureDir env certPath w = (None, wa)"
    and 2: "WriteFile env certPath certData wa = (None, wb)"
    and 3: "ensureDir env keyPath wb = (None, wc)"
    and 4: "WriteFile env keyPath keyData wc = (None, w1)"
    using assms unfolding write_pair_def and_then_def
    by (auto split: prod.splits option.splits)
  have b: "cw_fs wb certPath = Some (File certData)" using WriteFile_wrote [OF 2] by simp
  then have "cw_fs wc certPath = Some (File certData)"
    using ensureDir_keeps [OF 3, of certPath] by (simp add: fileExists_def)
  with WriteFile_wrote [OF 4]
  show "cw_fs w1 certPath = Some (File (if keyPath = certPath then keyData else certData))"
    and "cw_fs w1 keyPath = Some (File keyData)" by simp_all
qed

lemma user_Save_keeps:
  assumes "user_Save env path u w = (err, u1, w1)" and "fileExists w p"
  shows "fileExists w1 p" and "p \<noteq> path \<Longrightarrow> cw_fs w1 p = cw_fs w p"
proof -
  obtain err0 w0 where d: "ensureDir env path w = (err0, w0)" by fastforce
  then have k: "cw_fs w0 p = cw_fs w p" using assms(2) by (rule ensureDir_keeps)
  then have e: "fileExists w0 p" using assms(2) by (simp add: fileExists_def)
  consider "w1 = w0" | data err1 where "WriteFile env path data w0 = (err1, w1)"
    using assms(1) d unfolding user_Save_def by (auto split: option.splits sum.splits prod.splits)
  then have "fileExists w1 p \<and> (p \<noteq> path \<longrightarrow> cw_fs w1 p = cw_fs w p)"
  proof cases
    case 1
    with k e show ?thesis by simp
  next
    case 2
    then have "p \<noteq> path \<longrightarrow> cw_fs w1 p = cw_fs w0 p"
      by (auto simp: WriteFile_def os_WriteFile_def split: if_splits write_outcome.splits)
    with k WriteFile_keeps [OF 2 e] show ?thesis by simp
  qed
  then show "fileExists w1 p" and "p \<noteq> path \<Longrightarrow> cw_fs w1 p = cw_fs w p" by simp_all
qed

lemma registerLegoUser_keeps:
  assumes "registerLegoUser env path u w = (res, w1)" and "fileExists w p"
  shows "fileExists w1 p \<and> (p \<noteq> path \<longrightarrow> cw_fs w1 p = cw_fs w p)"
proof (cases "w1 = w")
  case True
  with assms(2) show ?thesis by simp
next
  case False
  then obtain u1 err u2 where "user_Save env path u1 w = (err, u2, w1)"
    using assms(1) unfolding registerLegoUser_def Let_def
    by (auto split: option.splits sum.splits prod.splits)
  with assms(2) show ?thesis by (auto dest: user_Save_keeps)
qed

lemma NewLego_keeps:
  assumes "NewLego env config w = (res, w1)" and "fileExists w p"
  shows "fileExists w1 p \<and> (p \<noteq> account_path config \<longrightarrow> cw_fs w1 p = cw_fs w p)"
proof -
  obtain res0 w0 where n: "newLegoUser env (account_path config) (ci_Email config) w = (res0, w0)"
    by fastforce
  have "fileExists w0 p \<and> (p \<noteq> account_path config \<longrightarrow> cw_fs w0 p = cw_fs w p)"
  proof (cases "w0 = w")
    case True
    with assms(2) show ?thesis by simp
  next
    case False
    then obtain u where "registerLegoUser env (account_path config) u w = (res0, w0)"
      using n unfolding newLegoUser_def by (auto split: if_splits sum.splits)
    then show ?thesis using assms(2) by (rule registerLegoUser_keeps)
  qed
  moreover have "cw_fs w1 = cw_fs w0"
    using assms(1) n unfolding NewLego_def setProvider_def Let_def
    by (auto split: sum.splits option.splits prod.splits if_splits)
  ultimately show ?thesis by (simp add: fileExists_def)
qed

lemma NewLego_config: "NewLego env config w = (Inr l, w1) \<Longrightarrow> lg_config l = config"
  unfolding NewLego_def by (auto split: sum.splits option.splits prod.splits)

lemma write_pair_exists:
  assumes "write_pair env (ci_CertFile cert) certData (ci_KeyFile cert) keyData w = (None, w1)"
  shows "pair_exists cert w1"
  using write_pair_wrote [OF assms] by (auto simp: pair_exists_def fileExists_def)

lemma generateSelfSigned_exists:
  "generateSelfSigned env domain (ci_CertFile cert) (ci_KeyFile cert) w = (None, w1) \<Longrightarrow> pair_exists cert w1"
  unfolding generateSelfSigned_def by (auto split: sum.splits dest: write_pair_exists)

lemma CreateCert_exists:
  "CreateCert env l w = (None, w1) \<Longrightarrow> pair_exists (lg_config l) w1"
  unfolding CreateCert_def writeCert_def by (auto split: sum.splits dest: write_pair_exists)

lemma request_self_signed_exists:
  "request_self_signed env cert w = (None, w1) \<Longrightarrow> pair_exists cert w1"
  unfolding request_self_signed_def by (auto split: if_splits dest: generateSelfSigned_exists)

lemma RequestCert_exists:
  assumes "RequestCert env cert w = (None, w1)"
  shows "pair_exists cert w1"
proof (cases "ci_CertMode cert = ''dns'' \<or> ci_CertMode cert = ''http''")
  case False
  with assms show ?thesis
    unfolding RequestCert_def by (auto split: if_splits dest: request_self_signed_exists)
next
  case True
  show ?thesis
  proof (cases "pair_exists cert w")
    case True
    with assms \<open>ci_CertMode cert = ''dns'' \<or> _\<close> show ?thesis unfolding RequestCert_def by auto
  next
    case False
    obtain l w0 where n: "NewLego env cert w = (Inr l, w0)" and c: "CreateCert env l w0 = (None, w1)"
      using assms True False unfolding RequestCert_def by (auto split: prod.splits sum.splits)
    from CreateCert_exists [OF c] NewLego_config [OF n] show ?thesis by simp
  qed
qed

text \<open>The modes \<open>RequestCert\<close> knows.\<close>

lemma RequestCert_supported:
  assumes "RequestCert env cert w = (None, w1)"
  shows "ci_CertMode cert \<in> {[], ''none'', ''file'', ''dns'', ''http'', ''self''}"
  using assms unfolding RequestCert_def by (auto split: if_splits)

lemma RequestCert_present:
  assumes "pair_exists cert w" and "ci_CertMode cert \<in> {[], ''none'', ''file'', ''dns'', ''http'', ''self''}"
  shows "RequestCert env cert w = (None, w)"
  using assms unfolding RequestCert_def request_self_signed_def by auto

lemma RenewCert_not_due:
  assumes "ReadFile (ci_CertFile (lg_config l)) w = Inr content" and "ce_parseCert env content = Inr notAfter"
  shows "days_left env notAfter > 30 \<Longrightarrow> RenewCert env l w = ((False, None), w)"
  using assms by (simp add: RenewCert_def)

lemma RenewCert_renewed:
  assumes "ReadFile (ci_CertFile (lg_config l)) w = Inr content" and "ce_parseCert env content = Inr notAfter"
    and "RenewCert env l w = ((True, None), w1)"
  shows "days_left env notAfter \<le> 30 \<and> (\<exists>resource.
     ce_renew env (lg_client l) (ci_CertDomain (lg_config l)) content = Inr resource \<and>
     writeCert env (lg_config l) resource w = (None, w1))"
  using assms unfolding RenewCert_def by (auto split: sum.splits prod.splits if_splits)

text \<open>
  The two files are not written together.  When the new key cannot be written, the new
  certificate already stands beside the old key, and the next request takes the pair as it is.
\<close>

lemma failed_key_write_leaves_mismatch:
  assumes "ci_KeyFile cert \<noteq> ci_CertFile cert" and "cw_fs w (ci_CertFile cert) = Some (File oldCert)"
    and "cw_fs w (ci_KeyFile cert) = Some (File oldKey)"
    and "ci_CertFile cert \<noteq> []" and "ci_KeyFile cert \<noteq> []"
    and "ensureDir env (ci_CertFile cert) w = (None, w)"
    and "\<And>v. ensureDir env (ci_KeyFile cert) v = (None, v)"
    and "ce_write env (ci_CertFile cert) = Written" and "ce_write env (ci_KeyFile cert) = Refused err"
    and "ci_CertMode cert = ''dns'' \<or> ci_CertMode cert = ''http''"
  shows "\<exists>w1. writeCert env cert (newCert, newKey) w = (Some err, w1) \<and>
     cw_fs w1 (ci_CertFile cert) = Some (File newCert) \<and> cw_fs w1 (ci_KeyFile cert) = Some (File oldKey) \<and>
     RequestCert env cert w1 = (None, w1)"
proof -
  let ?w1 = "w\<lparr>cw_fs := (cw_fs w)(ci_CertFile cert \<mapsto> File newCert)\<rparr>"
  have "writeCert env cert (newCert, newKey) w = (Some err, ?w1)"
    using assms by (simp add: writeCert_def write_pair_def and_then_def WriteFile_def os_WriteFile_def)
  moreover have "pair_exists cert ?w1" using assms(3) by (simp add: pair_exists_def fileExists_def)
  then have "RequestCert env cert ?w1 = (None, ?w1)" using assms(10) by (intro RequestCert_present) auto
  moreover have "cw_fs ?w1 (ci_KeyFile cert) = Some (File oldKey)" using assms(1,3) by simp
  ultimately show ?thesis by auto
qed

text \<open>An account file that cannot be read back is never replaced: every later request fails on it.\<close>

lemma damaged_account_is_final:
  assumes "fileExists w (account_path cert)" and "user_Load env (account_path cert) w = Inl err"
    and "\<not> pair_exists cert w" and "ci_CertMode cert = ''dns'' \<or> ci_CertMode cert = ''http''"
  shows "RequestCert env cert w = (Some err, w)"
  using assms unfolding RequestCert_def NewLego_def newLegoUser_def by auto

section \<open>One call at a time\<close>

lemma join_inject:
  assumes "c \<notin> set x" and "c \<notin> set y" and "c \<notin> set z"
  shows "join [c] (x # y # xs) = join [c] (z # w # ys) \<longleftrightarrow> x = z \<and> join [c] (y # xs) = join [c] (w # ys)"
proof
  assume "join [c] (x # y # xs) = join [c] (z # w # ys)"
  then have "x @ c # join [c] (y # xs) = z @ c # join [c] (w # ys)" by simp
  then have "split2 c (x @ c # join [c] (y # xs)) = split2 c (z @ c # join [c] (w # ys))" by simp
  with assms show "x = z \<and> join [c] (y # xs) = join [c] (w # ys)" by (simp add: split2_append)
qed simp

definition plain_cert :: "CertInfo \<Rightarrow> bool" where
  "plain_cert c \<longleftrightarrow>
     (\<forall>field \<in> {ci_CertMode c, ci_CertDomain c, ci_CertFile c, ci_KeyFile c, ci_Provider c}. CHR 0x00 \<notin> set field)"

lemma certLockKey_eq:
  assumes "plain_cert a" and "plain_cert b"
  shows "certLockKey (Some a) = certLockKey (Some b) \<longleftrightarrow>
     ci_CertMode a = ci_CertMode b \<and> ci_CertDomain a = ci_CertDomain b \<and>
     ci_CertFile a = ci_CertFile b \<and> ci_KeyFile a = ci_KeyFile b \<and> ci_Provider a = ci_Provider b"
  using assms unfolding plain_cert_def certLockKey_def
  by (simp add: join_inject del: join.simps(3))

lemma cert_holds_lock:
  assumes "cert_reachable s" and "cl_inside s call = Some c"
  shows "cl_lock s (certLockKey (Some c)) = Some call"
  using assms
proof (induction arbitrary: call c rule: cert_reachable.induct)
  case (step s s1)
  from step.hyps(2) step.prems show ?case
  proof (cases rule: cert_step.cases)
    case (lockCert call1 c1)
    show ?thesis
    proof (cases "call = call1")
      case False
      then have "cl_inside s call = Some c" using lockCert step.prems by simp
      from step.IH [OF this] lockCert show ?thesis by auto
    qed (use lockCert step.prems in simp)
  next
    case (unlock call1 c1)
    have inside: "cl_inside s call = Some c" and ne: "call \<noteq> call1"
      using unlock step.prems by (auto split: if_splits)
    from step.IH [OF unlock(2)] step.IH [OF inside] ne
    have "certLockKey (Some c) \<noteq> certLockKey (Some c1)" by auto
    with unlock step.IH [OF inside] show ?thesis by simp
  qed
qed simp

section \<open>Properties\<close>

text \<open>
  C32. A granted certificate request needs no second one: when \<open>RequestCert\<close> succeeds, in
  whatever mode, both files are there, and from then on every further request succeeds at
  once, without an ACME order, a new key or any change on the disk, whatever the network
  and the disk would answer.
\<close>

theorem request_cert_idempotent:
  assumes "RequestCert env cert w = (None, w1)"
  shows "pair_exists cert w1 \<and> (\<forall>env1. RequestCert env1 cert w1 = (None, w1))"
  using RequestCert_exists [OF assms] RequestCert_present [OF _ RequestCert_supported [OF assms]]
  by blast

definition quiet_env :: cert_env where
  "quiet_env =
     \<lparr>ce_mkdir = (\<lambda>_. None), ce_write = (\<lambda>_. Written), ce_now = 0, ce_rsaKey = Inr ''rsa'',
      ce_createCert = (\<lambda>tpl key. Inr (tpl_CommonName tpl)), ce_pem = (\<lambda>kind body. body),
      ce_unpem = Some, ce_parseCert = (\<lambda>_. Inr (10 * 24 * hour)), ce_ecKey = Inr ''ec'',
      ce_marshalEC = Inr, ce_parseEC = Inr, ce_json = (\<lambda>(email, reg, key). email @ CHR ''|'' # key),
      ce_unjson = (\<lambda>file. case split2 (CHR ''|'') file of
         None \<Rightarrow> Inl ''invalid'' | Some (email, key) \<Rightarrow> Inr (email, Some ''account'', key)),
      ce_newClient = (\<lambda>_. None), ce_register = (\<lambda>_. Inr ''account''), ce_http01 = None,
      ce_dnsProvider = (\<lambda>_ _. None), ce_dns01 = None, ce_obtain = (\<lambda>_ _. Inr (''cert'', ''key'')),
      ce_renew = (\<lambda>_ _ _. Inr (''cert'', ''key''))\<rparr>"

definition sample_request :: "string \<Rightarrow> CertInfo" where
  "sample_request mode =
     \<lparr>ci_CertMode = mode, ci_CertFile = ''/etc/c.pem'', ci_KeyFile = ''/etc/k.pem'', ci_Email = ''m'',
      ci_CertDomain = ''a.b'', ci_DNSEnv = Map.empty, ci_Provider = [], ci_RejectUnknownSni = False\<rparr>"

definition empty_disk :: cert_world where
  "empty_disk = \<lparr>cw_fs = Map.empty, cw_env = Map.empty\<rparr>"

theorem request_cert_idempotent_witness:
  "\<exists>w1. RequestCert quiet_env (sample_request ''http'') empty_disk = (None, w1) \<and>
     cw_fs w1 ''/etc/k.pem'' = Some (File ''key'') \<and>
     RequestCert quiet_env (sample_request ''http'') w1 = (None, w1)"
proof -
  let ?r = "RequestCert quiet_env (sample_request ''http'') empty_disk"
  have "fst ?r = None" and k: "cw_fs (snd ?r) ''/etc/k.pem'' = Some (File ''key'')" by code_simp+
  then have r: "?r = (None, snd ?r)" by (simp add: prod_eq_iff)
  from request_cert_idempotent [OF r] r k show ?thesis by blast
qed

text \<open>
  Calls on the same certificate are serialised: in every interleaving, two calls of
  \<open>RequestCert\<close> or \<open>RenewCert\<close> that are at work at the same time are for certificates that
  differ in mode, domain, files or provider.
\<close>

theorem cert_calls_exclusive:
  assumes "cert_reachable s" and "cl_inside s i = Some a" and "cl_inside s j = Some b" and "i \<noteq> j"
    and "plain_cert a" and "plain_cert b"
  shows "ci_CertMode a \<noteq> ci_CertMode b \<or> ci_CertDomain a \<noteq> ci_CertDomain b \<or>
     ci_CertFile a \<noteq> ci_CertFile b \<or> ci_KeyFile a \<noteq> ci_KeyFile b \<or> ci_Provider a \<noteq> ci_Provider b"
proof -
  have "certLockKey (Some a) \<noteq> certLockKey (Some b)"
    using cert_holds_lock [OF assms(1,2)] cert_holds_lock [OF assms(1,3)] assms(4) by auto
  then show ?thesis using certLockKey_eq [OF assms(5,6)] by blast
qed

theorem cert_calls_exclusive_witness:
  "\<exists>s. cert_reachable s \<and> cl_inside s 0 = Some (sample_request ''http'') \<and>
     cl_inside s 1 = Some (sample_request ''dns'') \<and>
     (ci_CertMode (sample_request ''http'') \<noteq> ci_CertMode (sample_request ''dns'') \<or>
      ci_CertDomain (sample_request ''http'') \<noteq> ci_CertDomain (sample_request ''dns'') \<or>
      ci_CertFile (sample_request ''http'') \<noteq> ci_CertFile (sample_request ''dns'') \<or>
      ci_KeyFile (sample_request ''http'') \<noteq> ci_KeyFile (sample_request ''dns'') \<or>
      ci_Provider (sample_request ''http'') \<noteq> ci_Provider (sample_request ''dns''))"
proof -
  let ?a = "sample_request ''http''" and ?b = "sample_request ''dns''"
  let ?s0 = "\<lparr>cl_lock = Map.empty, cl_inside = Map.empty\<rparr>"
  let ?s1 = "?s0\<lparr>cl_lock := (cl_lock ?s0)(certLockKey (Some ?a) \<mapsto> 0), cl_inside := (cl_inside ?s0)(0 \<mapsto> ?a)\<rparr>"
  let ?s2 = "?s1\<lparr>cl_lock := (cl_lock ?s1)(certLockKey (Some ?b) \<mapsto> 1), cl_inside := (cl_inside ?s1)(1 \<mapsto> ?b)\<rparr>"
  have plain: "plain_cert ?a" "plain_cert ?b" by code_simp+
  have "certLockKey (Some ?a) \<noteq> certLockKey (Some ?b)" by code_simp
  then have 2: "cert_step ?s1 ?s2" by (intro cert_step.lockCert) auto
  have 1: "cert_step ?s0 ?s1" by (intro cert_step.lockCert) auto
  have r: "cert_reachable ?s2"
    by (rule cert_reachable.step [OF cert_reachable.step [OF cert_reachable.initial 1] 2])
  have i: "cl_inside ?s2 0 = Some ?a" "cl_inside ?s2 1 = Some ?b" by simp_all
  have ne: "(0 :: nat) \<noteq> 1" by simp
  from cert_calls_exclusive [OF r i ne plain] r i show ?thesis by blast
qed

text \<open>
  C33. Renewal happens when it is due and only then.  A certificate with more than thirty whole
  days left is left alone with its key, and no reload of the node is asked for.  A reload is
  asked for only after the ACME server has renewed a certificate with thirty days or fewer
  left and the files hold the renewed pair.
\<close>

theorem renewal_when_due:
  assumes "renew_attempt env cert w = (outcome, w1)"
    and "ReadFile (ci_CertFile cert) w = Inr content" and "ce_parseCert env content = Inr notAfter"
    and "account_path cert \<notin> {ci_CertFile cert, ci_KeyFile cert}" and "fileExists w (ci_KeyFile cert)"
  shows "(days_left env notAfter > 30 \<longrightarrow>
            cw_fs w1 (ci_CertFile cert) = cw_fs w (ci_CertFile cert) \<and>
            cw_fs w1 (ci_KeyFile cert) = cw_fs w (ci_KeyFile cert) \<and>
            snd (renewCertTask outcome c) = c) \<and>
         (outcome = Inr True \<longrightarrow>
            days_left env notAfter \<le> 30 \<and>
            (\<exists>user resource. ce_renew env user (ci_CertDomain cert) content = Inr resource \<and>
               cw_fs w1 (ci_KeyFile cert) = Some (File (snd resource)) \<and>
               (ci_KeyFile cert \<noteq> ci_CertFile cert \<longrightarrow>
                  cw_fs w1 (ci_CertFile cert) = Some (File (fst resource)))))"
proof -
  obtain made w0 where n: "NewLego env cert w = (made, w0)" by fastforce
  have crt: "fileExists w (ci_CertFile cert)"
    using assms(2) by (auto simp: ReadFile_def fileExists_def split: option.splits)
  have same: "cw_fs w0 (ci_CertFile cert) = cw_fs w (ci_CertFile cert)"
      "cw_fs w0 (ci_KeyFile cert) = cw_fs w (ci_KeyFile cert)"
    using NewLego_keeps [OF n crt] NewLego_keeps [OF n assms(5)] assms(4) by auto
  show ?thesis
  proof (cases made)
    case (Inl err)
    then have "outcome = Inl err" "w1 = w0" using assms(1) n by (simp_all add: renew_attempt_def)
    with same show ?thesis by (simp add: renewCertTask_def)
  next
    case (Inr l)
    have cfg: "lg_config l = cert" using n Inr NewLego_config by blast
    have read: "ReadFile (ci_CertFile (lg_config l)) w0 = Inr content"
      using assms(2) same(1) cfg by (simp add: ReadFile_def)
    obtain renewed err w2 where r: "RenewCert env l w0 = ((renewed, err), w2)" by (metis prod.exhaust)
    have out: "outcome = (case err of Some e \<Rightarrow> Inl e | None \<Rightarrow> Inr renewed)" "w1 = w2"
      using assms(1) n Inr r by (auto simp: renew_attempt_def split: option.splits)
    have "cw_fs w1 (ci_CertFile cert) = cw_fs w (ci_CertFile cert) \<and>
            cw_fs w1 (ci_KeyFile cert) = cw_fs w (ci_KeyFile cert) \<and> snd (renewCertTask outcome c) = c"
      if "days_left env notAfter > 30"
      using RenewCert_not_due [OF read assms(3) that] r out same by (simp add: renewCertTask_def)
    moreover have "days_left env notAfter \<le> 30 \<and>
            (\<exists>user resource. ce_renew env user (ci_CertDomain cert) content = Inr resource \<and>
               cw_fs w1 (ci_KeyFile cert) = Some (File (snd resource)) \<and>
               (ci_KeyFile cert \<noteq> ci_CertFile cert \<longrightarrow>
                  cw_fs w1 (ci_CertFile cert) = Some (File (fst resource))))"
      if "outcome = Inr True"
    proof -
      have "err = None" "renewed" using that out by (auto split: option.splits)
      with r have "RenewCert env l w0 = ((True, None), w2)" by simp
      from RenewCert_renewed [OF read assms(3) this] obtain resource where
        due: "days_left env notAfter \<le> 30"
        and ren: "ce_renew env (lg_client l) (ci_CertDomain cert) content = Inr resource"
        and wr: "writeCert env cert resource w0 = (None, w2)" using cfg by auto
      from write_pair_wrote [OF wr [unfolded writeCert_def]] out(2)
      have "cw_fs w1 (ci_KeyFile cert) = Some (File (snd resource)) \<and> (ci_KeyFile cert \<noteq> ci_CertFile cert \<longrightarrow>
          cw_fs w1 (ci_CertFile cert) = Some (File (fst resource)))" by simp
      with due ren show ?thesis by blast
    qed
    ultimately show ?thesis by blast
  qed
qed

definition issued_disk :: cert_world where
  "issued_disk = \<lparr>cw_fs = [''/etc/c.pem'' \<mapsto> File ''old'', ''/etc/k.pem'' \<mapsto> File ''oldkey''], cw_env = Map.empty\<rparr>"

theorem renewal_when_due_witness:
  "\<exists>w1. renew_attempt quiet_env (sample_request ''http'') issued_disk = (Inr True, w1) \<and>
     days_left quiet_env (10 * 24 * hour) \<le> 30 \<and> cw_fs w1 ''/etc/k.pem'' = Some (File ''key'')"
proof -
  let ?c = "sample_request ''http''" and ?r = "renew_attempt quiet_env (sample_request ''http'') issued_disk"
  have "fst ?r = Inr True" by code_simp
  then have r: "?r = (Inr True, snd ?r)" by (simp add: prod_eq_iff)
  have read: "ReadFile (ci_CertFile ?c) issued_disk = Inr ''old''" by code_simp
  have parsed: "ce_parseCert quiet_env ''old'' = Inr (10 * 24 * hour)" by (simp add: quiet_env_def)
  have acc: "account_path ?c \<notin> {ci_CertFile ?c, ci_KeyFile ?c}" and key: "fileExists issued_disk (ci_KeyFile ?c)"
    by code_simp+
  have renewed: "ce_renew quiet_env user domain content = Inr resource \<Longrightarrow> resource = (''cert'', ''key'')"
    for user domain content resource by (auto simp: quiet_env_def)
  have k: "ci_KeyFile ?c = ''/etc/k.pem''" by (simp add: sample_request_def)
  from renewal_when_due [OF r read parsed acc key] obtain user resource where
    due: "days_left quiet_env (10 * 24 * hour) \<le> 30"
    and ren: "ce_renew quiet_env user (ci_CertDomain ?c) ''old'' = Inr resource"
    and kf: "cw_fs (snd ?r) (ci_KeyFile ?c) = Some (File (snd resource))" by blast
  from kf renewed [OF ren] k have "cw_fs (snd ?r) ''/etc/k.pem'' = Some (File ''key'')" by simp
  with r due show ?thesis by blast
qed

lemma fold_dns_pairs:
  assumes "\<forall>(k, v)\<in>set ps. CHR ''='' \<notin> set k"
  shows "fold dns_pair (map (\<lambda>(k, v). k @ CHR ''='' # v) ps) out = out ++ map_of (rev ps)"
  using assms
proof (induction ps arbitrary: out)
  case (Cons p ps)
  obtain k v where p: "p = (k, v)" by fastforce
  have "dns_pair (k @ CHR ''='' # v) out = out(k \<mapsto> v)"
    using Cons.prems p by (simp add: dns_pair_def split2_append)
  moreover have "out(k \<mapsto> v) ++ map_of (rev ps) = out ++ map_of (rev ps @ [(k, v)])"
    by (rule ext) (auto simp: map_add_def split: option.splits)
  ultimately show ?case using Cons p by simp
qed simp

lemma split_join:
  assumes "ws \<noteq> []" and "\<forall>w\<in>set ws. c \<notin> set w"
  shows "split_char c (join [c] ws) = ws"
  using assms
proof (induction ws rule: induct_list012)
  case (3 x y zs)
  then show ?case by (simp add: split_char_append)
qed (simp_all add: split_char_single)

text \<open>
  The DNS variables are read as they were written: a list of assignments, the names
  without \<open>=\<close> and \<open>,\<close> and the values without \<open>,\<close>, joined by commas, is parsed to the map
  of these assignments, the last one winning for a name that occurs twice; a value may
  contain further equal signs.
\<close>

theorem dns_pairs_roundtrip:
  assumes "\<forall>(k, v)\<in>set ps. CHR ''='' \<notin> set k \<and> CHR '','' \<notin> set k \<and> CHR '','' \<notin> set v"
  shows "ParseDNSPairs (join '','' (map (\<lambda>(k, v). k @ CHR ''='' # v) ps)) = map_of (rev ps)"
proof (cases "ps = []")
  case True
  then show ?thesis by (simp add: ParseDNSPairs_def)
next
  case False
  let ?ws = "map (\<lambda>(k, v). k @ CHR ''='' # v) ps"
  have "\<forall>w\<in>set ?ws. CHR '','' \<notin> set w" using assms by auto
  with False have "split_char (CHR '','') (join '','' ?ws) = ?ws" by (intro split_join) auto
  moreover have "join '','' ?ws \<noteq> []" using False by (cases ps; cases "tl ps") auto
  moreover have "\<forall>(k, v)\<in>set ps. CHR ''='' \<notin> set k" using assms by auto
  ultimately show ?thesis by (simp add: ParseDNSPairs_def fold_dns_pairs)
qed

theorem dns_pairs_roundtrip_witness:
  "ParseDNSPairs ''A=1,B=x=y,A=2'' ''A'' = Some ''2'' \<and> ParseDNSPairs ''A=1,B=x=y,A=2'' ''B'' = Some ''x=y''"
proof -
  let ?ps = "[(''A'', ''1''), (''B'', ''x=y''), (''A'', ''2'')]"
  have "\<forall>(k, v)\<in>set ?ps. CHR ''='' \<notin> set k \<and> CHR '','' \<notin> set k \<and> CHR '','' \<notin> set v" by simp
  from dns_pairs_roundtrip [OF this] show ?thesis by simp
qed

text \<open>What the decoder of an environment needs to know of the encoder of another.\<close>

definition reads_back :: "cert_env \<Rightarrow> cert_env \<Rightarrow> bool" where
  "reads_back env env1 \<longleftrightarrow>
     (\<forall>x. ce_unjson env1 (ce_json env x) = Inr x) \<and> (\<forall>kind b. ce_unpem env1 (ce_pem env kind b) = Some b) \<and>
     (\<forall>key der. ce_marshalEC env key = Inr der \<longrightarrow> ce_parseEC env1 der = Inr key)"

lemma saved_user_loads:
  assumes "user_Save env path u w = (None, u1, w1)" and "reads_back env env1"
  shows "\<exists>v. user_Load env1 path w1 = Inr v \<and> lu_Email v = lu_Email u \<and>
     lu_Registration v = lu_Registration u \<and> lu_key v = lu_key u"
proof -
  obtain w0 key encoded where k: "lu_key u = Some key" and e: "encodePrivate env key = Inr encoded"
    and wr: "WriteFile env path (ce_json env (lu_Email u, lu_Registration u, encoded)) w0 = (None, w1)"
    using assms(1) unfolding user_Save_def by (auto split: prod.splits option.splits sum.splits)
  have "decodePrivate env1 encoded = Inr key"
    using e assms(2) unfolding encodePrivate_def decodePrivate_def reads_back_def
    by (auto split: sum.splits)
  moreover have "ReadFile path w1 = Inr (ce_json env (lu_Email u, lu_Registration u, encoded))"
    using WriteFile_wrote [OF wr] by (simp add: ReadFile_def)
  ultimately show ?thesis
    using assms(2) k unfolding user_Load_def reads_back_def by simp
qed

text \<open>
  An ACME account is registered once per e-mail address: after \<open>newLegoUser\<close> has
  registered an account, the next call for the same address, in this run or after a
  restart, finds the same account, registration and private key in the file and contacts
  no server, given that JSON, PEM and the EC key encoding read back what they wrote.
\<close>

theorem account_registered_once:
  assumes "newLegoUser env path email w = (Inr user, w1)" and "\<not> fileExists w path"
    and "reads_back env env1"
  shows "\<exists>user1. newLegoUser env1 path email w1 = (Inr user1, w1) \<and> lu_Email user1 = email \<and>
     lu_Registration user1 = lu_Registration user \<and> lu_key user1 = lu_key user"
proof -
  obtain u where s: "user_Save env path u w = (None, user, w1)" and email: "lu_Email u = email"
    using assms(1,2) unfolding newLegoUser_def registerLegoUser_def Let_def no_user_def
    by (auto split: sum.splits option.splits prod.splits)
  have same: "lu_Registration user = lu_Registration u" "lu_key user = lu_key u"
    using s unfolding user_Save_def by (auto split: prod.splits option.splits sum.splits)
  obtain v where v: "user_Load env1 path w1 = Inr v" "lu_Email v = lu_Email u"
      "lu_Registration v = lu_Registration u" "lu_key v = lu_key u"
    using saved_user_loads [OF s assms(3)] by blast
  then have "fileExists w1 path"
    by (auto simp: user_Load_def ReadFile_def fileExists_def split: option.splits)
  with v same email show ?thesis by (simp add: newLegoUser_def)
qed

definition put_field :: "string \<Rightarrow> string" where
  "put_field a = replicate (length a) (CHR ''1'') @ CHR ''0'' # a"

definition take_field :: "string \<Rightarrow> string \<times> string" where
  "take_field s =
     (let n = length (takeWhile (\<lambda>c. c = CHR ''1'') s); rest = drop (Suc n) s in (take n rest, drop n rest))"

lemma take_put_field [simp]: "take_field (put_field a @ b) = (a, b)"
  by (simp add: take_field_def put_field_def takeWhile_append Let_def)

definition plain_json :: "string \<times> string option \<times> string \<Rightarrow> string" where
  "plain_json u =
     (case u of (email, reg, key) \<Rightarrow>
        put_field email @ (case reg of None \<Rightarrow> ''0'' | Some r \<Rightarrow> CHR ''1'' # put_field r) @ key)"

definition plain_unjson :: "string \<Rightarrow> string + string \<times> string option \<times> string" where
  "plain_unjson s =
     (case take_field s of (email, rest) \<Rightarrow>
        (case rest of
           [] \<Rightarrow> Inl ''unexpected end''
         | c # cs \<Rightarrow>
             if c = CHR ''1'' then (case take_field cs of (r, key) \<Rightarrow> Inr (email, Some r, key))
             else Inr (email, None, cs)))"

definition coding_env :: cert_env where
  "coding_env = quiet_env\<lparr>ce_json := plain_json, ce_unjson := plain_unjson\<rparr>"

lemma coding_env_reads_back: "reads_back coding_env coding_env"
  by (auto simp: reads_back_def coding_env_def quiet_env_def plain_json_def plain_unjson_def split: option.splits)

theorem account_registered_once_witness:
  "\<exists>user w1 user1. newLegoUser coding_env ''/etc/u'' ''m'' empty_disk = (Inr user, w1) \<and>
     newLegoUser coding_env ''/etc/u'' ''m'' w1 = (Inr user1, w1) \<and> lu_key user1 = lu_key user \<and>
     lu_key user = Some ''ec''"
proof -
  let ?r = "newLegoUser coding_env ''/etc/u'' ''m'' empty_disk"
  have k: "(case fst ?r of Inl _ \<Rightarrow> None | Inr u \<Rightarrow> lu_key u) = Some ''ec''" by code_simp
  then obtain user where u: "fst ?r = Inr user" "lu_key user = Some ''ec''" by (cases "fst ?r") auto
  then have r: "?r = (Inr user, snd ?r)" by (simp add: prod_eq_iff)
  have new: "\<not> fileExists empty_disk ''/etc/u''" by code_simp
  from account_registered_once [OF r new coding_env_reads_back] r u show ?thesis by metis
qed

end
