(* ===== verification/Spec2Isabelle.thy ===== *)
theory Spec2Isabelle
  imports NodeRuns EventPipe NodeSystem NodeLife LostAnswers LimiterRaces CaddyProcess Duplex LegacyRequests LegacyServe LegacyTunnel
    Acl Padding RateLimit ForwardFacts FpConfig HttpClient UpstreamConn Program Cert
begin

text \<open>
  A model of v2naive, a node agent for the naive proxy protocol, with the theorems that make
  it correct.  This theory only collects the others.

  \<^bold>\<open>The program.\<close>  An agent (\<^verbatim>\<open>main.go\<close>) runs one controller per configured node.  The
  controller fetches node settings, users and alive counts from a panel
  (\<^verbatim>\<open>internal/panel\<close>), requests a certificate (\<^verbatim>\<open>internal/certutil\<close>), makes one of two
  engines (\<^verbatim>\<open>internal/server\<close>) and starts three periodic tasks (\<^verbatim>\<open>internal/task\<close>): polling
  the panel, reporting traffic and devices, renewing the certificate.  The built-in engine
  (\<^verbatim>\<open>internal/proxy\<close>) is a proxy in the same process.  The Caddy engine
  (\<^verbatim>\<open>internal/caddyproc\<close>) generates a configuration, starts a Caddy process with the
  patched forward proxy (\<^verbatim>\<open>runtime/forwardproxy\<close>), answers its authorisation calls on a
  local endpoint, and reads tunnel events from its output.  Both engines admit users and
  devices through the limiter (\<^verbatim>\<open>internal/limiter\<close>).

  \<^bold>\<open>Theories and code.\<close>
  \<^item> \<open>Prelude\<close>: 64-bit wrap-around, maps as Go maps, loops over maps in any order.
    \<open>Go_Strings\<close>, \<open>Go_Encoding\<close>, \<open>Go_Net\<close>: what the program uses of Go's strings, strconv,
    base64, utf8, net, netip and path packages.
  \<^item> \<open>Limiter\<close> (\<^verbatim>\<open>limiter.go\<close>), \<open>Panel\<close> (\<^verbatim>\<open>client.go\<close>), \<open>Conf\<close> (\<^verbatim>\<open>conf.go\<close>).
    \<open>LimiterRaces\<close>: the limiter's calls taken apart into single operations, in any interleaving.
  \<^item> \<open>UserDiff\<close>: \<^verbatim>\<open>compareUserList\<close> of \<^verbatim>\<open>main.go\<close>, and that applying a difference to a
    limiter gives the limiter of the new list.
  \<^item> \<open>Traffic\<close>, \<open>Ledger\<close>: a user's counter, and the locale of engines that bill what they
    count.  \<open>CaddyProc\<close>, \<open>CaddyConfig\<close>: the Caddy engine's users, events, output and
    endpoints, and its configuration with an abstract view of its process.
    \<open>CaddyAccounting\<close>, \<open>CaddyTunnels\<close>: its ledger and its table of open tunnels.
  \<^item> \<open>Go_OS\<close>, \<open>CoverStyle\<close>, \<open>CoverSite\<close>, \<open>CaddyProcess\<close>: a disk, the cover site with its texts
    and files, and Start and Close on a machine with disk, processes, channels and listener,
    which refine the abstract view.
  \<^item> \<open>LegacyProxy\<close>, \<open>LegacyAccounting\<close>, \<open>LegacyRequests\<close>, \<open>LegacyServe\<close>: the built-in
    engine, whose counters are shared pointers and live on a heap, its ledger, its requests,
    and a whole request from the credentials to the bytes on the user's account.
    \<open>LegacyTunnel\<close>: its tunnel as it runs, both copies, their writers and the handler, which is
    what a whole request takes it to be (\<open>served_tunnel_runs\<close>).
  \<^item> \<open>Controller\<close>, \<open>Engines\<close>, \<open>ControllerFacts\<close>, \<open>NodeRuns\<close>, \<open>Task\<close>: the controller
    over a record of engine methods, both engines as instances of the interface and of the
    contract \<open>user_engine\<close>, the runs of a node, start and interrupted polls, and the tasks
    with the loop of \<^verbatim>\<open>runNode\<close>.  \<open>Program\<close>: \<^verbatim>\<open>main\<close> and \<^verbatim>\<open>setupLog\<close>, one loop per node, the signal.
  \<^item> \<open>NodeSystem\<close>: a whole node with the Caddy engine, any number of tunnels, the events on
    their way, the engine and the report cycle as one step relation.  \<open>NodeLife\<close>: the ledgers
    of all engines a node has had over its reloads.  \<open>LostAnswers\<close>: the ledger when answers
    of the panel to a report are lost.
  \<^item> \<open>Acl\<close> (\<^verbatim>\<open>acl.go\<close> and the checks of \<^verbatim>\<open>forwardproxy.go\<close>), \<open>ForwardAuth\<close> (credentials and
    the calls of \<^verbatim>\<open>v2naive_auth.go\<close>, \<^verbatim>\<open>v2naive_release.go\<close>), \<open>ForwardProxy\<close> (ServeHTTP with
    every early return), \<open>ForwardFacts\<close>, \<open>FpConfig\<close> (\<^verbatim>\<open>caddyfile.go\<close> and Provision),
    \<open>HttpClient\<close>, \<open>UpstreamConn\<close> (the dialler to an upstream proxy and its connections).
  \<^item> \<open>Streams\<close>, \<open>Padding\<close>, \<open>Tunnels\<close>, \<open>RateLimit\<close>, \<open>EventPipe\<close>: the copy loop of a tunnel
    with the padding protocol, its counters and reports, the shared rate limiters
    (\<^verbatim>\<open>v2naive_ratelimit.go\<close>), and the way of the events (\<^verbatim>\<open>v2naive_event.go\<close>) to the engine.
    \<open>Duplex\<close>: a tunnel as it runs, both copies, half-closing, the reporter and the end interleaved.
  \<^item> \<open>Cert\<close> (\<^verbatim>\<open>cert.go\<close>): the modes, the lock, the ACME account and the renewal.

  \<^bold>\<open>State and operations.\<close>  A struct is a record with its fields, a method a function from
  the state to a result and the next state.  Methods that hold a lock, and operations on
  sync.Map and on atomics, are single steps; where a method takes several such steps and
  runs concurrently with others (the deltas of a tunnel, starts and stops of a task, the
  calls under the certificate lock, reports while events arrive) it is a step relation, and the
  theorem is about every reachable state.  The limiter's methods are single steps everywhere but
  in \<open>LimiterRaces\<close>, whose \<open>calls_alone_refine\<close> ties the two together.  The engines' runs are sequences of their methods
  in any order.  A loop over a Go map takes the order as an argument that enumerates the
  map's keys; the theorems hold for every order.

  \<^bold>\<open>Parameters.\<close>  What other code answers is an argument: the panel's replies, JSON, msgpack
  and PEM, cryptography and the lego library, the resolver and the dialler, http.Transport,
  the disk's errors, the process that is started, random numbers and the clock.  Hypotheses
  on them are of the form that a decoder reads back what the encoder wrote; each theorem
  with one has a witness with concrete functions.

  \<^bold>\<open>What the theorems show.\<close>
  \<^item> Admission: the limiter rejects exactly unknown users and devices over the limit, what it
    admits stays admitted and is undone exactly by a release, its tables stay consistent
    under all methods in any order; the proxy's verdict over the endpoint is the limiter's,
    and an address admitted for a tunnel that is not opened is given back exactly once.  Under
    concurrent calls nobody is admitted as somebody else or refused below the limit
    (\<open>race_verdicts\<close>), but the limit itself can be passed (\<open>race_bypasses_device_limit\<close>).
  \<^item> Billing: with both engines, through any interleaving of events, updates and reports, the
    bytes billed and pending are the bytes moved; a tunnel's bytes reach the pending bytes of its
    user through ticks, the closing event, the printed line and the parser; a report cycle
    bills the slice once if the panel accepts it and not at all otherwise.  For the node as
    a whole nothing is lost between the tunnels and the bill, and the engine's table is that
    of the open tunnels; over reloads the totals add up, and what is pending at one is lost.
    A lost answer bills twice what it answered, and never less.  A tunnel of the built-in
    engine is billed for what it delivered when its copies end.
  \<^item> Processes: at most one Caddy process of a node lives, Start and Close always return and
    leave nothing behind, a started process finds its configuration, the authorisation
    server and the cover site; the node loops of the program keep running until the signal.
  \<^item> Users: in every state of a running node the engine's table and limiter hold exactly
    the controller's user list; a node starts only with users of its own panel or cache.
  \<^item> Reach and disguise: only addresses that passed the checks are dialled; a request
    without credentials leaves no trace, and with the generated configuration is always
    passed on; a tunnel through an upstream means that it answered 200 to this CONNECT; every
    configuration that is accepted is well-formed, an upstream without TLS only local or by choice.
  \<^item> Streams: padding is removed losslessly, deltas tell each byte once, waiting stays within the
    burst; a tunnel's goroutines come to the same result in every interleaving, and to an end.
    In the built-in engine the first copy to end cuts the other one, and with HTTP/2 that one
    may use the response after its time.
  \<^item> Certificates: requests are idempotent, renewals due, calls serialised, accounts reused.
  \<^item> Lemmas without a place among the properties record behaviour worth knowing, such as
    \<open>burst_admitted\<close>, \<open>allow_all_shadows_builtin\<close>, \<open>lifted_limit_forgets_tunnels\<close>, \<open>failed_renewal_is_last\<close>,
    \<open>plain_requests_unaccounted\<close>, \<open>failed_exchange_is_no_error\<close>, \<open>dead_caddy_unnoticed\<close>,
    \<open>main_leaves_controllers_open\<close> and \<open>failed_key_write_leaves_mismatch\<close>.

  \<^bold>\<open>Termination.\<close>  The loops are total functions.  Trimming and waiting get shorter strings and
  smaller amounts; the copy loop takes bytes or chunks off its reader in every round, and
  \<open>copy_ends\<close>, \<open>tunnel_comes_to_end\<close> and \<open>engine_tunnel_comes_to_end\<close> bound the rounds by their number.  Polling for readiness runs over the finite
  list of the polls' outcomes, output and events over finite lists of lines.

  \<^bold>\<open>Not modelled.\<close>  Parsing of flags, levels of logrus, http.Server, TLS and the transport,
  which only appear through their answers: they are other people's code.  Buffers' reuse,
  which no result depends on; error texts where they quote values of other libraries; the
  version constant; the installer and the service file, which are shell and systemd.
  Data races in Go's sense, that is torn reads of plain fields: what is read and written
  without a lock is taken as atomic.
\<close>

end
